(* ===== verification/Prelude.thy ===== *)
theory Prelude
  imports Main "HOL-Library.Word"
begin

text \<open>
  What every component of the model shares: the value of a Go computation that may panic, the
  loops over slices and counters that stop at the first panic, the stream of results of
  \<^verbatim>\<open>math/rand\<close>, and the collections of facts the component proofs use.
\<close>

section \<open>Panics\<close>

text \<open>
  Go's run-time panics, one constructor for each kind the sources can raise, and the explicit
  \<^verbatim>\<open>panic(...)\<close> calls, which carry (the fixed part of) their message.
\<close>

datatype go_panic =
    IndexOutOfRange
  | SliceBounds
  | NilDeref
  | NilMapWrite
  | TypeAssertion
  | DivideByZero
  | Panic string

type_synonym 'a res = "go_panic + 'a"

definition bindR :: "'a res \<Rightarrow> ('a \<Rightarrow> 'b res) \<Rightarrow> 'b res" where
  "bindR m f = (case m of Inl e \<Rightarrow> Inl e | Inr x \<Rightarrow> f x)"

named_theorems res_simps \<open>evaluation of computations that may panic\<close>
named_theorems inv_intros \<open>operations that keep an invariant\<close>

lemma bindR_simps [simp, res_simps]:
  "bindR (Inl e) f = Inl e"
  "bindR (Inr x) f = f x"
  by (simp_all add: bindR_def)

lemma bindR_eq_Inr: "bindR m f = Inr y \<longleftrightarrow> (\<exists>x. m = Inr x \<and> f x = Inr y)"
  by (cases m) simp_all

lemma bindR_eq_Inl: "bindR m f = Inl e \<longleftrightarrow> m = Inl e \<or> (\<exists>x. m = Inr x \<and> f x = Inl e)"
  by (cases m) simp_all

lemma bindR_InrE:
  assumes "bindR m f = Inr y"
  obtains x where "m = Inr x" and "f x = Inr y"
  using assms by (auto simp: bindR_eq_Inr)

lemma bindR_assoc: "bindR (bindR m f) g = bindR m (\<lambda>x. bindR (f x) g)"
  by (cases m) simp_all

lemma bindR_cong [fundef_cong]:
  "m = m' \<Longrightarrow> (\<And>x. m' = Inr x \<Longrightarrow> f x = g x) \<Longrightarrow> bindR m f = bindR m' g"
  by (cases m') simp_all

section \<open>Loops that stop at a panic\<close>

text \<open>\<^verbatim>\<open>for _, x := range xs { body }\<close>: the body updates a state and may panic.\<close>

fun foldR :: "('a \<Rightarrow> 's \<Rightarrow> 's res) \<Rightarrow> 'a list \<Rightarrow> 's \<Rightarrow> 's res" where
  "foldR f [] s = Inr s"
| "foldR f (x # xs) s = bindR (f x s) (foldR f xs)"

text \<open>A loop of \<open>n\<close> rounds that collects the value of every round.\<close>

fun repeatR :: "nat \<Rightarrow> ('s \<Rightarrow> ('a \<times> 's) res) \<Rightarrow> 's \<Rightarrow> ('a list \<times> 's) res" where
  "repeatR 0 f s = Inr ([], s)"
| "repeatR (Suc n) f s =
     bindR (f s) (\<lambda>(x, s'). bindR (repeatR n f s') (\<lambda>(xs, s''). Inr (x # xs, s'')))"

lemma foldR_cong [fundef_cong]:
  assumes "xs = ys" "s = t" and "\<And>x u. x \<in> set ys \<Longrightarrow> f x u = g x u"
  shows "foldR f xs s = foldR g ys t"
  using assms(3) unfolding assms(1,2)
  by (induction ys arbitrary: t) (auto intro!: bindR_cong)

lemma foldR_append: "foldR f (xs @ ys) s = bindR (foldR f xs s) (foldR f ys)"
  by (induction xs arbitrary: s) (auto simp: bindR_assoc intro!: bindR_cong)

text \<open>A body that never panics makes the loop a plain fold.\<close>

lemma foldR_pure: "foldR (\<lambda>x s. Inr (f x s)) xs s = Inr (fold f xs s)"
  by (induction xs arbitrary: s) simp_all

text \<open>Partial correctness: what every round keeps holds at the end, if the loop ends.\<close>

lemma foldR_invariant:
  assumes "foldR f xs s = Inr s'" and "P s"
    and "\<And>x u u'. x \<in> set xs \<Longrightarrow> P u \<Longrightarrow> f x u = Inr u' \<Longrightarrow> P u'"
  shows "P s'"
  using assms
proof (induction xs arbitrary: s)
  case Nil
  then show ?case by simp
next
  case (Cons x xs)
  from Cons.prems(1) obtain u where u: "f x s = Inr u" and u': "foldR f xs u = Inr s'"
    by (auto elim: bindR_InrE)
  have "P u" using Cons.prems(3) [of x s u] Cons.prems(2) u by simp
  then show ?case by (rule Cons.IH [OF u']) (auto intro: Cons.prems(3))
qed

text \<open>Total correctness: if no round panics from a state of the invariant, neither does the loop.\<close>

lemma foldR_total:
  assumes "P s" and "\<And>x u. x \<in> set xs \<Longrightarrow> P u \<Longrightarrow> \<exists>u'. f x u = Inr u' \<and> P u'"
  shows "\<exists>s'. foldR f xs s = Inr s' \<and> P s'"
  using assms
proof (induction xs arbitrary: s)
  case Nil
  then show ?case by simp
next
  case (Cons x xs)
  obtain u where u: "f x s = Inr u" "P u"
    using Cons.prems(2) [of x s] Cons.prems(1) by auto
  have "\<exists>s'. foldR f xs u = Inr s' \<and> P s'"
    by (rule Cons.IH [OF u(2)]) (auto intro: Cons.prems(2))
  with u show ?case by simp
qed

text \<open>The same for \<^verbatim>\<open>for i := 0; i < n; i++\<close>, with an invariant that knows the index.\<close>

lemma foldR_upt_invariant:
  assumes "foldR f [0..<n] s = Inr s'" and "P 0 s"
    and "\<And>i u u'. i < n \<Longrightarrow> P i u \<Longrightarrow> f i u = Inr u' \<Longrightarrow> P (Suc i) u'"
  shows "P n s'"
  using assms
proof (induction n arbitrary: s')
  case 0
  then show ?case by simp
next
  case (Suc n)
  from Suc.prems(1) obtain u where "foldR f [0..<n] s = Inr u" and last: "f n u = Inr s'"
    by (auto simp: foldR_append elim!: bindR_InrE)
  from Suc.IH [OF this(1) Suc.prems(2)] Suc.prems(3) have "P n u" by auto
  then show ?case using Suc.prems(3) last by blast
qed

lemma foldR_upt_total:
  assumes "P 0 s" and "\<And>i u. i < n \<Longrightarrow> P i u \<Longrightarrow> \<exists>u'. f i u = Inr u' \<and> P (Suc i) u'"
  shows "\<exists>s'. foldR f [0..<n] s = Inr s' \<and> P n s'"
  using assms
proof (induction n)
  case 0
  then show ?case by simp
next
  case (Suc n)
  then obtain u where "foldR f [0..<n] s = Inr u" "P n u" by auto
  moreover obtain u' where "f n u = Inr u'" "P (Suc n) u'" using Suc.prems(2) [OF _ \<open>P n u\<close>] by auto
  ultimately show ?case by (simp add: foldR_append)
qed

lemma repeatR_cong [fundef_cong]:
  assumes "n = m" "s = t" and "\<And>u. f u = g u"
  shows "repeatR n f s = repeatR m g t"
proof -
  have "f = g" using assms(3) by (rule ext)
  with assms(1,2) show ?thesis by simp
qed

lemma repeatR_invariant:
  assumes "repeatR n f s = Inr (xs, s')" and "P s"
    and "\<And>u x u'. P u \<Longrightarrow> f u = Inr (x, u') \<Longrightarrow> P u' \<and> Q x"
  shows "P s' \<and> length xs = n \<and> (\<forall>x \<in> set xs. Q x)"
  using assms(1,2)
proof (induction n arbitrary: s xs)
  case 0
  then show ?case by simp
next
  case (Suc n)
  from Suc.prems(1) obtain x u ys
    where "f s = Inr (x, u)" and "repeatR n f u = Inr (ys, s')" and "xs = x # ys"
    by (auto elim!: bindR_InrE split: prod.splits)
  with Suc.IH [of u ys] assms(3) [of s x u] Suc.prems(2) show ?case by simp
qed

lemma repeatR_total:
  assumes "P s" and "\<And>u. P u \<Longrightarrow> \<exists>x u'. f u = Inr (x, u') \<and> P u'"
  shows "\<exists>xs s'. repeatR n f s = Inr (xs, s') \<and> P s'"
  using assms(1)
proof (induction n arbitrary: s)
  case 0
  then show ?case by simp
next
  case (Suc n)
  obtain x u where u: "f s = Inr (x, u)" "P u" using assms(2) Suc.prems by blast
  obtain xs s' where "repeatR n f u = Inr (xs, s') \<and> P s'" using Suc.IH [OF u(2)] by blast
  with u show ?case by simp
qed

section \<open>The random source\<close>

text \<open>
  \<^verbatim>\<open>rand.Int()\<close> returns a non-negative \<^verbatim>\<open>int\<close> (63 bits). The generator is modelled by the
  stream of its future results, the \<open>n\<close>-th one at \<open>n\<close>: a call takes the first and leaves the
  rest. Every theorem holds for every stream.
\<close>

type_synonym rng = "nat \<Rightarrow> nat"

definition rand_Int :: "rng \<Rightarrow> nat \<times> rng" where
  "rand_Int r = (r 0 mod 2 ^ 63, \<lambda>n. r (Suc n))"

text \<open>\<^verbatim>\<open>rand.Intn(n)\<close> panics for \<open>n \<le> 0\<close> and returns a number below \<open>n\<close> otherwise.\<close>

definition rand_Intn :: "nat \<Rightarrow> rng \<Rightarrow> (nat \<times> rng) res" where
  "rand_Intn n r =
     (if n = 0 then Inl (Panic ''invalid argument to Intn'') else Inr (r 0 mod n, \<lambda>k. r (Suc k)))"

lemma rand_Int_bound: "fst (rand_Int r) < 2 ^ 63"
  by (simp add: rand_Int_def)

lemma rand_Intn_bound: "rand_Intn n r = Inr (k, r') \<Longrightarrow> k < n"
  by (auto simp: rand_Intn_def split: if_splits)

section \<open>Lists\<close>

text \<open>Reading \<open>n\<close> consecutive positions of a cyclic list of length \<open>n\<close> from \<open>c\<close> rotates it.\<close>

lemma cyclic_read_rotate:
  "xs \<noteq> [] \<Longrightarrow>
     map (\<lambda>i. xs ! ((c + i) mod length xs)) [0..<length xs] = rotate c xs"
  by (rule nth_equalityI) (auto simp: nth_rotate)

text \<open>The index at which a cyclic read from \<open>c\<close> meets position \<open>j\<close>.\<close>

lemma cyclic_hit:
  fixes c j n :: nat
  assumes "j < n"
  shows "\<exists>i < n. (c + i) mod n = j"
proof -
  let ?i = "(j + (n - c mod n)) mod n"
  have n: "0 < n" using assms by simp
  have "(c + ?i) mod n = (c mod n + (j + (n - c mod n))) mod n"
    by (simp add: mod_simps)
  also have "c mod n + (j + (n - c mod n)) = j + n"
    using mod_less_divisor [OF n, of c] by simp
  finally have "(c + ?i) mod n = j" using assms by simp
  with n show ?thesis by (meson mod_less_divisor)
qed

lemma distinct_map_snoc: "distinct (map f (xs @ [x])) \<longleftrightarrow> distinct (map f xs) \<and> f x \<notin> f ` set xs"
  by auto

lemma fold_invariant:
  assumes "P s" and "\<And>x u. x \<in> set xs \<Longrightarrow> P u \<Longrightarrow> P (f x u)"
  shows "P (fold f xs s)"
  using assms by (induction xs arbitrary: s) simp_all

end
