(* ===== verification/Pools.thy ===== *)
theory Pools
  imports Prelude "HOL-Library.Multiset"
begin

text \<open>
  The value pools of package \<^verbatim>\<open>argpool\<close>: the generic pool (\<^verbatim>\<open>pool.go\<close>) and the typed pools
  (\<^verbatim>\<open>int8pool.go\<close> \<dots> \<^verbatim>\<open>stringpool.go\<close>). All are a slice read circularly through an index,
  and a map from the keys of the values ever added. The theory holds the operations, the
  interfaces every pool promises (a duplicate-free collection, a circular reader, a FIFO pool) as
  locales, with the lemmas a client proves from them, and their interpretations.
\<close>

section \<open>The pool structure\<close>

record ('a, 'k) ring =
  p_idx :: nat
  p_storage :: "'a list"
  p_storageMap :: "'k set"

definition ring_new :: "('a, 'k) ring" where
  "ring_new = \<lparr>p_idx = 0, p_storage = [], p_storageMap = {}\<rparr>"

definition ring_Add :: "('a \<Rightarrow> 'k) \<Rightarrow> 'a \<Rightarrow> ('a, 'k) ring \<Rightarrow> ('a, 'k) ring" where
  "ring_Add key x p =
     p\<lparr>p_storage := p_storage p @ [x], p_storageMap := insert (key x) (p_storageMap p)\<rparr>"

definition ring_Next :: "'b \<Rightarrow> ('a \<Rightarrow> 'b) \<Rightarrow> ('a, 'k) ring \<Rightarrow> ('b \<times> ('a, 'k) ring) res" where
  "ring_Next zero ret p =
     (if length (p_storage p) = 0 then Inr (zero, p)
      else if p_idx p < length (p_storage p)
        then Inr (ret (p_storage p ! p_idx p),
                  p\<lparr>p_idx := (p_idx p + 1) mod length (p_storage p)\<rparr>)
        else Inl IndexOutOfRange)"

definition ring_Contains :: "('a \<Rightarrow> 'k) \<Rightarrow> 'a \<Rightarrow> ('a, 'k) ring \<Rightarrow> bool" where
  "ring_Contains key x p \<longleftrightarrow> key x \<in> p_storageMap p"

definition ring_Size :: "('a, 'k) ring \<Rightarrow> nat" where
  "ring_Size p = length (p_storage p)"

text \<open>
  What the operations keep: the index is in range (0 while the pool is empty), and the map holds
  exactly the keys of the stored values.
\<close>

definition ring_inv :: "('a \<Rightarrow> 'k) \<Rightarrow> ('a, 'k) ring \<Rightarrow> bool" where
  "ring_inv key p \<longleftrightarrow>
     (if p_storage p = [] then p_idx p = 0 else p_idx p < length (p_storage p)) \<and>
     p_storageMap p = key ` set (p_storage p)"

lemmas ring_defs =
  ring_new_def ring_Add_def ring_Next_def ring_Contains_def ring_Size_def ring_inv_def

section \<open>Clients of a pool\<close>

text \<open>
  \<open>offer\<close> is the guard every \<^verbatim>\<open>ArgPool.Add...\<close> puts around a pool
  (\<^verbatim>\<open>if !pool.Contains(item) { pool.Add(item) }\<close>), over the two operations it calls;
  \<open>draws\<close> is \<open>n\<close> calls of \<^verbatim>\<open>Next\<close> in a row.
\<close>

definition offer :: "('a \<Rightarrow> 'p \<Rightarrow> bool) \<Rightarrow> ('a \<Rightarrow> 'p \<Rightarrow> 'p) \<Rightarrow> 'a \<Rightarrow> 'p \<Rightarrow> 'p" where
  "offer has add x p = (if \<not> has x p then add x p else p)"

fun draws :: "nat \<Rightarrow> ('p \<Rightarrow> ('b \<times> 'p) res) \<Rightarrow> 'p \<Rightarrow> ('b list \<times> 'p) res" where
  "draws 0 nxt p = Inr ([], p)"
| "draws (Suc n) nxt p =
     bindR (nxt p) (\<lambda>(x, p'). bindR (draws n nxt p') (\<lambda>(xs, p''). Inr (x # xs, p'')))"

section \<open>The interfaces\<close>

text \<open>
  A collection with a membership test by key. \<open>items\<close> is its content, \<open>inv\<close> what its
  operations keep; the provider promises that an addition adds one item and that the test answers
  for the keys of the content.
\<close>

locale keyed_collection =
  fixes key :: "'a \<Rightarrow> 'k"
    and items :: "'p \<Rightarrow> 'a list"
    and inv :: "'p \<Rightarrow> bool"
    and add :: "'a \<Rightarrow> 'p \<Rightarrow> 'p"
    and has :: "'a \<Rightarrow> 'p \<Rightarrow> bool"
    and size_of :: "'p \<Rightarrow> nat"
  assumes inv_add: "inv p \<Longrightarrow> inv (add x p)"
    and mset_items_add: "inv p \<Longrightarrow> mset (items (add x p)) = add_mset x (mset (items p))"
    and has_iff: "inv p \<Longrightarrow> has x p \<longleftrightarrow> key x \<in> key ` set (items p)"
    and size_of_eq: "size_of p = length (items p)"
begin

lemma set_items_add: "inv p \<Longrightarrow> set (items (add x p)) = insert x (set (items p))"
  using arg_cong [OF mset_items_add, of p set_mset x] by simp

lemma distinct_items_add:
  "inv p \<Longrightarrow>
   distinct (map key (items (add x p))) \<longleftrightarrow> key x \<notin> key ` set (items p) \<and> distinct (map key (items p))"
proof -
  assume "inv p"
  then have "mset (map key (items (add x p))) = mset (map key (x # items p))"
    by (simp add: mset_items_add)
  then have "distinct (map key (items (add x p))) \<longleftrightarrow> distinct (map key (x # items p))"
    by (rule mset_eq_imp_distinct_iff)
  then show ?thesis by simp
qed

lemma inv_offer: "inv p \<Longrightarrow> inv (offer has add x p)"
  by (simp add: offer_def inv_add)

lemma keys_offer:
  "inv p \<Longrightarrow> key ` set (items (offer has add x p)) = insert (key x) (key ` set (items p))"
  by (auto simp: offer_def has_iff set_items_add)

lemma distinct_offer:
  "inv p \<Longrightarrow> distinct (map key (items p)) \<Longrightarrow> distinct (map key (items (offer has add x p)))"
  by (simp add: offer_def has_iff distinct_items_add)

lemma has_offer: "inv p \<Longrightarrow> has y (offer has add x p) \<longleftrightarrow> key y = key x \<or> has y p"
  by (simp add: has_iff inv_offer keys_offer)

lemma offer_idem: "inv p \<Longrightarrow> offer has add x (offer has add x p) = offer has add x p"
  by (subst offer_def) (simp add: has_offer)

lemma items_offer_mono: "inv p \<Longrightarrow> set (items p) \<subseteq> set (items (offer has add x p))"
  by (auto simp: offer_def set_items_add)

lemma inv_offers: "inv p \<Longrightarrow> inv (fold (offer has add) xs p)"
  by (induction xs arbitrary: p) (simp_all add: inv_offer)

lemma keys_offers:
  "inv p \<Longrightarrow> key ` set (items (fold (offer has add) xs p)) = key ` (set (items p) \<union> set xs)"
  by (induction xs arbitrary: p) (simp_all add: inv_offer keys_offer image_Un)

lemma distinct_offers:
  "inv p \<Longrightarrow> distinct (map key (items p)) \<Longrightarrow> distinct (map key (items (fold (offer has add) xs p)))"
  by (induction xs arbitrary: p) (simp_all add: inv_offer distinct_offer)

text \<open>However often values are offered, the pool holds one per key: its size is the number of keys.\<close>

lemma size_offers:
  assumes "inv p" and "distinct (map key (items p))"
  shows "size_of (fold (offer has add) xs p) = card (key ` (set (items p) \<union> set xs))"
proof -
  let ?q = "fold (offer has add) xs p"
  have "size_of ?q = length (map key (items ?q))" by (simp add: size_of_eq)
  also have "\<dots> = card (set (map key (items ?q)))"
    using distinct_offers [OF assms] by (rule distinct_card [symmetric])
  finally show ?thesis using keys_offers [OF assms(1)] by simp
qed

end

text \<open>
  A reader that goes round a list: \<open>cursor\<close> is its place, \<open>ret\<close> how an item is handed out,
  \<open>off\<close> is 1 for a reader that moves before it reads and 0 for one that moves after.
\<close>

locale circular_reader =
  fixes items :: "'p \<Rightarrow> 'a list"
    and inv :: "'p \<Rightarrow> bool"
    and cursor :: "'p \<Rightarrow> nat"
    and nxt :: "'p \<Rightarrow> ('b \<times> 'p) res"
    and ret :: "'a \<Rightarrow> 'b"
    and zero :: 'b
    and off :: nat
  assumes cursor_bound: "inv p \<Longrightarrow> items p \<noteq> [] \<Longrightarrow> cursor p < length (items p)"
    and nxt_empty: "inv p \<Longrightarrow> items p = [] \<Longrightarrow> nxt p = Inr (zero, p)"
    and nxt_item: "inv p \<Longrightarrow> items p \<noteq> [] \<Longrightarrow>
      \<exists>p'. nxt p = Inr (ret (items p ! ((cursor p + off) mod length (items p))), p') \<and>
        inv p' \<and> items p' = items p \<and> cursor p' = (cursor p + 1) mod length (items p)"
begin

text \<open>The \<open>i\<close>-th of \<open>n\<close> calls returns the item \<open>i\<close> places on, modulo the length.\<close>

lemma draws_round_robin:
  assumes "inv p" and "items p \<noteq> []"
  shows "\<exists>p'. draws n nxt p =
      Inr (map (\<lambda>i. ret (items p ! ((cursor p + off + i) mod length (items p)))) [0..<n], p') \<and>
      inv p' \<and> items p' = items p \<and> cursor p' mod length (items p) = (cursor p + n) mod length (items p)"
  using assms
proof (induction n arbitrary: p)
  case 0
  then show ?case by simp
next
  case (Suc n)
  let ?L = "length (items p)"
  obtain q where q: "nxt p = Inr (ret (items p ! ((cursor p + off) mod ?L)), q)"
      "inv q" "items q = items p" "cursor q = (cursor p + 1) mod ?L"
    using nxt_item [OF Suc.prems] by blast
  have ne: "items q \<noteq> []" using q(3) Suc.prems(2) by simp
  obtain r where r: "draws n nxt q =
      Inr (map (\<lambda>i. ret (items q ! ((cursor q + off + i) mod length (items q)))) [0..<n], r)"
      "inv r" "items r = items q"
      "cursor r mod length (items q) = (cursor q + n) mod length (items q)"
    using Suc.IH [OF q(2) ne] by blast
  have "(cursor q + off + i) mod ?L = (cursor p + off + Suc i) mod ?L" for i
    unfolding q(4) by (metis add.assoc add.commute mod_add_left_eq plus_1_eq_Suc)
  then have "map (\<lambda>i. ret (items q ! ((cursor q + off + i) mod length (items q)))) [0..<n] =
      map (\<lambda>i. ret (items p ! ((cursor p + off + i) mod ?L))) [Suc 0..<Suc n]"
    by (simp add: q(3) map_Suc_upt [symmetric] del: map_Suc_upt upt_Suc)
  moreover have "cursor r mod ?L = (cursor p + Suc n) mod ?L"
    using r(4) by (simp add: q(3,4) mod_simps)
  ultimately show ?case
    using q r by (simp add: upt_conv_Cons del: upt_Suc)
qed

text \<open>A full round hands out every item once, in the order of the list, and comes back.\<close>

lemma draws_full_round:
  assumes "inv p" and "items p \<noteq> []"
  shows "\<exists>p'. draws (length (items p)) nxt p =
      Inr (map ret (rotate (cursor p + off) (items p)), p') \<and>
      inv p' \<and> items p' = items p \<and> cursor p' = cursor p"
proof -
  let ?L = "length (items p)"
  obtain r where r: "draws ?L nxt p =
      Inr (map (\<lambda>i. ret (items p ! ((cursor p + off + i) mod ?L))) [0..<?L], r)"
      "inv r" "items r = items p" "cursor r mod ?L = (cursor p + ?L) mod ?L"
    using draws_round_robin [OF assms] by blast
  have "map (\<lambda>i. ret (items p ! ((cursor p + off + i) mod ?L))) [0..<?L] =
      map ret (map (\<lambda>i. items p ! ((cursor p + off + i) mod ?L)) [0..<?L])" by simp
  also have "\<dots> = map ret (rotate (cursor p + off) (items p))"
    by (simp only: cyclic_read_rotate [OF assms(2)])
  finally show ?thesis
    using r cursor_bound [OF assms] cursor_bound [OF r(2)] assms(2) by auto
qed

text \<open>No item starves: each is handed out within one round.\<close>

lemma draws_reach:
  assumes "inv p" and "x \<in> set (items p)"
  shows "\<exists>n < length (items p). \<exists>xs p'. draws (Suc n) nxt p = Inr (xs @ [ret x], p')"
proof -
  let ?L = "length (items p)"
  obtain j where j: "j < ?L" "items p ! j = x" using assms(2) by (auto simp: in_set_conv_nth)
  then obtain n where n: "n < ?L" "(cursor p + off + n) mod ?L = j" using cyclic_hit by blast
  have "items p \<noteq> []" using assms(2) by auto
  from draws_round_robin [OF assms(1) this, of "Suc n"] show ?thesis
    using n j(2) by auto
qed

lemma nxt_total: "inv p \<Longrightarrow> \<exists>x p'. nxt p = Inr (x, p') \<and> inv p' \<and> items p' = items p"
  using nxt_empty nxt_item by (cases "items p = []") blast+

lemma nxt_in:
  assumes "inv p" "nxt p = Inr (y, p')"
  shows "inv p' \<and> items p' = items p \<and> (if items p = [] then y = zero else y \<in> ret ` set (items p))"
proof (cases "items p = []")
  case True
  then show ?thesis using nxt_empty [OF assms(1)] assms by simp
next
  case False
  then show ?thesis using nxt_item [OF assms(1) False] assms(2) by auto
qed

end

text \<open>A FIFO pool is both: an addition goes to the end and does not move the reader.\<close>

locale fifo_pool =
  keyed_collection key items inv add has size_of +
  circular_reader items inv cursor nxt ret zero off
  for key :: "'a \<Rightarrow> 'k" and items :: "'p \<Rightarrow> 'a list" and inv add has size_of
    and cursor and nxt :: "'p \<Rightarrow> ('b \<times> 'p) res" and ret zero off +
  assumes items_add: "inv p \<Longrightarrow> items (add x p) = items p @ [x]"
    and cursor_add: "inv p \<Longrightarrow> cursor (add x p) = cursor p"
begin

text \<open>A value offered to a pool that does not hold its key is handed out, after those before it.\<close>

lemma offered_is_drawn:
  assumes "inv p"
  shows "\<exists>y. key y = key x \<and> (\<exists>n \<le> length (items p). \<exists>xs p'.
      draws (Suc n) nxt (offer has add x p) = Inr (xs @ [ret y], p'))"
proof -
  let ?q = "offer has add x p"
  have q: "inv ?q" by (rule inv_offer [OF assms])
  have "key x \<in> key ` set (items ?q)" by (simp add: keys_offer [OF assms])
  then obtain y where y: "y \<in> set (items ?q)" "key y = key x" by auto
  have "length (items ?q) \<le> Suc (length (items p))"
    using assms by (simp add: offer_def items_add)
  moreover obtain n xs p' where "n < length (items ?q)"
      and "draws (Suc n) nxt ?q = Inr (xs @ [ret y], p')"
    using draws_reach [OF q y(1)] by blast
  ultimately have "n \<le> length (items p) \<and> draws (Suc n) nxt ?q = Inr (xs @ [ret y], p')" by simp
  with y(2) show ?thesis by blast
qed

end

section \<open>The ring is a FIFO pool\<close>

text \<open>For any key function and any way of handing items out.\<close>

interpretation ring: fifo_pool
  key p_storage "ring_inv key" "ring_Add key" "ring_Contains key" ring_Size p_idx
  "ring_Next zero ret" ret zero 0
  for key :: "'a \<Rightarrow> 'k" and ret :: "'a \<Rightarrow> 'b" and zero :: 'b
proof unfold_locales
  fix p :: "('a, 'k) ring" and x :: 'a
  show "ring_inv key p \<Longrightarrow> ring_inv key (ring_Add key x p)"
    by (auto simp: ring_defs split: if_splits)
  show "ring_inv key p \<Longrightarrow> ring_Contains key x p \<longleftrightarrow> key x \<in> key ` set (p_storage p)"
    by (simp add: ring_defs)
  show "ring_inv key p \<Longrightarrow> p_storage p \<noteq> [] \<Longrightarrow> p_idx p < length (p_storage p)"
    by (simp add: ring_defs)
  show "ring_inv key p \<Longrightarrow> p_storage p = [] \<Longrightarrow> ring_Next zero ret p = Inr (zero, p)"
    by (simp add: ring_defs)
  show "ring_inv key p \<Longrightarrow> p_storage p \<noteq> [] \<Longrightarrow>
      \<exists>p'. ring_Next zero ret p =
          Inr (ret (p_storage p ! ((p_idx p + 0) mod length (p_storage p))), p') \<and>
        ring_inv key p' \<and> p_storage p' = p_storage p \<and>
        p_idx p' = (p_idx p + 1) mod length (p_storage p)"
    by (auto simp: ring_defs)
qed (simp_all add: ring_Add_def ring_Size_def)

lemma ring_inv_new [inv_intros]: "ring_inv key ring_new"
  by (simp add: ring_inv_def ring_new_def)

end
