(* ===== verification/GoLib.thy ===== *)
theory GoLib
  imports Prelude
begin

text \<open>
  The parts of Go's standard library the sources use: decimal formatting of integers
  (\<^verbatim>\<open>fmt.Sprintf("%v", n)\<close>), hexadecimal encoding and decoding (\<^verbatim>\<open>%x\<close> of bytes and
  \<^verbatim>\<open>encoding/hex\<close>), \<^verbatim>\<open>strings.LastIndex\<close>, \<^verbatim>\<open>strings.TrimSuffix\<close>,
  \<^verbatim>\<open>filepath.Ext\<close>, slicing of strings, and \<^verbatim>\<open>math/big\<close> integers behind pointers. A Go
  string is a list of bytes, here a HOL \<open>string\<close> (whose characters are bytes).
\<close>

section \<open>Decimal numerals\<close>

definition dec_digit :: "nat \<Rightarrow> char" where
  "dec_digit n = char_of (48 + n)"

fun dec_nat :: "nat \<Rightarrow> string" where
  "dec_nat n = (if n < 10 then [dec_digit n] else dec_nat (n div 10) @ [dec_digit (n mod 10)])"

declare dec_nat.simps [simp del]

definition dec_int :: "int \<Rightarrow> string" where
  "dec_int i = (if i < 0 then CHR ''-'' # dec_nat (nat (- i)) else dec_nat (nat i))"

definition undec :: "string \<Rightarrow> nat" where
  "undec s = foldl (\<lambda>a c. 10 * a + (of_char c - 48)) 0 s"

lemma of_char_dec_digit: "n < 10 \<Longrightarrow> (of_char (dec_digit n) :: nat) = 48 + n"
  by (simp add: dec_digit_def)

lemma undec_dec_nat: "undec (dec_nat n) = n"
proof (induction n rule: dec_nat.induct)
  case (1 n)
  show ?case
  proof (cases "n < 10")
    case True
    then show ?thesis by (subst dec_nat.simps) (simp add: undec_def of_char_dec_digit)
  next
    case False
    with "1.IH" have "undec (dec_nat (n div 10)) = n div 10" by simp
    with False show ?thesis
      by (subst dec_nat.simps) (simp add: undec_def of_char_dec_digit)
  qed
qed

lemma dec_nat_inject [simp]: "dec_nat m = dec_nat n \<longleftrightarrow> m = n"
  using undec_dec_nat by metis

lemma dec_nat_digits: "c \<in> set (dec_nat n) \<Longrightarrow> \<exists>d < 10. c = dec_digit d"
proof (induction n rule: dec_nat.induct)
  case (1 n)
  show ?case
  proof (cases "n < 10")
    case True
    with "1.prems" show ?thesis by (subst (asm) dec_nat.simps) auto
  next
    case False
    with "1.prems" have "c \<in> set (dec_nat (n div 10)) \<or> c = dec_digit (n mod 10)"
      by (subst (asm) dec_nat.simps) auto
    then show ?thesis
    proof
      assume "c \<in> set (dec_nat (n div 10))"
      then show ?thesis by (rule "1.IH" [OF False])
    next
      assume "c = dec_digit (n mod 10)"
      moreover have "n mod 10 < 10" by simp
      ultimately show ?thesis by blast
    qed
  qed
qed

lemma minus_notin_dec_nat: "CHR ''-'' \<notin> set (dec_nat n)"
proof
  assume "CHR ''-'' \<in> set (dec_nat n)"
  then obtain d where "d < 10" "CHR ''-'' = dec_digit d" using dec_nat_digits by blast
  then have "(of_char (CHR ''-'') :: nat) = 48 + d" using of_char_dec_digit by metis
  then show False by simp
qed

text \<open>Two integers with the same decimal form are equal.\<close>

lemma dec_int_inject [simp]: "dec_int i = dec_int j \<longleftrightarrow> i = j"
proof
  have no: "CHR ''-'' # xs \<noteq> dec_nat n" for xs n
    using minus_notin_dec_nat [of n] by (metis list.set_intros(1))
  assume "dec_int i = dec_int j"
  then show "i = j"
    using no no [symmetric] by (auto simp: dec_int_def split: if_splits)
qed simp

section \<open>Hexadecimal\<close>

type_synonym bytes = "8 word list"

definition hex_digit :: "nat \<Rightarrow> char" where
  "hex_digit n = char_of (if n < 10 then 48 + n else 87 + n)"

definition hex_encode :: "bytes \<Rightarrow> string" where
  "hex_encode bs = concat (map (\<lambda>b. [hex_digit (unat b div 16), hex_digit (unat b mod 16)]) bs)"

definition from_hex_char :: "char \<Rightarrow> nat option" where
  "from_hex_char c =
     (let n = of_char c in
      if 48 \<le> n \<and> n \<le> 57 then Some (n - 48)
      else if 97 \<le> n \<and> n \<le> 102 then Some (n - 87)
      else if 65 \<le> n \<and> n \<le> 70 then Some (n - 55)
      else None)"

text \<open>
  \<^verbatim>\<open>hex.DecodeString\<close> returns the bytes decoded before an error along with the error: an
  invalid character, or (after the pairs) a character left over.
\<close>

datatype hex_error = InvalidByteError char | ErrLength

fun hex_decode :: "string \<Rightarrow> bytes \<times> hex_error option" where
  "hex_decode [] = ([], None)"
| "hex_decode [c] = ([], Some (if from_hex_char c = None then InvalidByteError c else ErrLength))"
| "hex_decode (c # d # s) =
     (case from_hex_char c of
        None \<Rightarrow> ([], Some (InvalidByteError c))
      | Some h \<Rightarrow>
          (case from_hex_char d of
             None \<Rightarrow> ([], Some (InvalidByteError d))
           | Some l \<Rightarrow>
               (let (bs, e) = hex_decode s in (word_of_nat (16 * h + l) # bs, e))))"

lemma from_hex_char_digit: "n < 16 \<Longrightarrow> from_hex_char (hex_digit n) = Some n"
  by (auto simp: from_hex_char_def hex_digit_def Let_def)

lemma hex_encode_Cons:
  "hex_encode (b # bs) = hex_digit (unat b div 16) # hex_digit (unat b mod 16) # hex_encode bs"
  by (simp add: hex_encode_def)

lemma hex_encode_simps [simp]:
  "hex_encode [] = []" "hex_encode (xs @ ys) = hex_encode xs @ hex_encode ys"
  by (simp_all add: hex_encode_def)

lemma length_hex_encode [simp]: "length (hex_encode bs) = 2 * length bs"
  by (induction bs) (simp_all add: hex_encode_Cons)

lemma unat_byte_div16: "unat (b :: 8 word) div 16 < 16"
proof -
  have "unat b < 2 ^ LENGTH(8)" by (rule unsigned_less)
  then show ?thesis by simp
qed

text \<open>Decoding an encoding gives back the bytes, and goes on with what follows.\<close>

lemma hex_decode_encode_append:
  "hex_decode (hex_encode bs @ s) = (let (cs, e) = hex_decode s in (bs @ cs, e))"
proof (induction bs)
  case Nil
  then show ?case by (simp split: prod.splits)
next
  case (Cons b bs)
  have "16 * (unat b div 16) + unat b mod 16 = unat b" by simp
  then show ?case
    by (simp add: hex_encode_Cons from_hex_char_digit unat_byte_div16 Cons.IH split: prod.splits)
qed

lemma hex_decode_encode: "hex_decode (hex_encode bs) = (bs, None)"
  using hex_decode_encode_append [of bs "[]"] by simp

lemma hex_encode_inject [simp]: "hex_encode xs = hex_encode ys \<longleftrightarrow> xs = ys"
  using hex_decode_encode by (metis prod.inject)

lemma hex_encode_char: "c \<in> set (hex_encode bs) \<Longrightarrow> from_hex_char c \<noteq> None"
  by (induction bs) (auto simp: hex_encode_Cons from_hex_char_digit unat_byte_div16)

section \<open>Strings\<close>

text \<open>
  \<^verbatim>\<open>s[lo:hi]\<close> panics unless \<open>0 \<le> lo \<le> hi \<le> len(s)\<close>. Indices are integers, since the
  sources compute them by subtraction.
\<close>

definition slice :: "int \<Rightarrow> int \<Rightarrow> 'a list \<Rightarrow> 'a list res" where
  "slice lo hi s =
     (if 0 \<le> lo \<and> lo \<le> hi \<and> hi \<le> int (length s)
      then Inr (take (nat hi - nat lo) (drop (nat lo) s)) else Inl SliceBounds)"

text \<open>\<^verbatim>\<open>xs[i]\<close>, which panics out of range.\<close>

definition index :: "'a list \<Rightarrow> int \<Rightarrow> 'a res" where
  "index xs i = (if 0 \<le> i \<and> i < int (length xs) then Inr (xs ! nat i) else Inl IndexOutOfRange)"

definition occurs_at :: "'a list \<Rightarrow> 'a list \<Rightarrow> nat \<Rightarrow> bool" where
  "occurs_at s sep i \<longleftrightarrow> i + length sep \<le> length s \<and> take (length sep) (drop i s) = sep"

text \<open>\<^verbatim>\<open>strings.LastIndex(s, sep)\<close>: the last position of \<open>sep\<close> in \<open>s\<close>, or \<open>-1\<close>.\<close>

definition lastIndex :: "string \<Rightarrow> string \<Rightarrow> int" where
  "lastIndex s sep =
     (case filter (occurs_at s sep) [0..<Suc (length s)] of
        [] \<Rightarrow> -1
      | is \<Rightarrow> int (last is))"

lemma lastIndex_none: "lastIndex s sep = -1 \<longleftrightarrow> (\<forall>i. \<not> occurs_at s sep i)"
proof -
  have "occurs_at s sep i \<Longrightarrow> i \<in> set [0..<Suc (length s)]" for i
    by (auto simp: occurs_at_def simp del: upt_Suc)
  moreover have "(case filter (occurs_at s sep) [0..<Suc (length s)] of [] \<Rightarrow> -1 | is \<Rightarrow> int (last is)) = -1
      \<longleftrightarrow> filter (occurs_at s sep) [0..<Suc (length s)] = []"
    by (auto split: list.splits simp del: upt_Suc)
  ultimately show ?thesis
    unfolding lastIndex_def by (auto simp: filter_empty_conv simp del: upt_Suc)
qed

lemma last_filter_upt:
  assumes "P i" "i < n" and "\<And>j. i < j \<Longrightarrow> \<not> P j"
  shows "filter P [0..<n] \<noteq> [] \<and> last (filter P [0..<n]) = i"
proof -
  have "[0..<n] = [0..<i] @ i # [Suc i..<n]"
    using assms(2) by (metis upt_add_eq_append upt_conv_Cons le0 le_add_diff_inverse less_imp_le)
  moreover have "filter P [Suc i..<n] = []"
    using assms(3) by (auto simp: filter_empty_conv)
  ultimately show ?thesis using assms(1) by simp
qed

lemma lastIndex_last:
  assumes "occurs_at s sep i" and "\<And>j. i < j \<Longrightarrow> \<not> occurs_at s sep j"
  shows "lastIndex s sep = int i"
proof -
  have "i < Suc (length s)" using assms(1) by (simp add: occurs_at_def)
  from last_filter_upt [where P = "occurs_at s sep", OF assms(1) this assms(2)]
  show ?thesis by (auto simp: lastIndex_def split: list.splits simp del: upt_Suc)
qed

lemma lastIndex_cases:
  obtains "lastIndex s sep = -1" and "\<And>i. \<not> occurs_at s sep i"
  | i where "lastIndex s sep = int i" and "occurs_at s sep i" and "\<And>j. i < j \<Longrightarrow> \<not> occurs_at s sep j"
proof (cases "\<exists>i. occurs_at s sep i")
  case True
  have bound: "\<And>i. occurs_at s sep i \<Longrightarrow> i \<le> length s" by (simp add: occurs_at_def)
  define i where "i = (GREATEST i. occurs_at s sep i)"
  have i: "occurs_at s sep i"
    unfolding i_def using True bound by (metis GreatestI_nat)
  have above: "\<not> occurs_at s sep j" if "i < j" for j
    using that bound Greatest_le_nat [of "occurs_at s sep" j "length s"] unfolding i_def by auto
  show ?thesis by (rule that(2) [OF lastIndex_last [OF i above] i above])
next
  case False
  then show ?thesis using that(1) by (simp add: lastIndex_none)
qed

text \<open>\<^verbatim>\<open>strings.TrimSuffix\<close>, and \<^verbatim>\<open>filepath.Ext\<close>: the suffix from the last dot after the last slash.\<close>

definition trimSuffix :: "string \<Rightarrow> string \<Rightarrow> string" where
  "trimSuffix s suffix =
     (if length suffix \<le> length s \<and> drop (length s - length suffix) s = suffix
      then take (length s - length suffix) s else s)"

definition filepath_Ext :: "string \<Rightarrow> string" where
  "filepath_Ext path =
     (let base = rev (takeWhile (\<lambda>c. c \<noteq> CHR ''/'') (rev path)) in
      if CHR ''.'' \<in> set base
      then CHR ''.'' # rev (takeWhile (\<lambda>c. c \<noteq> CHR ''.'') (rev base)) else [])"

text \<open>\<^verbatim>\<open>strings.Index(s, p) == 0\<close>: \<open>s\<close> starts with \<open>p\<close>.\<close>

definition index_is_0 :: "string \<Rightarrow> string \<Rightarrow> bool" where
  "index_is_0 s p \<longleftrightarrow> take (length p) s = p"

section \<open>Big integers behind pointers\<close>

text \<open>
  The sources keep \<^verbatim>\<open>*big.Int\<close> values in pools and hints and update one in place
  (\<^verbatim>\<open>hint.Amount.Rsh(hint.Amount, 1)\<close>), so two holders of a pointer see each other's updates.
  The cells are a list that only grows; the pointer \<open>Suc i\<close> is its \<open>i\<close>-th cell, 0 is
  \<^verbatim>\<open>nil\<close>.
\<close>

type_synonym bigptr = nat
type_synonym bigs = "int list"

definition big_new :: "int \<Rightarrow> bigs \<Rightarrow> bigptr \<times> bigs" where
  "big_new v h = (Suc (length h), h @ [v])"

fun big_get :: "bigs \<Rightarrow> bigptr \<Rightarrow> int res" where
  "big_get h 0 = Inl NilDeref"
| "big_get h (Suc i) = (if i < length h then Inr (h ! i) else Inl NilDeref)"

fun big_set :: "bigptr \<Rightarrow> int \<Rightarrow> bigs \<Rightarrow> bigs res" where
  "big_set 0 v h = Inl NilDeref"
| "big_set (Suc i) v h = (if i < length h then Inr (h[i := v]) else Inl NilDeref)"

text \<open>\<^verbatim>\<open>%v\<close> of a \<^verbatim>\<open>*big.Int\<close>: its value in decimal at the time of the call.\<close>

definition big_sprint :: "bigs \<Rightarrow> bigptr \<Rightarrow> string" where
  "big_sprint h p = (case big_get h p of Inl _ \<Rightarrow> ''<nil>'' | Inr v \<Rightarrow> dec_int v)"

lemma big_get_new [simp]: "big_get (snd (big_new v h)) (fst (big_new v h)) = Inr v"
  by (simp add: big_new_def)

lemma big_get_old: "big_get h p = Inr v \<Longrightarrow> big_get (snd (big_new w h)) p = Inr v"
  by (cases p) (auto simp: big_new_def nth_append split: if_splits)

lemma big_get_set:
  "big_set p v h = Inr h' \<Longrightarrow> big_get h' q = (if q = p then Inr v else big_get h q)"
  by (cases p; cases q) (auto split: if_splits)

lemma big_sprint_inject:
  "big_get h p = Inr v \<Longrightarrow> big_get h' q = Inr w \<Longrightarrow> big_sprint h p = big_sprint h' q \<longleftrightarrow> v = w"
  by (simp add: big_sprint_def)

end
