(* ===== verification/TypedPools.thy ===== *)
theory TypedPools
  imports Pools GoLib
begin

text \<open>
  The pools of package \<^verbatim>\<open>argpool\<close>, file by file. The sources repeat the same code for every
  element type; here each file's operations are the ring operations of \<^verbatim>\<open>Pools\<close> at that type,
  with the element itself as key and the zero value Go returns from an empty pool. The generic
  pool keeps interface values and keys them by their \<^verbatim>\<open>fmt.Sprintf("%v", item)\<close>.
  \<^verbatim>\<open>len\<close> and the index are natural numbers: the length of a Go slice fits its
  \<^verbatim>\<open>int\<close>.
\<close>

section \<open>int8pool.go\<close>

type_synonym int8pool = "(8 word, 8 word) ring"

abbreviation int8pool_Add :: "8 word \<Rightarrow> int8pool \<Rightarrow> int8pool" where
  "int8pool_Add \<equiv> ring_Add (\<lambda>x. x)"

abbreviation int8pool_Next :: "int8pool \<Rightarrow> (8 word \<times> int8pool) res" where
  "int8pool_Next \<equiv> ring_Next 0 (\<lambda>x. x)"

abbreviation int8pool_Contains :: "8 word \<Rightarrow> int8pool \<Rightarrow> bool" where
  "int8pool_Contains \<equiv> ring_Contains (\<lambda>x. x)"

abbreviation int8pool_Size :: "int8pool \<Rightarrow> nat" where
  "int8pool_Size \<equiv> ring_Size"

abbreviation GetInt8Pool :: int8pool where
  "GetInt8Pool \<equiv> ring_new"

section \<open>int16pool.go\<close>

type_synonym int16pool = "(16 word, 16 word) ring"

abbreviation int16pool_Add :: "16 word \<Rightarrow> int16pool \<Rightarrow> int16pool" where
  "int16pool_Add \<equiv> ring_Add (\<lambda>x. x)"

abbreviation int16pool_Next :: "int16pool \<Rightarrow> (16 word \<times> int16pool) res" where
  "int16pool_Next \<equiv> ring_Next 0 (\<lambda>x. x)"

abbreviation int16pool_Contains :: "16 word \<Rightarrow> int16pool \<Rightarrow> bool" where
  "int16pool_Contains \<equiv> ring_Contains (\<lambda>x. x)"

abbreviation int16pool_Size :: "int16pool \<Rightarrow> nat" where
  "int16pool_Size \<equiv> ring_Size"

abbreviation GetInt16Pool :: int16pool where
  "GetInt16Pool \<equiv> ring_new"

section \<open>int32pool.go\<close>

type_synonym int32pool = "(32 word, 32 word) ring"

abbreviation int32pool_Add :: "32 word \<Rightarrow> int32pool \<Rightarrow> int32pool" where
  "int32pool_Add \<equiv> ring_Add (\<lambda>x. x)"

abbreviation int32pool_Next :: "int32pool \<Rightarrow> (32 word \<times> int32pool) res" where
  "int32pool_Next \<equiv> ring_Next 0 (\<lambda>x. x)"

abbreviation int32pool_Contains :: "32 word \<Rightarrow> int32pool \<Rightarrow> bool" where
  "int32pool_Contains \<equiv> ring_Contains (\<lambda>x. x)"

abbreviation int32pool_Size :: "int32pool \<Rightarrow> nat" where
  "int32pool_Size \<equiv> ring_Size"

abbreviation GetInt32Pool :: int32pool where
  "GetInt32Pool \<equiv> ring_new"

section \<open>int64pool.go\<close>

type_synonym int64pool = "(64 word, 64 word) ring"

abbreviation int64pool_Add :: "64 word \<Rightarrow> int64pool \<Rightarrow> int64pool" where
  "int64pool_Add \<equiv> ring_Add (\<lambda>x. x)"

abbreviation int64pool_Next :: "int64pool \<Rightarrow> (64 word \<times> int64pool) res" where
  "int64pool_Next \<equiv> ring_Next 0 (\<lambda>x. x)"

abbreviation int64pool_Contains :: "64 word \<Rightarrow> int64pool \<Rightarrow> bool" where
  "int64pool_Contains \<equiv> ring_Contains (\<lambda>x. x)"

abbreviation int64pool_Size :: "int64pool \<Rightarrow> nat" where
  "int64pool_Size \<equiv> ring_Size"

abbreviation GetInt64Pool :: int64pool where
  "GetInt64Pool \<equiv> ring_new"

section \<open>bytes32pool.go\<close>

text \<open>A \<^verbatim>\<open>[32]byte\<close> is the list of its 32 bytes; its zero value is 32 zero bytes.\<close>

type_synonym bytes32 = bytes
type_synonym bytes32pool = "(bytes32, bytes32) ring"

abbreviation bytes32pool_Add :: "bytes32 \<Rightarrow> bytes32pool \<Rightarrow> bytes32pool" where
  "bytes32pool_Add \<equiv> ring_Add (\<lambda>x. x)"

abbreviation bytes32pool_Next :: "bytes32pool \<Rightarrow> (bytes32 \<times> bytes32pool) res" where
  "bytes32pool_Next \<equiv> ring_Next (replicate 32 0) (\<lambda>x. x)"

abbreviation bytes32pool_Contains :: "bytes32 \<Rightarrow> bytes32pool \<Rightarrow> bool" where
  "bytes32pool_Contains \<equiv> ring_Contains (\<lambda>x. x)"

abbreviation bytes32pool_Size :: "bytes32pool \<Rightarrow> nat" where
  "bytes32pool_Size \<equiv> ring_Size"

abbreviation GetBytes32Pool :: bytes32pool where
  "GetBytes32Pool \<equiv> ring_new"

section \<open>stringpool.go\<close>

type_synonym stringpool = "(string, string) ring"

abbreviation stringpool_Add :: "string \<Rightarrow> stringpool \<Rightarrow> stringpool" where
  "stringpool_Add \<equiv> ring_Add (\<lambda>x. x)"

abbreviation stringpool_Next :: "stringpool \<Rightarrow> (string \<times> stringpool) res" where
  "stringpool_Next \<equiv> ring_Next [] (\<lambda>x. x)"

abbreviation stringpool_Contains :: "string \<Rightarrow> stringpool \<Rightarrow> bool" where
  "stringpool_Contains \<equiv> ring_Contains (\<lambda>x. x)"

abbreviation stringpool_Size :: "stringpool \<Rightarrow> nat" where
  "stringpool_Size \<equiv> ring_Size"

abbreviation GetStringPool :: stringpool where
  "GetStringPool \<equiv> ring_new"

section \<open>pool.go\<close>

text \<open>
  \<^verbatim>\<open>common.Address\<close> is an array of 20 bytes, here a 160-bit word. The interface values the
  program stores in generic pools are addresses and pointers to big integers. How
  \<^verbatim>\<open>fmt.Sprintf\<close> prints an address is go-ethereum's (\<^verbatim>\<open>Address.Format\<close>), so it is the
  parameter \<open>fa\<close>; a big integer prints in decimal.
\<close>

type_synonym address = "160 word"

datatype iface = is_IAddress: IAddress address | is_IBigInt: IBigInt bigptr

fun iface_sprint :: "(address \<Rightarrow> string) \<Rightarrow> bigs \<Rightarrow> iface \<Rightarrow> string" where
  "iface_sprint fa h (IAddress a) = fa a"
| "iface_sprint fa h (IBigInt p) = big_sprint h p"

type_synonym pool = "(iface, string) ring"

text \<open>The first argument is \<^verbatim>\<open>fmt.Sprintf("%v", _)\<close> in the current state.\<close>

abbreviation pool_Add :: "(iface \<Rightarrow> string) \<Rightarrow> iface \<Rightarrow> pool \<Rightarrow> pool" where
  "pool_Add \<equiv> ring_Add"

text \<open>An empty pool returns the nil interface, \<open>None\<close>.\<close>

abbreviation pool_Next :: "pool \<Rightarrow> (iface option \<times> pool) res" where
  "pool_Next \<equiv> ring_Next None Some"

abbreviation pool_Contains :: "(iface \<Rightarrow> string) \<Rightarrow> iface \<Rightarrow> pool \<Rightarrow> bool" where
  "pool_Contains \<equiv> ring_Contains"

abbreviation pool_Size :: "pool \<Rightarrow> nat" where
  "pool_Size \<equiv> ring_Size"

text \<open>
  The package variable \<^verbatim>\<open>pools\<close> maps an id to a pointer to its pool, and is the only place
  such pointers come from: the id serves as the pointer, and the map as the store of the pools.
\<close>

type_synonym poolmap = "string \<rightharpoonup> pool"

definition GetPool :: "string \<Rightarrow> poolmap \<Rightarrow> string \<times> poolmap" where
  "GetPool pid ps =
     (if ps pid = None
      then (pid, ps(pid \<mapsto> \<lparr>p_idx = 0, p_storage = [], p_storageMap = {}\<rparr>))
      else (pid, ps))"

definition pools_init :: poolmap where
  "pools_init = Map.empty"

lemma GetPool_defined: "snd (GetPool pid ps) pid \<noteq> None"
  by (simp add: GetPool_def)

lemma GetPool_same: "ps pid = Some p \<Longrightarrow> GetPool pid ps = (pid, ps)"
  by (simp add: GetPool_def)

lemma GetPool_new: "ps pid = None \<Longrightarrow> GetPool pid ps = (pid, ps(pid \<mapsto> ring_new))"
  by (simp add: GetPool_def ring_new_def)

end
