(* ===== verification/Timestamps.thy ===== *)
theory Timestamps
  imports TypedPools
begin

text \<open>
  \<^verbatim>\<open>argpool/timestamppool.go\<close>: the pool of block timestamps. It is kept sorted, its reader moves
  before it reads, and \<^verbatim>\<open>AllPassed\<close> tells that the reader is at the last timestamp.
\<close>

section \<open>The pool\<close>

text \<open>
  The elements are \<^verbatim>\<open>*big.Int\<close> made from \<^verbatim>\<open>int64(item)\<close>; nothing updates them after
  that, so they are their values. \<^verbatim>\<open>Uint64\<close> of a big integer is the low 64 bits of its
  absolute value.
\<close>

type_synonym timestamppool = "(int, 64 word) ring"

definition timestamppool_Add :: "64 word \<Rightarrow> timestamppool \<Rightarrow> timestamppool" where
  "timestamppool_Add item p =
     p\<lparr>p_storage := p_storage p @ [sint item], p_storageMap := insert item (p_storageMap p)\<rparr>"

definition timestamppool_Next :: "timestamppool \<Rightarrow> (int option \<times> timestamppool) res" where
  "timestamppool_Next p =
     (if length (p_storage p) = 0 then Inr (None, p)
      else
        let i = (p_idx p + 1) mod length (p_storage p) in
        Inr (Some (p_storage p ! i), p\<lparr>p_idx := i\<rparr>))"

definition timestamppool_GetCurrent :: "timestamppool \<Rightarrow> int option res" where
  "timestamppool_GetCurrent p =
     (if length (p_storage p) = 0 then Inr None
      else if p_idx p < length (p_storage p) then Inr (Some (p_storage p ! p_idx p))
      else Inl IndexOutOfRange)"

definition timestamppool_AllPassed :: "timestamppool \<Rightarrow> bool" where
  "timestamppool_AllPassed p \<longleftrightarrow>
     length (p_storage p) > 0 \<and> p_idx p + 1 = length (p_storage p)"

definition timestamppool_Contains :: "64 word \<Rightarrow> timestamppool \<Rightarrow> bool" where
  "timestamppool_Contains val p \<longleftrightarrow> val \<in> p_storageMap p"

definition big_Uint64 :: "int \<Rightarrow> nat" where
  "big_Uint64 v = nat \<bar>v\<bar> mod 2 ^ 64"

text \<open>
  \<^verbatim>\<open>sort.Slice\<close> by \<^verbatim>\<open>Uint64\<close>. The order of elements with the same \<^verbatim>\<open>Uint64\<close> is not
  specified by \<^verbatim>\<open>sort.Slice\<close>; only an element and its negation share one, so the order is
  determined for timestamps below \<open>2 ^ 63\<close>.
\<close>

definition timestamppool_Sort :: "timestamppool \<Rightarrow> timestamppool" where
  "timestamppool_Sort p = p\<lparr>p_storage := sort_key big_Uint64 (p_storage p)\<rparr>"

definition timestamppool_Size :: "timestamppool \<Rightarrow> nat" where
  "timestamppool_Size p = length (p_storage p)"

definition GetTimestampPool :: timestamppool where
  "GetTimestampPool = \<lparr>p_idx = 0, p_storage = [], p_storageMap = {}\<rparr>"

lemmas timestamppool_defs =
  timestamppool_Add_def timestamppool_Next_def timestamppool_GetCurrent_def
  timestamppool_AllPassed_def timestamppool_Contains_def timestamppool_Sort_def
  timestamppool_Size_def GetTimestampPool_def

section \<open>Its invariant and interfaces\<close>

text \<open>The timestamps as the \<^verbatim>\<open>uint64\<close> values they were added as.\<close>

definition ts_items :: "timestamppool \<Rightarrow> 64 word list" where
  "ts_items p = map word_of_int (p_storage p)"

definition ts_inv :: "timestamppool \<Rightarrow> bool" where
  "ts_inv p \<longleftrightarrow>
     (if p_storage p = [] then p_idx p = 0 else p_idx p < length (p_storage p)) \<and>
     (\<forall>v \<in> set (p_storage p). sint (word_of_int v :: 64 word) = v) \<and>
     p_storageMap p = set (ts_items p) \<and>
     sorted (map big_Uint64 (p_storage p))"

text \<open>The body of \<^verbatim>\<open>ArgPool.AddTimestamp\<close>'s guard: add, then sort.\<close>

abbreviation ts_insert :: "64 word \<Rightarrow> timestamppool \<Rightarrow> timestamppool" where
  "ts_insert item p \<equiv> timestamppool_Sort (timestamppool_Add item p)"

lemma ts_inv_new [inv_intros]: "ts_inv GetTimestampPool"
  by (simp add: ts_inv_def GetTimestampPool_def ts_items_def)

lemma sort_key_empty [simp]: "sort_key f xs = [] \<longleftrightarrow> xs = []"
  by (metis length_0_conv length_sort)

lemma length_ts_items [simp]: "length (ts_items p) = length (p_storage p)"
  by (simp add: ts_items_def)

lemma ts_items_empty [simp]: "ts_items p = [] \<longleftrightarrow> p_storage p = []"
  by (simp add: ts_items_def)

lemma ts_storage_items: "ts_inv p \<Longrightarrow> p_storage p = map sint (ts_items p)"
  by (auto simp: ts_inv_def ts_items_def intro!: nth_equalityI)

interpretation ts: keyed_collection "\<lambda>x. x" ts_items ts_inv ts_insert
  timestamppool_Contains timestamppool_Size
proof unfold_locales
  fix p :: timestamppool and x :: "64 word"
  assume inv: "ts_inv p"
  show "mset (ts_items (ts_insert x p)) = add_mset x (mset (ts_items p))"
    by (simp add: ts_items_def timestamppool_defs)
  show "ts_inv (ts_insert x p)"
    using inv by (auto simp: ts_inv_def ts_items_def timestamppool_defs split: if_splits)
  show "timestamppool_Contains x p \<longleftrightarrow> x \<in> (\<lambda>x. x) ` set (ts_items p)"
    using inv by (simp add: ts_inv_def timestamppool_defs)
qed (simp add: timestamppool_Size_def ts_items_def)

interpretation ts: circular_reader ts_items ts_inv p_idx timestamppool_Next
  "\<lambda>w. Some (sint w)" None 1
proof unfold_locales
  fix p :: timestamppool
  assume inv: "ts_inv p" and ne: "ts_items p \<noteq> []"
  show "p_idx p < length (ts_items p)" using inv ne by (simp add: ts_inv_def split: if_splits)
  let ?i = "(p_idx p + 1) mod length (ts_items p)"
  let ?q = "p\<lparr>p_idx := ?i\<rparr>"
  have i: "?i < length (p_storage p)" using ne by simp
  have "ts_inv ?q" using inv i ne by (simp add: ts_inv_def ts_items_def)
  moreover have "sint (ts_items p ! ?i) = p_storage p ! ?i"
    using inv i by (simp add: ts_inv_def ts_items_def)
  ultimately show "\<exists>p'. timestamppool_Next p = Inr (Some (sint (ts_items p ! ?i)), p') \<and>
      ts_inv p' \<and> ts_items p' = ts_items p \<and> p_idx p' = ?i"
    using ne by (simp add: timestamppool_Next_def Let_def ts_items_def)
qed (simp add: timestamppool_Next_def)

section \<open>Order and rounds\<close>

text \<open>Below \<open>2 ^ 63\<close> a timestamp is its own sort key.\<close>

lemma sint_small:
  assumes "uint (w :: 64 word) < 2 ^ 63"
  shows "sint w = uint w"
proof -
  have "0 \<le> uint w" by simp
  then have "- (2 ^ 63) \<le> uint w" by (rule order_trans [rotated]) simp
  with assms show ?thesis by (simp add: sint_uint signed_take_bit_int_eq_self_iff)
qed

lemma big_Uint64_small:
  assumes "uint (w :: 64 word) < 2 ^ 63"
  shows "big_Uint64 (sint w) = unat w"
proof -
  have "unat w < 2 ^ LENGTH(64)" by (rule unsigned_less)
  then show ?thesis using assms by (simp add: sint_small big_Uint64_def)
qed

lemma sorted_map_unat: "sorted (map unat (xs :: 64 word list)) \<longleftrightarrow> sorted xs"
  by (simp add: sorted_map word_le_nat_alt [abs_def])

lemma ts_sorted:
  assumes "ts_inv p" and "\<forall>w \<in> set (ts_items p). uint w < 2 ^ 63"
  shows "sorted (ts_items p)"
proof -
  have "map big_Uint64 (p_storage p) = map unat (ts_items p)"
    using assms by (simp add: ts_storage_items big_Uint64_small)
  then show ?thesis using assms(1) by (simp add: ts_inv_def sorted_map_unat [symmetric])
qed

text \<open>
  Whatever the order in which timestamps are offered, the pool is the ascending list of their set.
\<close>

lemma ts_offers_sorted:
  assumes "ts_inv p" "distinct (ts_items p)" and "\<forall>w \<in> set (ts_items p) \<union> set xs. uint w < 2 ^ 63"
  shows "ts_items (fold (offer timestamppool_Contains ts_insert) xs p) =
    sorted_list_of_set (set (ts_items p) \<union> set xs)"
proof -
  let ?q = "fold (offer timestamppool_Contains ts_insert) xs p"
  have set: "set (ts_items ?q) = set (ts_items p) \<union> set xs"
    using ts.keys_offers [OF assms(1), of xs] by simp
  have "sorted (ts_items ?q)"
    by (rule ts_sorted [OF ts.inv_offers [OF assms(1)]]) (use assms(3) set in simp)
  moreover have "distinct (ts_items ?q)"
    using ts.distinct_offers [OF assms(1), of xs] assms(2) by simp
  ultimately show ?thesis
    using set by (metis sorted_list_of_set.idem_if_sorted_distinct)
qed

end
