(* ===== verification/ArgPools.thy ===== *)
theory ArgPools
  imports Timestamps
begin

text \<open>
  \<^verbatim>\<open>argpool/argpool.go\<close>: the argument pool, one pool per type of argument, with the guarded
  additions, the readers, the timestamps' reader and the package's singleton.
\<close>

section \<open>The structure\<close>

text \<open>
  The address and big-integer pools are shared with the package map \<^verbatim>\<open>pools\<close>, so their fields
  hold pointers (pool ids); the other pools are owned. \<open>argst\<close> adds what the methods reach
  through pointers: the map's pools and the cells of the big integers.
\<close>

record ArgPool =
  Int8Pool :: int8pool
  Int16Pool :: int16pool
  Int32Pool :: int32pool
  Int64Pool :: int64pool
  Bytes32Pool :: bytes32pool
  AddressPool :: string
  BigIntPool :: string
  StringPool :: stringpool
  TimestampPool :: timestamppool

record argst = ArgPool +
  pools :: poolmap
  bigs :: bigs

definition pool_at :: "string \<Rightarrow> 'z argst_scheme \<Rightarrow> pool res" where
  "pool_at p A = (case pools A p of None \<Rightarrow> Inl NilDeref | Some q \<Rightarrow> Inr q)"

definition set_pool :: "string \<Rightarrow> pool \<Rightarrow> 'z argst_scheme \<Rightarrow> 'z argst_scheme" where
  "set_pool p q A = A\<lparr>pools := (pools A)(p \<mapsto> q)\<rparr>"

section \<open>Additions\<close>

definition ArgPool_AddInt64 :: "64 word \<Rightarrow> 'z ArgPool_scheme \<Rightarrow> 'z ArgPool_scheme" where
  "ArgPool_AddInt64 item A =
     (if \<not> int64pool_Contains item (Int64Pool A)
      then A\<lparr>Int64Pool := int64pool_Add item (Int64Pool A)\<rparr> else A)"

definition ArgPool_AddInt32 :: "32 word \<Rightarrow> 'z ArgPool_scheme \<Rightarrow> 'z ArgPool_scheme" where
  "ArgPool_AddInt32 item A =
     (if \<not> int32pool_Contains item (Int32Pool A)
      then A\<lparr>Int32Pool := int32pool_Add item (Int32Pool A)\<rparr> else A)"

definition ArgPool_AddInt16 :: "16 word \<Rightarrow> 'z ArgPool_scheme \<Rightarrow> 'z ArgPool_scheme" where
  "ArgPool_AddInt16 item A =
     (if \<not> int16pool_Contains item (Int16Pool A)
      then A\<lparr>Int16Pool := int16pool_Add item (Int16Pool A)\<rparr> else A)"

definition ArgPool_AddInt8 :: "8 word \<Rightarrow> 'z ArgPool_scheme \<Rightarrow> 'z ArgPool_scheme" where
  "ArgPool_AddInt8 item A =
     (if \<not> int8pool_Contains item (Int8Pool A)
      then A\<lparr>Int8Pool := int8pool_Add item (Int8Pool A)\<rparr> else A)"

definition ArgPool_AddBytes32 :: "bytes32 \<Rightarrow> 'z ArgPool_scheme \<Rightarrow> 'z ArgPool_scheme" where
  "ArgPool_AddBytes32 item A =
     (if \<not> bytes32pool_Contains item (Bytes32Pool A)
      then A\<lparr>Bytes32Pool := bytes32pool_Add item (Bytes32Pool A)\<rparr> else A)"

definition ArgPool_AddAddress ::
  "(address \<Rightarrow> string) \<Rightarrow> address \<Rightarrow> 'z argst_scheme \<Rightarrow> 'z argst_scheme res" where
  "ArgPool_AddAddress fa item A =
     bindR (pool_at (AddressPool A) A) (\<lambda>p.
       let fmt = iface_sprint fa (bigs A) in
       if \<not> pool_Contains fmt (IAddress item) p
       then Inr (set_pool (AddressPool A) (pool_Add fmt (IAddress item) p) A) else Inr A)"

definition ArgPool_AddBigInt ::
  "(address \<Rightarrow> string) \<Rightarrow> bigptr \<Rightarrow> 'z argst_scheme \<Rightarrow> 'z argst_scheme res" where
  "ArgPool_AddBigInt fa item A =
     bindR (pool_at (BigIntPool A) A) (\<lambda>p.
       let fmt = iface_sprint fa (bigs A) in
       if \<not> pool_Contains fmt (IBigInt item) p
       then Inr (set_pool (BigIntPool A) (pool_Add fmt (IBigInt item) p) A) else Inr A)"

definition ArgPool_AddString :: "string \<Rightarrow> 'z ArgPool_scheme \<Rightarrow> 'z ArgPool_scheme" where
  "ArgPool_AddString item A =
     (if \<not> stringpool_Contains item (StringPool A)
      then A\<lparr>StringPool := stringpool_Add item (StringPool A)\<rparr> else A)"

definition ArgPool_AddTimestamp :: "64 word \<Rightarrow> 'z ArgPool_scheme \<Rightarrow> 'z ArgPool_scheme" where
  "ArgPool_AddTimestamp item A =
     (if \<not> timestamppool_Contains item (TimestampPool A)
      then A\<lparr>TimestampPool := timestamppool_Sort (timestamppool_Add item (TimestampPool A))\<rparr>
      else A)"

section \<open>Readers\<close>

definition ArgPool_NextInt64 :: "'z ArgPool_scheme \<Rightarrow> (64 word \<times> 'z ArgPool_scheme) res" where
  "ArgPool_NextInt64 A =
     bindR (int64pool_Next (Int64Pool A)) (\<lambda>(x, p). Inr (x, A\<lparr>Int64Pool := p\<rparr>))"

definition ArgPool_NextInt32 :: "'z ArgPool_scheme \<Rightarrow> (32 word \<times> 'z ArgPool_scheme) res" where
  "ArgPool_NextInt32 A =
     bindR (int32pool_Next (Int32Pool A)) (\<lambda>(x, p). Inr (x, A\<lparr>Int32Pool := p\<rparr>))"

definition ArgPool_NextInt16 :: "'z ArgPool_scheme \<Rightarrow> (16 word \<times> 'z ArgPool_scheme) res" where
  "ArgPool_NextInt16 A =
     bindR (int16pool_Next (Int16Pool A)) (\<lambda>(x, p). Inr (x, A\<lparr>Int16Pool := p\<rparr>))"

definition ArgPool_NextInt8 :: "'z ArgPool_scheme \<Rightarrow> (8 word \<times> 'z ArgPool_scheme) res" where
  "ArgPool_NextInt8 A =
     bindR (int8pool_Next (Int8Pool A)) (\<lambda>(x, p). Inr (x, A\<lparr>Int8Pool := p\<rparr>))"

definition ArgPool_NextBytes32 :: "'z ArgPool_scheme \<Rightarrow> (bytes32 \<times> 'z ArgPool_scheme) res" where
  "ArgPool_NextBytes32 A =
     bindR (bytes32pool_Next (Bytes32Pool A)) (\<lambda>(x, p). Inr (x, A\<lparr>Bytes32Pool := p\<rparr>))"

text \<open>The type assertions fail on the nil interface an empty pool returns.\<close>

definition ArgPool_NextAddress :: "'z argst_scheme \<Rightarrow> (address \<times> 'z argst_scheme) res" where
  "ArgPool_NextAddress A =
     bindR (pool_at (AddressPool A) A) (\<lambda>p.
     bindR (pool_Next p) (\<lambda>(x, p').
       case x of
         Some (IAddress a) \<Rightarrow> Inr (a, set_pool (AddressPool A) p' A)
       | _ \<Rightarrow> Inl TypeAssertion))"

definition ArgPool_NextBigInt :: "'z argst_scheme \<Rightarrow> (bigptr \<times> 'z argst_scheme) res" where
  "ArgPool_NextBigInt A =
     bindR (pool_at (BigIntPool A) A) (\<lambda>p.
     bindR (pool_Next p) (\<lambda>(x, p').
       case x of
         Some (IBigInt b) \<Rightarrow> Inr (b, set_pool (BigIntPool A) p' A)
       | _ \<Rightarrow> Inl TypeAssertion))"

definition ArgPool_NextString :: "'z ArgPool_scheme \<Rightarrow> (string \<times> 'z ArgPool_scheme) res" where
  "ArgPool_NextString A =
     bindR (stringpool_Next (StringPool A)) (\<lambda>(x, p). Inr (x, A\<lparr>StringPool := p\<rparr>))"

text \<open>
  \<open>now\<close> is \<^verbatim>\<open>time.Now().Unix()\<close>. The results of \<^verbatim>\<open>NextTimestamp\<close> are evaluated from left
  to right, so \<^verbatim>\<open>AllPassed\<close> sees the pool after \<^verbatim>\<open>Next\<close>.
\<close>

definition ArgPool_NextTimestamp ::
  "int \<Rightarrow> 'z ArgPool_scheme \<Rightarrow> ((int option \<times> bool) \<times> 'z ArgPool_scheme) res" where
  "ArgPool_NextTimestamp now A =
     (if timestamppool_Size (TimestampPool A) = 0 then Inr ((Some now, False), A)
      else bindR (timestamppool_Next (TimestampPool A)) (\<lambda>(t, p).
        Inr ((t, timestamppool_AllPassed p), A\<lparr>TimestampPool := p\<rparr>)))"

definition ArgPool_CurrentTimestamp :: "int \<Rightarrow> 'z ArgPool_scheme \<Rightarrow> int option res" where
  "ArgPool_CurrentTimestamp now A =
     (if timestamppool_Size (TimestampPool A) = 0 then Inr (Some now)
      else timestamppool_GetCurrent (TimestampPool A))"

definition ArgPool_GetSizes :: "'z argst_scheme \<Rightarrow> (string \<rightharpoonup> nat) res" where
  "ArgPool_GetSizes A =
     bindR (pool_at (AddressPool A) A) (\<lambda>pa.
     bindR (pool_at (BigIntPool A) A) (\<lambda>pb.
       Inr [''int8'' \<mapsto> int8pool_Size (Int8Pool A),
            ''int16'' \<mapsto> int16pool_Size (Int16Pool A),
            ''int32'' \<mapsto> int32pool_Size (Int32Pool A),
            ''int64'' \<mapsto> int64pool_Size (Int64Pool A),
            ''string'' \<mapsto> stringpool_Size (StringPool A),
            ''address'' \<mapsto> pool_Size pa,
            ''bigInt'' \<mapsto> pool_Size pb,
            ''timestamp'' \<mapsto> timestamppool_Size (TimestampPool A)]))"

section \<open>The singleton\<close>

text \<open>
  The package variables: \<^verbatim>\<open>argPool\<close> (nil or the one argument pool) and \<^verbatim>\<open>pools\<close>.
\<close>

record argpkg =
  pkg_argPool :: "ArgPool option"
  pkg_pools :: poolmap

definition GetArgPool :: "argpkg \<Rightarrow> ArgPool \<times> argpkg" where
  "GetArgPool g =
     (case pkg_argPool g of
        Some A \<Rightarrow> (A, g)
      | None \<Rightarrow>
          let (pa, ps) = GetPool ''Address'' (pkg_pools g);
              (pb, ps') = GetPool ''BigInt'' ps;
              A = \<lparr>Int8Pool = GetInt8Pool, Int16Pool = GetInt16Pool, Int32Pool = GetInt32Pool,
                   Int64Pool = GetInt64Pool, Bytes32Pool = GetBytes32Pool,
                   AddressPool = pa, BigIntPool = pb,
                   StringPool = GetStringPool, TimestampPool = GetTimestampPool\<rparr>
          in (A, \<lparr>pkg_argPool = Some A, pkg_pools = ps'\<rparr>))"

definition ResetArgPool :: "argpkg \<Rightarrow> argpkg" where
  "ResetArgPool g = g\<lparr>pkg_argPool := None\<rparr>"

section \<open>What the operations keep\<close>

text \<open>A typed pool is a ring keyed by its elements, without duplicates.\<close>

definition typed_ok :: "('a, 'a) ring \<Rightarrow> bool" where
  "typed_ok p \<longleftrightarrow> ring_inv (\<lambda>x. x) p \<and> distinct (p_storage p)"

definition ts_ok :: "timestamppool \<Rightarrow> bool" where
  "ts_ok p \<longleftrightarrow> ts_inv p \<and> distinct (ts_items p)"

text \<open>The address pool holds addresses only, keyed by their printed form, without duplicates.\<close>

definition addr_ok :: "(address \<Rightarrow> string) \<Rightarrow> pool \<Rightarrow> bool" where
  "addr_ok fa p \<longleftrightarrow>
     ring_inv (iface_sprint fa []) p \<and> distinct (map (iface_sprint fa []) (p_storage p)) \<and>
     (\<forall>i \<in> set (p_storage p). is_IAddress i)"

text \<open>
  Of the big-integer pool only its reader and the type of its content survive the updates of the
  integers it points to.
\<close>

definition bigpool_ok :: "pool \<Rightarrow> bool" where
  "bigpool_ok p \<longleftrightarrow>
     (if p_storage p = [] then p_idx p = 0 else p_idx p < length (p_storage p)) \<and>
     (\<forall>i \<in> set (p_storage p). is_IBigInt i)"

definition arg_inv :: "(address \<Rightarrow> string) \<Rightarrow> 'z argst_scheme \<Rightarrow> bool" where
  "arg_inv fa A \<longleftrightarrow>
     typed_ok (Int8Pool A) \<and> typed_ok (Int16Pool A) \<and> typed_ok (Int32Pool A) \<and>
     typed_ok (Int64Pool A) \<and> typed_ok (Bytes32Pool A) \<and> typed_ok (StringPool A) \<and>
     ts_ok (TimestampPool A) \<and> AddressPool A \<noteq> BigIntPool A \<and>
     (\<exists>p. pools A (AddressPool A) = Some p \<and> addr_ok fa p) \<and>
     (\<exists>p. pools A (BigIntPool A) = Some p \<and> bigpool_ok p)"

text \<open>The guarded additions are the ring's \<open>offer\<close>.\<close>

named_theorems add_offer \<open>guarded additions as offers\<close>

lemma ArgPool_AddInt8_offer [add_offer]:
  "ArgPool_AddInt8 x A = A\<lparr>Int8Pool := offer int8pool_Contains int8pool_Add x (Int8Pool A)\<rparr>"
  by (simp add: ArgPool_AddInt8_def offer_def)

lemma ArgPool_AddInt16_offer [add_offer]:
  "ArgPool_AddInt16 x A = A\<lparr>Int16Pool := offer int16pool_Contains int16pool_Add x (Int16Pool A)\<rparr>"
  by (simp add: ArgPool_AddInt16_def offer_def)

lemma ArgPool_AddInt32_offer [add_offer]:
  "ArgPool_AddInt32 x A = A\<lparr>Int32Pool := offer int32pool_Contains int32pool_Add x (Int32Pool A)\<rparr>"
  by (simp add: ArgPool_AddInt32_def offer_def)

lemma ArgPool_AddInt64_offer [add_offer]:
  "ArgPool_AddInt64 x A = A\<lparr>Int64Pool := offer int64pool_Contains int64pool_Add x (Int64Pool A)\<rparr>"
  by (simp add: ArgPool_AddInt64_def offer_def)

lemma ArgPool_AddBytes32_offer [add_offer]:
  "ArgPool_AddBytes32 x A =
     A\<lparr>Bytes32Pool := offer bytes32pool_Contains bytes32pool_Add x (Bytes32Pool A)\<rparr>"
  by (simp add: ArgPool_AddBytes32_def offer_def)

lemma ArgPool_AddString_offer [add_offer]:
  "ArgPool_AddString x A =
     A\<lparr>StringPool := offer stringpool_Contains stringpool_Add x (StringPool A)\<rparr>"
  by (simp add: ArgPool_AddString_def offer_def)

lemma ArgPool_AddTimestamp_offer [add_offer]:
  "ArgPool_AddTimestamp x A =
     A\<lparr>TimestampPool := offer timestamppool_Contains ts_insert x (TimestampPool A)\<rparr>"
  by (simp add: ArgPool_AddTimestamp_def offer_def)

lemma set_pool_same: "pools A p = Some q \<Longrightarrow> set_pool p q A = A"
  by (simp add: set_pool_def map_upd_triv)

lemma ArgPool_AddAddress_offer:
  "pools A (AddressPool A) = Some p \<Longrightarrow>
   ArgPool_AddAddress fa x A = Inr (set_pool (AddressPool A)
     (offer (ring_Contains (iface_sprint fa (bigs A))) (ring_Add (iface_sprint fa (bigs A)))
       (IAddress x) p) A)"
  by (simp add: ArgPool_AddAddress_def pool_at_def offer_def Let_def set_pool_same)

lemma ArgPool_AddBigInt_offer:
  "pools A (BigIntPool A) = Some p \<Longrightarrow>
   ArgPool_AddBigInt fa x A = Inr (set_pool (BigIntPool A)
     (offer (ring_Contains (iface_sprint fa (bigs A))) (ring_Add (iface_sprint fa (bigs A)))
       (IBigInt x) p) A)"
  by (simp add: ArgPool_AddBigInt_def pool_at_def offer_def Let_def set_pool_same)

text \<open>The pools' own steps keep what they must.\<close>

lemma typed_ok_offer [inv_intros]:
  "typed_ok p \<Longrightarrow> typed_ok (offer (ring_Contains (\<lambda>x. x)) (ring_Add (\<lambda>x. x)) x p)"
  using ring.distinct_offer [of "\<lambda>x. x" p x] ring.inv_offer [of "\<lambda>x. x" p x]
  by (simp add: typed_ok_def)

lemma ts_ok_offer [inv_intros]:
  "ts_ok p \<Longrightarrow> ts_ok (offer timestamppool_Contains ts_insert x p)"
  using ts.distinct_offer [of p x] ts.inv_offer [of p x] by (simp add: ts_ok_def)

lemma ring_inv_key_cong:
  "(\<And>i. i \<in> set (p_storage p) \<Longrightarrow> k i = k' i) \<Longrightarrow> ring_inv k p \<longleftrightarrow> ring_inv k' p"
  by (simp add: ring_inv_def cong: image_cong)

lemma addr_sprint: "is_IAddress i \<Longrightarrow> iface_sprint fa h i = iface_sprint fa h' i"
  by (cases i) simp_all

text \<open>How addresses print does not depend on the big integers.\<close>

lemma addr_ok_heap:
  "addr_ok fa p \<longleftrightarrow>
     ring_inv (iface_sprint fa h) p \<and> distinct (map (iface_sprint fa h) (p_storage p)) \<and>
     (\<forall>i \<in> set (p_storage p). is_IAddress i)"
proof (cases "\<forall>i \<in> set (p_storage p). is_IAddress i")
  case True
  then have eq: "\<And>i. i \<in> set (p_storage p) \<Longrightarrow> iface_sprint fa h i = iface_sprint fa [] i"
    by (blast intro: addr_sprint)
  then have "map (iface_sprint fa h) (p_storage p) = map (iface_sprint fa []) (p_storage p)"
    by (rule map_cong [OF refl])
  with ring_inv_key_cong [of p, OF eq] show ?thesis by (simp only: addr_ok_def)
next
  case False
  then show ?thesis by (simp only: addr_ok_def) blast
qed

lemma set_offer_subset:
  "set (p_storage (offer (ring_Contains k) (ring_Add k) x p)) \<subseteq> insert x (set (p_storage p))"
  by (auto simp: offer_def ring_Add_def)

lemma addr_ok_offer [inv_intros]:
  assumes "addr_ok fa p"
  shows "addr_ok fa (offer (ring_Contains (iface_sprint fa h)) (ring_Add (iface_sprint fa h)) (IAddress a) p)"
    (is "addr_ok fa ?q")
proof -
  have p: "ring_inv (iface_sprint fa h) p" "distinct (map (iface_sprint fa h) (p_storage p))"
    and addr: "\<forall>i \<in> set (p_storage p). is_IAddress i"
    using assms addr_ok_heap by blast+
  have "ring_inv (iface_sprint fa h) ?q" "distinct (map (iface_sprint fa h) (p_storage ?q))"
    by (rule ring.inv_offer [OF p(1)], rule ring.distinct_offer [OF p])
  moreover have "\<forall>i \<in> set (p_storage ?q). is_IAddress i"
    using set_offer_subset [of "iface_sprint fa h" "IAddress a" p] addr by auto
  ultimately show ?thesis using addr_ok_heap by blast
qed

lemma bigpool_ok_offer [inv_intros]:
  "bigpool_ok p \<Longrightarrow> bigpool_ok (offer (ring_Contains k) (ring_Add k) (IBigInt b) p)"
  by (auto simp: bigpool_ok_def offer_def ring_Add_def split: if_splits)

lemma typed_ok_next:
  assumes "typed_ok p"
  shows "\<exists>x p'. ring_Next z (\<lambda>x. x) p = Inr (x, p') \<and> typed_ok p' \<and> p_storage p' = p_storage p \<and>
    (if p_storage p = [] then x = z else x \<in> set (p_storage p))"
proof -
  have inv: "ring_inv (\<lambda>x. x) p" using assms by (simp add: typed_ok_def)
  obtain x p' where "ring_Next z (\<lambda>x. x) p = Inr (x, p')"
    using ring.nxt_total [OF inv, of z "\<lambda>x. x"] by blast
  with ring.nxt_in [OF inv this] assms show ?thesis by (auto simp: typed_ok_def)
qed

lemma ts_ok_next:
  assumes "ts_ok p"
  shows "\<exists>x p'. timestamppool_Next p = Inr (x, p') \<and> ts_ok p' \<and> ts_items p' = ts_items p"
proof -
  have inv: "ts_inv p" using assms by (simp add: ts_ok_def)
  obtain x p' where "timestamppool_Next p = Inr (x, p')" "ts_inv p'" "ts_items p' = ts_items p"
    using ts.nxt_total [OF inv] by blast
  with assms show ?thesis by (simp add: ts_ok_def)
qed

lemma pool_next_cases:
  assumes "if p_storage p = [] then p_idx p = 0 else p_idx p < length (p_storage p)"
  obtains "p_storage p = []" "pool_Next p = Inr (None, p)"
  | "p_storage p \<noteq> []" "pool_Next p = Inr (Some (p_storage p ! p_idx p),
       p\<lparr>p_idx := (p_idx p + 1) mod length (p_storage p)\<rparr>)"
       "p_storage p ! p_idx p \<in> set (p_storage p)"
  using assms by (cases "p_storage p = []") (auto simp: ring_Next_def)

section \<open>The content of the pools\<close>

definition addresses :: "'z argst_scheme \<Rightarrow> address list" where
  "addresses A = (case pools A (AddressPool A) of None \<Rightarrow> []
     | Some p \<Rightarrow> map (\<lambda>i. case i of IAddress a \<Rightarrow> a | _ \<Rightarrow> 0) (p_storage p))"

definition bigptrs :: "'z argst_scheme \<Rightarrow> bigptr list" where
  "bigptrs A = (case pools A (BigIntPool A) of None \<Rightarrow> []
     | Some p \<Rightarrow> map (\<lambda>i. case i of IBigInt b \<Rightarrow> b | _ \<Rightarrow> 0) (p_storage p))"

text \<open>All values an argument pool can hand out: what readers leave unchanged.\<close>

record contents =
  c_int8 :: "8 word list"
  c_int16 :: "16 word list"
  c_int32 :: "32 word list"
  c_int64 :: "64 word list"
  c_bytes32 :: "bytes32 list"
  c_address :: "address list"
  c_bigInt :: "bigptr list"
  c_string :: "string list"
  c_timestamp :: "int list"
  c_bigs :: bigs

definition contents :: "'z argst_scheme \<Rightarrow> contents" where
  "contents A =
     \<lparr>c_int8 = p_storage (Int8Pool A), c_int16 = p_storage (Int16Pool A),
      c_int32 = p_storage (Int32Pool A), c_int64 = p_storage (Int64Pool A),
      c_bytes32 = p_storage (Bytes32Pool A), c_address = addresses A, c_bigInt = bigptrs A,
      c_string = p_storage (StringPool A), c_timestamp = p_storage (TimestampPool A),
      c_bigs = bigs A\<rparr>"

lemma contents_frame [simp]:
  "addresses (A\<lparr>Int8Pool := p8\<rparr>) = addresses A" "bigptrs (A\<lparr>Int8Pool := p8\<rparr>) = bigptrs A"
  "addresses (A\<lparr>Int16Pool := p16\<rparr>) = addresses A" "bigptrs (A\<lparr>Int16Pool := p16\<rparr>) = bigptrs A"
  "addresses (A\<lparr>Int32Pool := p32\<rparr>) = addresses A" "bigptrs (A\<lparr>Int32Pool := p32\<rparr>) = bigptrs A"
  "addresses (A\<lparr>Int64Pool := p64\<rparr>) = addresses A" "bigptrs (A\<lparr>Int64Pool := p64\<rparr>) = bigptrs A"
  "addresses (A\<lparr>Bytes32Pool := pb\<rparr>) = addresses A" "bigptrs (A\<lparr>Bytes32Pool := pb\<rparr>) = bigptrs A"
  "addresses (A\<lparr>StringPool := ps\<rparr>) = addresses A" "bigptrs (A\<lparr>StringPool := ps\<rparr>) = bigptrs A"
  "addresses (A\<lparr>TimestampPool := pt\<rparr>) = addresses A" "bigptrs (A\<lparr>TimestampPool := pt\<rparr>) = bigptrs A"
  "addresses (A\<lparr>bigs := h\<rparr>) = addresses A" "bigptrs (A\<lparr>bigs := h\<rparr>) = bigptrs A"
  by (simp_all add: addresses_def bigptrs_def)

section \<open>Every method keeps the invariant\<close>

lemma arg_inv_cong:
  "Int8Pool A = Int8Pool B \<Longrightarrow> Int16Pool A = Int16Pool B \<Longrightarrow> Int32Pool A = Int32Pool B \<Longrightarrow>
   Int64Pool A = Int64Pool B \<Longrightarrow> Bytes32Pool A = Bytes32Pool B \<Longrightarrow> StringPool A = StringPool B \<Longrightarrow>
   TimestampPool A = TimestampPool B \<Longrightarrow> AddressPool A = AddressPool B \<Longrightarrow>
   BigIntPool A = BigIntPool B \<Longrightarrow> pools A = pools B \<Longrightarrow> arg_inv fa A \<longleftrightarrow> arg_inv fa B"
  by (simp add: arg_inv_def)

text \<open>The cells of the big integers are no part of it.\<close>

lemma arg_inv_bigs [simp]: "arg_inv fa (A\<lparr>bigs := h\<rparr>) \<longleftrightarrow> arg_inv fa A"
  by (simp add: arg_inv_def)

lemma arg_inv_adds [inv_intros]:
  "arg_inv fa A \<Longrightarrow> arg_inv fa (ArgPool_AddInt8 i8 A)"
  "arg_inv fa A \<Longrightarrow> arg_inv fa (ArgPool_AddInt16 i16 A)"
  "arg_inv fa A \<Longrightarrow> arg_inv fa (ArgPool_AddInt32 i32 A)"
  "arg_inv fa A \<Longrightarrow> arg_inv fa (ArgPool_AddInt64 i64 A)"
  "arg_inv fa A \<Longrightarrow> arg_inv fa (ArgPool_AddBytes32 b A)"
  "arg_inv fa A \<Longrightarrow> arg_inv fa (ArgPool_AddString s A)"
  "arg_inv fa A \<Longrightarrow> arg_inv fa (ArgPool_AddTimestamp t A)"
  by (simp_all add: arg_inv_def add_offer inv_intros)

lemma ArgPool_AddAddress_total:
  assumes "arg_inv fa A"
  shows "\<exists>A'. ArgPool_AddAddress fa a A = Inr A' \<and> arg_inv fa A' \<and> bigs A' = bigs A"
proof -
  obtain p where p: "pools A (AddressPool A) = Some p" "addr_ok fa p"
    using assms by (auto simp: arg_inv_def)
  have "arg_inv fa (set_pool (AddressPool A)
      (offer (ring_Contains (iface_sprint fa (bigs A))) (ring_Add (iface_sprint fa (bigs A)))
        (IAddress a) p) A)"
    using assms addr_ok_offer [OF p(2)] by (auto simp: arg_inv_def set_pool_def)
  then show ?thesis by (simp add: ArgPool_AddAddress_offer [OF p(1)] set_pool_def)
qed

lemma ArgPool_AddBigInt_total:
  assumes "arg_inv fa A"
  shows "\<exists>A'. ArgPool_AddBigInt fa b A = Inr A' \<and> arg_inv fa A' \<and> bigs A' = bigs A"
proof -
  obtain p where p: "pools A (BigIntPool A) = Some p" "bigpool_ok p"
    using assms by (auto simp: arg_inv_def)
  have "arg_inv fa (set_pool (BigIntPool A)
      (offer (ring_Contains (iface_sprint fa (bigs A))) (ring_Add (iface_sprint fa (bigs A)))
        (IBigInt b) p) A)"
    using assms bigpool_ok_offer [OF p(2)] by (auto simp: arg_inv_def set_pool_def)
  then show ?thesis by (simp add: ArgPool_AddBigInt_offer [OF p(1)] set_pool_def)
qed

text \<open>
  The readers of the typed pools never panic, and leave the content of the pools alone. The readers
  of the shared pools panic exactly when their pool is empty.
\<close>

lemma arg_inv_next_typed:
  assumes "arg_inv fa A"
  shows "\<exists>x A'. ArgPool_NextInt8 A = Inr (x, A') \<and> arg_inv fa A' \<and> contents A' = contents A"
    and "\<exists>x A'. ArgPool_NextInt16 A = Inr (x, A') \<and> arg_inv fa A' \<and> contents A' = contents A"
    and "\<exists>x A'. ArgPool_NextInt32 A = Inr (x, A') \<and> arg_inv fa A' \<and> contents A' = contents A"
    and "\<exists>x A'. ArgPool_NextInt64 A = Inr (x, A') \<and> arg_inv fa A' \<and> contents A' = contents A"
    and "\<exists>x A'. ArgPool_NextBytes32 A = Inr (x, A') \<and> arg_inv fa A' \<and> contents A' = contents A"
    and "\<exists>x A'. ArgPool_NextString A = Inr (x, A') \<and> arg_inv fa A' \<and> contents A' = contents A"
proof -
  note ok = assms [unfolded arg_inv_def]
  show "\<exists>x A'. ArgPool_NextInt8 A = Inr (x, A') \<and> arg_inv fa A' \<and> contents A' = contents A"
    using ok typed_ok_next [of "Int8Pool A" 0] by (auto simp: ArgPool_NextInt8_def arg_inv_def contents_def)
  show "\<exists>x A'. ArgPool_NextInt16 A = Inr (x, A') \<and> arg_inv fa A' \<and> contents A' = contents A"
    using ok typed_ok_next [of "Int16Pool A" 0] by (auto simp: ArgPool_NextInt16_def arg_inv_def contents_def)
  show "\<exists>x A'. ArgPool_NextInt32 A = Inr (x, A') \<and> arg_inv fa A' \<and> contents A' = contents A"
    using ok typed_ok_next [of "Int32Pool A" 0] by (auto simp: ArgPool_NextInt32_def arg_inv_def contents_def)
  show "\<exists>x A'. ArgPool_NextInt64 A = Inr (x, A') \<and> arg_inv fa A' \<and> contents A' = contents A"
    using ok typed_ok_next [of "Int64Pool A" 0] by (auto simp: ArgPool_NextInt64_def arg_inv_def contents_def)
  show "\<exists>x A'. ArgPool_NextBytes32 A = Inr (x, A') \<and> arg_inv fa A' \<and> contents A' = contents A"
    using ok typed_ok_next [of "Bytes32Pool A" "replicate 32 0"]
    by (auto simp: ArgPool_NextBytes32_def arg_inv_def contents_def)
  show "\<exists>x A'. ArgPool_NextString A = Inr (x, A') \<and> arg_inv fa A' \<and> contents A' = contents A"
    using ok typed_ok_next [of "StringPool A" "[]"] by (auto simp: ArgPool_NextString_def arg_inv_def contents_def)
qed

lemma arg_inv_next_timestamp:
  assumes "arg_inv fa A"
  shows "\<exists>r A'. ArgPool_NextTimestamp now A = Inr (r, A') \<and> arg_inv fa A' \<and> contents A' = contents A"
proof (cases "timestamppool_Size (TimestampPool A) = 0")
  case True
  with assms show ?thesis by (auto simp: ArgPool_NextTimestamp_def)
next
  case False
  obtain t p where "timestamppool_Next (TimestampPool A) = Inr (t, p)" "ts_ok p"
      "p_storage p = p_storage (TimestampPool A)"
    using ts_ok_next [of "TimestampPool A"] assms
    by (auto simp: arg_inv_def timestamppool_Next_def Let_def split: if_splits)
  with False assms show ?thesis by (simp add: ArgPool_NextTimestamp_def arg_inv_def contents_def)
qed

lemma ring_inv_idx: "ring_inv k p \<Longrightarrow> if p_storage p = [] then p_idx p = 0 else p_idx p < length (p_storage p)"
  by (simp add: ring_inv_def)

lemma addr_ok_advance:
  "addr_ok fa p \<Longrightarrow> p_storage p \<noteq> [] \<Longrightarrow>
   addr_ok fa (p\<lparr>p_idx := (p_idx p + 1) mod length (p_storage p)\<rparr>)"
  by (simp add: addr_ok_def ring_inv_def)

lemma bigpool_ok_advance:
  "bigpool_ok p \<Longrightarrow> p_storage p \<noteq> [] \<Longrightarrow>
   bigpool_ok (p\<lparr>p_idx := (p_idx p + 1) mod length (p_storage p)\<rparr>)"
  by (simp add: bigpool_ok_def)

lemma ArgPool_NextAddress_cases:
  assumes "arg_inv fa A"
  shows "if addresses A = [] then ArgPool_NextAddress A = Inl TypeAssertion
    else \<exists>a A'. ArgPool_NextAddress A = Inr (a, A') \<and> a \<in> set (addresses A) \<and>
      arg_inv fa A' \<and> contents A' = contents A"
proof -
  obtain p where p: "pools A (AddressPool A) = Some p" "addr_ok fa p"
    using assms by (auto simp: arg_inv_def)
  have idx: "if p_storage p = [] then p_idx p = 0 else p_idx p < length (p_storage p)"
    using p(2) by (simp add: addr_ok_def ring_inv_def)
  show ?thesis using idx
  proof (cases rule: pool_next_cases)
    case 1
    then show ?thesis using p by (simp add: ArgPool_NextAddress_def pool_at_def addresses_def)
  next
    case 2
    let ?q = "p\<lparr>p_idx := (p_idx p + 1) mod length (p_storage p)\<rparr>"
    obtain a where a: "p_storage p ! p_idx p = IAddress a"
      using 2(3) p(2) by (auto simp: addr_ok_def is_IAddress_def)
    have "a \<in> set (addresses A)"
      using 2(3) a p(1) by (force simp: addresses_def)
    moreover have "arg_inv fa (set_pool (AddressPool A) ?q A)"
      using assms addr_ok_advance [OF p(2) 2(1)] by (auto simp: arg_inv_def set_pool_def)
    moreover have "AddressPool A \<noteq> BigIntPool A" using assms by (simp add: arg_inv_def)
    ultimately show ?thesis
      using 2 a p(1) by (simp add: ArgPool_NextAddress_def pool_at_def addresses_def bigptrs_def set_pool_def contents_def)
  qed
qed

lemma ArgPool_NextBigInt_cases:
  assumes "arg_inv fa A"
  shows "if bigptrs A = [] then ArgPool_NextBigInt A = Inl TypeAssertion
    else \<exists>b A'. ArgPool_NextBigInt A = Inr (b, A') \<and> b \<in> set (bigptrs A) \<and>
      arg_inv fa A' \<and> contents A' = contents A"
proof -
  obtain p where p: "pools A (BigIntPool A) = Some p" "bigpool_ok p"
    using assms by (auto simp: arg_inv_def)
  have idx: "if p_storage p = [] then p_idx p = 0 else p_idx p < length (p_storage p)"
    using p(2) by (simp add: bigpool_ok_def)
  show ?thesis using idx
  proof (cases rule: pool_next_cases)
    case 1
    then show ?thesis using p by (simp add: ArgPool_NextBigInt_def pool_at_def bigptrs_def)
  next
    case 2
    let ?q = "p\<lparr>p_idx := (p_idx p + 1) mod length (p_storage p)\<rparr>"
    obtain b where b: "p_storage p ! p_idx p = IBigInt b"
      using 2(3) p(2) by (auto simp: bigpool_ok_def is_IBigInt_def)
    have "b \<in> set (bigptrs A)"
      using 2(3) b p(1) by (force simp: bigptrs_def)
    moreover have "arg_inv fa (set_pool (BigIntPool A) ?q A)"
      using assms bigpool_ok_advance [OF p(2) 2(1)] by (auto simp: arg_inv_def set_pool_def)
    moreover have "AddressPool A \<noteq> BigIntPool A" using assms by (simp add: arg_inv_def)
    ultimately show ?thesis
      using 2 b p(1) by (simp add: ArgPool_NextBigInt_def pool_at_def addresses_def bigptrs_def set_pool_def contents_def)
  qed
qed

end
