(* ===== verification/ArgPoolSafety.thy ===== *)
theory ArgPoolSafety
  imports ArgPools
begin

text \<open>
  The argument pool as a state machine: its steps are the methods of \<^verbatim>\<open>argpool/argpool.go\<close>
  and the updates the rest of the program makes to the big integers the pool points to. The
  reachable states satisfy the invariant of \<^verbatim>\<open>ArgPools\<close>, so no reader of a typed pool panics,
  no pool repeats a value, and every reader goes round its pool.
\<close>

section \<open>The state machine\<close>

definition argpkg_init :: argpkg where
  "argpkg_init = \<lparr>pkg_argPool = None, pkg_pools = pools_init\<rparr>"

text \<open>The methods' state: the pool \<^verbatim>\<open>GetArgPool\<close> returned, with what its pointers reach.\<close>

definition attach :: "ArgPool \<times> argpkg \<Rightarrow> bigs \<Rightarrow> argst" where
  "attach r h = ArgPool.extend (fst r) (argst.fields (pkg_pools (snd r)) h)"

definition argpool_start :: argst where
  "argpool_start = attach (GetArgPool argpkg_init) []"

inductive argpool_step :: "(address \<Rightarrow> string) \<Rightarrow> argst \<Rightarrow> argst \<Rightarrow> bool" for fa where
  add_int8: "argpool_step fa A (ArgPool_AddInt8 i8 A)"
| add_int16: "argpool_step fa A (ArgPool_AddInt16 i16 A)"
| add_int32: "argpool_step fa A (ArgPool_AddInt32 i32 A)"
| add_int64: "argpool_step fa A (ArgPool_AddInt64 i64 A)"
| add_bytes32: "argpool_step fa A (ArgPool_AddBytes32 b A)"
| add_string: "argpool_step fa A (ArgPool_AddString s A)"
| add_timestamp: "argpool_step fa A (ArgPool_AddTimestamp t A)"
| add_address: "ArgPool_AddAddress fa a A = Inr A' \<Longrightarrow> argpool_step fa A A'"
| add_bigInt: "ArgPool_AddBigInt fa n A = Inr A' \<Longrightarrow> argpool_step fa A A'"
| next_int8: "ArgPool_NextInt8 A = Inr (i8, A') \<Longrightarrow> argpool_step fa A A'"
| next_int16: "ArgPool_NextInt16 A = Inr (i16, A') \<Longrightarrow> argpool_step fa A A'"
| next_int32: "ArgPool_NextInt32 A = Inr (i32, A') \<Longrightarrow> argpool_step fa A A'"
| next_int64: "ArgPool_NextInt64 A = Inr (i64, A') \<Longrightarrow> argpool_step fa A A'"
| next_bytes32: "ArgPool_NextBytes32 A = Inr (b, A') \<Longrightarrow> argpool_step fa A A'"
| next_string: "ArgPool_NextString A = Inr (s, A') \<Longrightarrow> argpool_step fa A A'"
| next_timestamp: "ArgPool_NextTimestamp now A = Inr (r, A') \<Longrightarrow> argpool_step fa A A'"
| next_address: "ArgPool_NextAddress A = Inr (a, A') \<Longrightarrow> argpool_step fa A A'"
| next_bigInt: "ArgPool_NextBigInt A = Inr (n, A') \<Longrightarrow> argpool_step fa A A'"
| write_bigs: "argpool_step fa A (A\<lparr>bigs := h\<rparr>)"

inductive argpool_reach :: "(address \<Rightarrow> string) \<Rightarrow> argst \<Rightarrow> bool" for fa where
  start: "argpool_reach fa argpool_start"
| step: "argpool_reach fa A \<Longrightarrow> argpool_step fa A A' \<Longrightarrow> argpool_reach fa A'"

lemma typed_ok_new [inv_intros]: "typed_ok ring_new"
  by (simp add: typed_ok_def ring_inv_def ring_new_def)

lemma argpool_start_eq:
  "argpool_start =
     \<lparr>Int8Pool = ring_new, Int16Pool = ring_new, Int32Pool = ring_new, Int64Pool = ring_new,
      Bytes32Pool = ring_new, AddressPool = ''Address'', BigIntPool = ''BigInt'',
      StringPool = ring_new, TimestampPool = GetTimestampPool,
      pools = [''Address'' \<mapsto> ring_new, ''BigInt'' \<mapsto> ring_new], bigs = []\<rparr>"
  by (simp add: argpool_start_def attach_def GetArgPool_def argpkg_init_def pools_init_def
      GetPool_new ArgPool.extend_def argst.fields_def Let_def)

lemma addr_ok_new: "addr_ok fa ring_new"
  by (simp add: addr_ok_def ring_inv_def ring_new_def)

lemma bigpool_ok_new: "bigpool_ok ring_new"
  by (simp add: bigpool_ok_def ring_new_def)

lemma ts_ok_new: "ts_ok GetTimestampPool"
  by (simp add: ts_ok_def ts_inv_new) (simp add: ts_items_def GetTimestampPool_def)

lemma arg_inv_start: "arg_inv fa argpool_start"
  by (simp add: arg_inv_def argpool_start_eq typed_ok_new addr_ok_new bigpool_ok_new ts_ok_new)

lemma step_next_inv:
  "\<exists>x A'. m = Inr (x, A') \<and> arg_inv fa A' \<and> R A' \<Longrightarrow> m = Inr (y, B) \<Longrightarrow> arg_inv fa B"
  by auto

lemma next_result: "\<exists>x A'. m = Inr (x, A') \<and> R x A' \<Longrightarrow> \<exists>x A'. m = Inr (x, A')"
  by blast

lemma argpool_step_inv: "argpool_step fa A B \<Longrightarrow> arg_inv fa A \<Longrightarrow> arg_inv fa B"
proof (induction rule: argpool_step.induct)
  case (add_address a A A')
  then show ?case using ArgPool_AddAddress_total [OF add_address(2), of a] by auto
next
  case (add_bigInt n A A')
  then show ?case using ArgPool_AddBigInt_total [OF add_bigInt(2), of n] by auto
next
  case (next_address A a A')
  then show ?case using ArgPool_NextAddress_cases [OF next_address(2)] by (auto split: if_splits)
next
  case (next_bigInt A n A')
  then show ?case using ArgPool_NextBigInt_cases [OF next_bigInt(2)] by (auto split: if_splits)
qed (auto intro: inv_intros dest: arg_inv_next_typed arg_inv_next_timestamp
    step_next_inv [OF arg_inv_next_typed(1)] step_next_inv [OF arg_inv_next_typed(2)]
    step_next_inv [OF arg_inv_next_typed(3)] step_next_inv [OF arg_inv_next_typed(4)]
    step_next_inv [OF arg_inv_next_typed(5)] step_next_inv [OF arg_inv_next_typed(6)]
    step_next_inv [OF arg_inv_next_timestamp])

lemma argpool_reach_inv: "argpool_reach fa A \<Longrightarrow> arg_inv fa A"
  by (induction rule: argpool_reach.induct) (auto intro: arg_inv_start argpool_step_inv)

section \<open>Readers in a row\<close>

text \<open>Calls of a method that reads one field are calls of that field's reader.\<close>

lemma draws_lift:
  assumes "\<And>A. m A = bindR (nxt (get A)) (\<lambda>(x, p). Inr (x, put p A))"
    and "\<And>p A. get (put p A) = p" "\<And>p q A. put p (put q A) = put p A" "\<And>A. put (get A) A = A"
  shows "draws n m A = bindR (draws n nxt (get A)) (\<lambda>(xs, p). Inr (xs, put p A))"
proof (induction n arbitrary: A)
  case 0
  then show ?case by (simp add: assms)
next
  case (Suc n)
  show ?case
    by (cases "nxt (get A)") (auto simp: assms(1) [of A] Suc.IH assms(2,3) bindR_assoc
        split: prod.splits intro!: bindR_cong)
qed

lemma typed_round:
  assumes "typed_ok p" and "p_storage p \<noteq> []"
  shows "draws (length (p_storage p)) (ring_Next z (\<lambda>x. x)) p = Inr (rotate (p_idx p) (p_storage p), p)"
proof -
  have inv: "ring_inv (\<lambda>x. x) p" using assms(1) by (simp add: typed_ok_def)
  obtain q where q: "draws (length (p_storage p)) (ring_Next z (\<lambda>x. x)) p =
      Inr (rotate (p_idx p) (p_storage p), q)"
      "ring_inv (\<lambda>x. x) q" "p_storage q = p_storage p" "p_idx q = p_idx p"
    using ring.draws_full_round [OF inv assms(2), of z "\<lambda>x. x"] by auto
  have "q = p" using q(2-4) inv by (cases p; cases q) (simp add: ring_inv_def)
  with q(1) show ?thesis by simp
qed

lemma round_lift:
  assumes "\<And>A. m A = bindR (ring_Next z (\<lambda>x. x) (get A)) (\<lambda>(x, p). Inr (x, put p A))"
    and "\<And>p A. get (put p A) = p" "\<And>p q A. put p (put q A) = put p A" "\<And>A. put (get A) A = A"
    and "typed_ok (get A)" "p_storage (get A) \<noteq> []"
  shows "draws (length (p_storage (get A))) m A = Inr (rotate (p_idx (get A)) (p_storage (get A)), A)"
  by (simp add: draws_lift [where m = m and get = get and put = put, OF assms(1-4)]
      typed_round [OF assms(5,6)] assms(4))

section \<open>Additions in a row\<close>

lemma ring_offers_storage:
  fixes p :: "('a, 'a) ring"
  assumes "ring_inv (\<lambda>x. x) p"
  shows "p_storage (fold (offer (ring_Contains (\<lambda>x. x)) (ring_Add (\<lambda>x. x))) xs p) =
    p_storage p @ rev (remdups (rev (filter (\<lambda>x. x \<notin> set (p_storage p)) xs)))"
proof (induction xs rule: rev_induct)
  case Nil
  then show ?case by simp
next
  case (snoc x xs)
  let ?q = "fold (offer (ring_Contains (\<lambda>x. x)) (ring_Add (\<lambda>x. x))) xs p"
  have "ring_inv (\<lambda>x. x) ?q" by (rule ring.inv_offers [OF assms])
  then have "ring_Contains (\<lambda>x. x) x ?q \<longleftrightarrow> x \<in> set (p_storage ?q)"
    using ring.has_iff [of "\<lambda>x. x" ?q x] by simp
  then have "p_storage (offer (ring_Contains (\<lambda>x. x)) (ring_Add (\<lambda>x. x)) x ?q) =
      (if x \<in> set (p_storage ?q) then p_storage ?q else p_storage ?q @ [x])"
    by (simp add: offer_def ring_Add_def)
  then show ?case by (auto simp: snoc.IH)
qed

lemma Int64Pool_adds:
  "Int64Pool (fold ArgPool_AddInt64 xs A) =
     fold (offer (ring_Contains (\<lambda>x. x)) (ring_Add (\<lambda>x. x))) xs (Int64Pool A)"
  by (induction xs arbitrary: A) (simp_all add: add_offer)

lemma StringPool_adds:
  "StringPool (fold ArgPool_AddString xs A) =
     fold (offer (ring_Contains (\<lambda>x. x)) (ring_Add (\<lambda>x. x))) xs (StringPool A)"
  by (induction xs arbitrary: A) (simp_all add: add_offer)

lemma TimestampPool_adds:
  "TimestampPool (fold ArgPool_AddTimestamp xs A) =
     fold (offer timestamppool_Contains ts_insert) xs (TimestampPool A)"
  by (induction xs arbitrary: A) (simp_all add: add_offer)

section \<open>The timestamp reader\<close>

lemma NextTimestamp_step:
  assumes "p_storage (TimestampPool A) \<noteq> []"
  shows "ArgPool_NextTimestamp now A =
    (let p = TimestampPool A; L = length (p_storage p); j = (p_idx p + 1) mod L
     in Inr ((Some (p_storage p ! j), j + 1 = L), A\<lparr>TimestampPool := p\<lparr>p_idx := j\<rparr>\<rparr>))"
  using assms by (simp add: ArgPool_NextTimestamp_def timestamppool_defs Let_def)

lemma draws_NextTimestamp:
  assumes "p_storage (TimestampPool A) \<noteq> []" and "p_idx (TimestampPool A) < length (p_storage (TimestampPool A))"
  shows "draws n (ArgPool_NextTimestamp now) A =
    (let p = TimestampPool A; L = length (p_storage p)
     in Inr (map (\<lambda>i. let j = (p_idx p + 1 + i) mod L in (Some (p_storage p ! j), j + 1 = L)) [0..<n],
             A\<lparr>TimestampPool := p\<lparr>p_idx := (p_idx p + n) mod L\<rparr>\<rparr>))"
  using assms
proof (induction n arbitrary: A)
  case 0
  then show ?case by simp
next
  case (Suc n)
  let ?p = "TimestampPool A"
  let ?L = "length (p_storage ?p)"
  let ?j = "(p_idx ?p + 1) mod ?L"
  let ?B = "A\<lparr>TimestampPool := ?p\<lparr>p_idx := ?j\<rparr>\<rparr>"
  let ?out = "\<lambda>i. let j = (p_idx ?p + 1 + i) mod ?L in (Some (p_storage ?p ! j), j + 1 = ?L)"
  have step: "ArgPool_NextTimestamp now A = Inr (?out 0, ?B)"
    using NextTimestamp_step [OF Suc.prems(1), of now] by (simp add: Let_def)
  have mods: "(?j + 1 + i) mod ?L = (p_idx ?p + 1 + Suc i) mod ?L" "(?j + n) mod ?L = (p_idx ?p + Suc n) mod ?L" for i
    by (metis (no_types, lifting) add.assoc add.commute mod_add_left_eq plus_1_eq_Suc)+
  have "draws n (ArgPool_NextTimestamp now) ?B =
      Inr (map (?out \<circ> Suc) [0..<n], A\<lparr>TimestampPool := ?p\<lparr>p_idx := (p_idx ?p + Suc n) mod ?L\<rparr>\<rparr>)"
    using Suc.IH [of ?B] Suc.prems(1) mods by (simp add: Let_def comp_def)
  then show ?case
    by (simp add: step Let_def comp_def map_Suc_upt [symmetric] upt_conv_Cons del: map_Suc_upt upt_Suc)
qed

section \<open>Properties\<close>

text \<open>
  C13: In every state the program can bring its argument pool to, by any sequence of additions,
  reads and updates of the big integers it points to, the invariant holds: every typed pool is
  free of duplicates, its membership map is exactly its content and its index is in range. Hence
  no reader of a typed pool panics, and the address and big-integer readers panic (a failed type
  assertion on the nil interface) exactly while their pool is empty.
\<close>

theorem argpool_reachable_safe:
  assumes "argpool_reach fa A"
  shows "arg_inv fa A \<and>
    (\<exists>x A'. ArgPool_NextInt8 A = Inr (x, A')) \<and> (\<exists>x A'. ArgPool_NextInt16 A = Inr (x, A')) \<and>
    (\<exists>x A'. ArgPool_NextInt32 A = Inr (x, A')) \<and> (\<exists>x A'. ArgPool_NextInt64 A = Inr (x, A')) \<and>
    (\<exists>x A'. ArgPool_NextBytes32 A = Inr (x, A')) \<and> (\<exists>x A'. ArgPool_NextString A = Inr (x, A')) \<and>
    (\<exists>x A'. ArgPool_NextTimestamp now A = Inr (x, A')) \<and>
    (if addresses A = [] then ArgPool_NextAddress A = Inl TypeAssertion
     else \<exists>x A'. ArgPool_NextAddress A = Inr (x, A') \<and> x \<in> set (addresses A)) \<and>
    (if bigptrs A = [] then ArgPool_NextBigInt A = Inl TypeAssertion
     else \<exists>x A'. ArgPool_NextBigInt A = Inr (x, A') \<and> x \<in> set (bigptrs A))"
proof -
  have inv: "arg_inv fa A" using assms by (rule argpool_reach_inv)
  have addr: "if addresses A = [] then ArgPool_NextAddress A = Inl TypeAssertion
      else \<exists>x A'. ArgPool_NextAddress A = Inr (x, A') \<and> x \<in> set (addresses A)"
    using ArgPool_NextAddress_cases [OF inv] by (cases "addresses A = []") force+
  have big: "if bigptrs A = [] then ArgPool_NextBigInt A = Inl TypeAssertion
      else \<exists>x A'. ArgPool_NextBigInt A = Inr (x, A') \<and> x \<in> set (bigptrs A)"
    using ArgPool_NextBigInt_cases [OF inv] by (cases "bigptrs A = []") force+
  show ?thesis
    by (intro conjI inv addr big arg_inv_next_typed [OF inv, THEN next_result]
        arg_inv_next_timestamp [OF inv, THEN next_result])
qed

theorem argpool_reachable_safe_witness:
  "\<exists>x A'. ArgPool_NextInt8 (ArgPool_AddInt8 7 (ArgPool_AddInt8 7 argpool_start)) = Inr (x, A')"
proof -
  have "argpool_reach (\<lambda>_. []) (ArgPool_AddInt8 7 (ArgPool_AddInt8 7 argpool_start))"
    by (rule argpool_reach.step [OF argpool_reach.step [OF argpool_reach.start argpool_step.add_int8]
        argpool_step.add_int8])
  from argpool_reachable_safe [OF this, of 0] show ?thesis by blast
qed

text \<open>
  C26: Reading a typed pool as many times as it has values returns each value once, in insertion
  order starting at the current index, and leaves the argument pool as it was: the readers are
  fair and circular, for all six element types.
\<close>

theorem typed_readers_full_round:
  assumes "arg_inv fa A"
    and "p_storage (Int8Pool A) \<noteq> []" "p_storage (Int16Pool A) \<noteq> []" "p_storage (Int32Pool A) \<noteq> []"
    and "p_storage (Int64Pool A) \<noteq> []" "p_storage (Bytes32Pool A) \<noteq> []" "p_storage (StringPool A) \<noteq> []"
  shows "draws (length (p_storage (Int8Pool A))) ArgPool_NextInt8 A =
      Inr (rotate (p_idx (Int8Pool A)) (p_storage (Int8Pool A)), A) \<and>
    draws (length (p_storage (Int16Pool A))) ArgPool_NextInt16 A =
      Inr (rotate (p_idx (Int16Pool A)) (p_storage (Int16Pool A)), A) \<and>
    draws (length (p_storage (Int32Pool A))) ArgPool_NextInt32 A =
      Inr (rotate (p_idx (Int32Pool A)) (p_storage (Int32Pool A)), A) \<and>
    draws (length (p_storage (Int64Pool A))) ArgPool_NextInt64 A =
      Inr (rotate (p_idx (Int64Pool A)) (p_storage (Int64Pool A)), A) \<and>
    draws (length (p_storage (Bytes32Pool A))) ArgPool_NextBytes32 A =
      Inr (rotate (p_idx (Bytes32Pool A)) (p_storage (Bytes32Pool A)), A) \<and>
    draws (length (p_storage (StringPool A))) ArgPool_NextString A =
      Inr (rotate (p_idx (StringPool A)) (p_storage (StringPool A)), A)"
proof (intro conjI)
  note ok = assms(1) [unfolded arg_inv_def]
  show "draws (length (p_storage (Int8Pool A))) ArgPool_NextInt8 A =
      Inr (rotate (p_idx (Int8Pool A)) (p_storage (Int8Pool A)), A)"
    by (rule round_lift [where put = "\<lambda>p A. A\<lparr>Int8Pool := p\<rparr>"])
      (use ok assms(2) in \<open>auto simp: ArgPool_NextInt8_def\<close>)
  show "draws (length (p_storage (Int16Pool A))) ArgPool_NextInt16 A =
      Inr (rotate (p_idx (Int16Pool A)) (p_storage (Int16Pool A)), A)"
    by (rule round_lift [where put = "\<lambda>p A. A\<lparr>Int16Pool := p\<rparr>"])
      (use ok assms(3) in \<open>auto simp: ArgPool_NextInt16_def\<close>)
  show "draws (length (p_storage (Int32Pool A))) ArgPool_NextInt32 A =
      Inr (rotate (p_idx (Int32Pool A)) (p_storage (Int32Pool A)), A)"
    by (rule round_lift [where put = "\<lambda>p A. A\<lparr>Int32Pool := p\<rparr>"])
      (use ok assms(4) in \<open>auto simp: ArgPool_NextInt32_def\<close>)
  show "draws (length (p_storage (Int64Pool A))) ArgPool_NextInt64 A =
      Inr (rotate (p_idx (Int64Pool A)) (p_storage (Int64Pool A)), A)"
    by (rule round_lift [where put = "\<lambda>p A. A\<lparr>Int64Pool := p\<rparr>"])
      (use ok assms(5) in \<open>auto simp: ArgPool_NextInt64_def\<close>)
  show "draws (length (p_storage (Bytes32Pool A))) ArgPool_NextBytes32 A =
      Inr (rotate (p_idx (Bytes32Pool A)) (p_storage (Bytes32Pool A)), A)"
    by (rule round_lift [where put = "\<lambda>p A. A\<lparr>Bytes32Pool := p\<rparr>"])
      (use ok assms(6) in \<open>auto simp: ArgPool_NextBytes32_def\<close>)
  show "draws (length (p_storage (StringPool A))) ArgPool_NextString A =
      Inr (rotate (p_idx (StringPool A)) (p_storage (StringPool A)), A)"
    by (rule round_lift [where put = "\<lambda>p A. A\<lparr>StringPool := p\<rparr>"])
      (use ok assms(7) in \<open>auto simp: ArgPool_NextString_def\<close>)
qed

definition round_example :: argst where
  "round_example =
     ArgPool_AddString ''b'' (ArgPool_AddString ''a'' (ArgPool_AddBytes32 (replicate 32 1)
       (ArgPool_AddInt64 4 (ArgPool_AddInt32 3 (ArgPool_AddInt16 2 (ArgPool_AddInt8 1 argpool_start))))))"

theorem typed_readers_full_round_witness:
  "draws 2 ArgPool_NextString round_example = Inr ([''a'', ''b''], round_example)"
proof -
  have inv: "arg_inv (\<lambda>_. []) round_example"
    unfolding round_example_def by (intro inv_intros arg_inv_start)
  have ne: "p_storage (Int8Pool round_example) = [1]" "p_storage (Int16Pool round_example) = [2]"
    "p_storage (Int32Pool round_example) = [3]" "p_storage (Int64Pool round_example) = [4]"
    "p_storage (Bytes32Pool round_example) = [replicate 32 1]"
    "StringPool round_example = \<lparr>p_idx = 0, p_storage = [''a'', ''b''], p_storageMap = {''b'', ''a''}\<rparr>"
    by (simp_all add: round_example_def ArgPool_AddInt8_def ArgPool_AddInt16_def ArgPool_AddInt32_def
        ArgPool_AddInt64_def ArgPool_AddBytes32_def ArgPool_AddString_def ring_defs argpool_start_eq)
  from typed_readers_full_round [OF inv] show ?thesis by (simp add: ne numeral_2_eq_2)
qed

text \<open>
  Whatever timestamps are added, in whatever order and however often, the timestamp pool of a
  fresh argument pool is the ascending list of the distinct timestamps (below \<open>2 ^ 63\<close>).
\<close>

lemma timestamps_sorted:
  assumes "\<forall>t \<in> set xs. uint t < 2 ^ 63"
  shows "p_storage (TimestampPool (fold ArgPool_AddTimestamp xs argpool_start)) =
    map uint (sorted_list_of_set (set xs))"
proof -
  let ?p = "fold (offer timestamppool_Contains ts_insert) xs GetTimestampPool"
  have fresh: "ts_inv GetTimestampPool" "ts_items GetTimestampPool = []"
    using ts_ok_new by (auto simp: ts_ok_def ts_items_def GetTimestampPool_def)
  have items: "ts_items ?p = sorted_list_of_set (set xs)"
    using ts_offers_sorted [of GetTimestampPool xs] fresh assms by simp
  have "p_storage ?p = map sint (ts_items ?p)"
    by (rule ts_storage_items [OF ts.inv_offers [OF fresh(1)]])
  also have "\<dots> = map uint (ts_items ?p)"
    using assms items by (auto intro!: sint_small)
  finally show ?thesis using items by (simp add: TimestampPool_adds argpool_start_eq)
qed

text \<open>
  The block timestamps are visited in a circle, the next one on every call, and the request to
  revert the state accompanies exactly those calls that reach the last timestamp of the pool: once
  per round.
\<close>

lemma timestamp_rounds:
  assumes "arg_inv fa A" and "p_storage (TimestampPool A) \<noteq> []"
  shows "draws n (ArgPool_NextTimestamp now) A =
    (let p = TimestampPool A; L = length (p_storage p)
     in Inr (map (\<lambda>i. let j = (p_idx p + 1 + i) mod L in (Some (p_storage p ! j), j + 1 = L)) [0..<n],
             A\<lparr>TimestampPool := p\<lparr>p_idx := (p_idx p + n) mod L\<rparr>\<rparr>))"
  using assms draws_NextTimestamp [of A n now]
  by (simp add: arg_inv_def ts_ok_def ts_inv_def split: if_splits)

text \<open>
  Adding integers to a pool keeps the first occurrence of each, in order, and none that the pool
  already had: the pool after any sequence of \<^verbatim>\<open>AddInt64\<close> is the old content followed by the
  new values in the order of their first addition.
\<close>

lemma adds_keep_first_occurrences:
  assumes "arg_inv fa A"
  shows "p_storage (Int64Pool (fold ArgPool_AddInt64 xs A)) =
    p_storage (Int64Pool A) @ rev (remdups (rev (filter (\<lambda>x. x \<notin> set (p_storage (Int64Pool A))) xs)))"
  using assms ring_offers_storage [of "Int64Pool A" xs]
  by (simp add: Int64Pool_adds arg_inv_def typed_ok_def)

text \<open>The names of the shared pools stay those of \<^verbatim>\<open>GetArgPool\<close>.\<close>

lemma bigint_frame:
  assumes "ArgPool_AddBigInt fa n A = Inr B"
  shows "AddressPool B = AddressPool A \<and> BigIntPool B = BigIntPool A"
  using assms by (auto simp: ArgPool_AddBigInt_def set_pool_def Let_def elim!: bindR_InrE split: if_splits)

lemma address_frame:
  assumes "ArgPool_AddAddress fa a A = Inr B"
  shows "AddressPool B = AddressPool A \<and> BigIntPool B = BigIntPool A"
  using assms by (auto simp: ArgPool_AddAddress_def set_pool_def Let_def elim!: bindR_InrE split: if_splits)

lemma readers_frame:
  "ArgPool_NextInt8 A = Inr (i8, B) \<Longrightarrow> AddressPool B = AddressPool A \<and> BigIntPool B = BigIntPool A"
  "ArgPool_NextInt16 A = Inr (i16, B) \<Longrightarrow> AddressPool B = AddressPool A \<and> BigIntPool B = BigIntPool A"
  "ArgPool_NextInt32 A = Inr (i32, B) \<Longrightarrow> AddressPool B = AddressPool A \<and> BigIntPool B = BigIntPool A"
  "ArgPool_NextInt64 A = Inr (i64, B) \<Longrightarrow> AddressPool B = AddressPool A \<and> BigIntPool B = BigIntPool A"
  "ArgPool_NextBytes32 A = Inr (b, B) \<Longrightarrow> AddressPool B = AddressPool A \<and> BigIntPool B = BigIntPool A"
  "ArgPool_NextString A = Inr (s, B) \<Longrightarrow> AddressPool B = AddressPool A \<and> BigIntPool B = BigIntPool A"
  "ArgPool_NextTimestamp now A = Inr (r, B) \<Longrightarrow> AddressPool B = AddressPool A \<and> BigIntPool B = BigIntPool A"
  "ArgPool_NextAddress A = Inr (a, B) \<Longrightarrow> AddressPool B = AddressPool A \<and> BigIntPool B = BigIntPool A"
  "ArgPool_NextBigInt A = Inr (n, B) \<Longrightarrow> AddressPool B = AddressPool A \<and> BigIntPool B = BigIntPool A"
  by (auto simp: ArgPool_NextInt8_def ArgPool_NextInt16_def ArgPool_NextInt32_def ArgPool_NextInt64_def
      ArgPool_NextBytes32_def ArgPool_NextString_def ArgPool_NextTimestamp_def ArgPool_NextAddress_def ArgPool_NextBigInt_def
      set_pool_def elim!: bindR_InrE split: if_splits option.split_asm iface.split_asm)

lemma argpool_reach_names:
  "argpool_reach fa A \<Longrightarrow> AddressPool A = ''Address'' \<and> BigIntPool A = ''BigInt''"
proof (induction rule: argpool_reach.induct)
  case start
  then show ?case by (simp add: argpool_start_eq)
next
  case (step A B)
  have "AddressPool B = AddressPool A \<and> BigIntPool B = BigIntPool A"
    using step(2) by cases (auto simp: add_offer dest: address_frame bigint_frame readers_frame)
  with step show ?case by simp
qed

lemma attach_simps [simp]:
  "Int8Pool (attach (A, g) h) = Int8Pool A" "Int16Pool (attach (A, g) h) = Int16Pool A"
  "Int32Pool (attach (A, g) h) = Int32Pool A" "Int64Pool (attach (A, g) h) = Int64Pool A"
  "Bytes32Pool (attach (A, g) h) = Bytes32Pool A" "StringPool (attach (A, g) h) = StringPool A"
  "TimestampPool (attach (A, g) h) = TimestampPool A" "AddressPool (attach (A, g) h) = AddressPool A"
  "BigIntPool (attach (A, g) h) = BigIntPool A" "pools (attach (A, g) h) = pkg_pools g" "bigs (attach (A, g) h) = h"
  by (simp_all add: attach_def ArgPool.extend_def argst.fields_def)

text \<open>
  C39: \<^verbatim>\<open>ResetArgPool\<close> resets only half of the argument pool. Whatever the program did with the pool before
  (any reachable state), the pool the next \<^verbatim>\<open>GetArgPool\<close> builds has nothing in its typed pools and no
  timestamp, while every address and every big integer of before is still in it, with the readers where they
  were: these two pools live on in the package map \<^verbatim>\<open>pools\<close>. The new pool satisfies the invariant, and
  further calls return it.
\<close>

theorem reset_keeps_shared_pools:
  assumes "GetArgPool g = (A, g1)" and "argpool_reach fa (attach (A, g1) h)"
  shows "\<exists>B g2. GetArgPool (ResetArgPool g1) = (B, g2) \<and> GetArgPool g2 = (B, g2) \<and>
    contents (attach (B, g2) h) =
      \<lparr>c_int8 = [], c_int16 = [], c_int32 = [], c_int64 = [], c_bytes32 = [],
       c_address = addresses (attach (A, g1) h), c_bigInt = bigptrs (attach (A, g1) h),
       c_string = [], c_timestamp = [], c_bigs = h\<rparr> \<and>
    pkg_pools g2 = pkg_pools g1 \<and> arg_inv fa (attach (B, g2) h)"
proof -
  have inv: "arg_inv fa (attach (A, g1) h)" using assms(2) by (rule argpool_reach_inv)
  have names: "AddressPool A = ''Address''" "BigIntPool A = ''BigInt''" using argpool_reach_names [OF assms(2)] by simp_all
  obtain p q where p: "pkg_pools g1 ''Address'' = Some p" "pkg_pools g1 ''BigInt'' = Some q"
    using inv names by (auto simp: arg_inv_def)
  define B where "B = \<lparr>Int8Pool = GetInt8Pool, Int16Pool = GetInt16Pool, Int32Pool = GetInt32Pool,
    Int64Pool = GetInt64Pool, Bytes32Pool = GetBytes32Pool, AddressPool = ''Address'', BigIntPool = ''BigInt'',
    StringPool = GetStringPool, TimestampPool = GetTimestampPool\<rparr>"
  define g2 where "g2 = \<lparr>pkg_argPool = Some B, pkg_pools = pkg_pools g1\<rparr>"
  have "GetArgPool (ResetArgPool g1) = (B, g2)"
    using p by (simp add: GetArgPool_def ResetArgPool_def GetPool_def B_def g2_def Let_def)
  moreover have "GetArgPool g2 = (B, g2)" by (simp add: GetArgPool_def g2_def)
  moreover have "contents (attach (B, g2) h) =
      \<lparr>c_int8 = [], c_int16 = [], c_int32 = [], c_int64 = [], c_bytes32 = [],
       c_address = addresses (attach (A, g1) h), c_bigInt = bigptrs (attach (A, g1) h),
       c_string = [], c_timestamp = [], c_bigs = h\<rparr>"
    by (simp add: contents_def addresses_def bigptrs_def names B_def g2_def ring_new_def GetTimestampPool_def)
  moreover have "arg_inv fa (attach (B, g2) h)"
    using inv names by (simp add: arg_inv_def B_def g2_def typed_ok_new ts_ok_new)
  ultimately show ?thesis by (intro exI [of _ B] exI [of _ g2]) (simp add: g2_def)
qed

text \<open>A pool with an integer, a string, an address and a big integer.\<close>

definition reset_example :: argst where
  "reset_example = (ArgPool_AddString ''a'' (ArgPool_AddInt8 1 argpool_start))
     \<lparr>bigs := [5],
      pools := [''Address'' \<mapsto> \<lparr>p_idx = 0, p_storage = [IAddress 7], p_storageMap = {''7''}\<rparr>,
                ''BigInt'' \<mapsto> \<lparr>p_idx = 0, p_storage = [IBigInt 1], p_storageMap = {big_sprint [5] 1}\<rparr>]\<rparr>"

lemma reset_example_eq:
  "reset_example =
     \<lparr>Int8Pool = \<lparr>p_idx = 0, p_storage = [1], p_storageMap = {1}\<rparr>, Int16Pool = ring_new, Int32Pool = ring_new,
      Int64Pool = ring_new, Bytes32Pool = ring_new, AddressPool = ''Address'', BigIntPool = ''BigInt'',
      StringPool = \<lparr>p_idx = 0, p_storage = [''a''], p_storageMap = {''a''}\<rparr>, TimestampPool = GetTimestampPool,
      pools = [''Address'' \<mapsto> \<lparr>p_idx = 0, p_storage = [IAddress 7], p_storageMap = {''7''}\<rparr>,
               ''BigInt'' \<mapsto> \<lparr>p_idx = 0, p_storage = [IBigInt 1], p_storageMap = {big_sprint [5] 1}\<rparr>], bigs = [5]\<rparr>"
  by (simp add: reset_example_def ArgPool_AddString_def ArgPool_AddInt8_def ring_defs argpool_start_eq)

lemma reset_example_reach: "argpool_reach (\<lambda>_. ''7'') reset_example"
proof -
  let ?fa = "\<lambda>_ :: address. ''7''"
  let ?A = "ArgPool_AddString ''a'' (ArgPool_AddInt8 1 argpool_start)"
  have A: "argpool_reach ?fa (?A\<lparr>bigs := [5]\<rparr>)"
    by (rule argpool_reach.step [OF argpool_reach.step [OF argpool_reach.step [OF argpool_reach.start
        argpool_step.add_int8] argpool_step.add_string] argpool_step.write_bigs])
  let ?B = "?A\<lparr>bigs := [5], pools := [''Address'' \<mapsto> \<lparr>p_idx = 0, p_storage = [IAddress 7], p_storageMap = {''7''}\<rparr>,
    ''BigInt'' \<mapsto> ring_new]\<rparr>"
  have start: "pools ?A = [''Address'' \<mapsto> ring_new, ''BigInt'' \<mapsto> ring_new]" "AddressPool ?A = ''Address''" "BigIntPool ?A = ''BigInt''"
    by (simp_all add: add_offer argpool_start_eq)
  have "ArgPool_AddAddress ?fa 7 (?A\<lparr>bigs := [5]\<rparr>) = Inr ?B"
    using start by (simp add: ArgPool_AddAddress_def pool_at_def ring_defs set_pool_def fun_upd_twist)
  then have B: "argpool_reach ?fa ?B" by (rule argpool_reach.step [OF A argpool_step.add_address])
  have "ArgPool_AddBigInt ?fa 1 ?B = Inr reset_example"
    using start by (simp add: ArgPool_AddBigInt_def pool_at_def ring_defs set_pool_def reset_example_def)
  then show ?thesis by (rule argpool_reach.step [OF B argpool_step.add_bigInt])
qed

theorem reset_keeps_shared_pools_witness:
  "\<exists>g A g1 B g2. GetArgPool g = (A, g1) \<and> attach (A, g1) [5] = reset_example \<and>
     GetArgPool (ResetArgPool g1) = (B, g2) \<and> p_storage (Int8Pool B) = [] \<and> p_storage (StringPool B) = [] \<and>
     addresses (attach (B, g2) [5]) = [7] \<and> bigptrs (attach (B, g2) [5]) = [1]"
proof -
  let ?g = "\<lparr>pkg_argPool = Some (ArgPool.truncate reset_example), pkg_pools = pools reset_example\<rparr>"
  have get: "GetArgPool ?g = (ArgPool.truncate reset_example, ?g)" by (simp add: GetArgPool_def)
  have same: "attach (ArgPool.truncate reset_example, ?g) [5] = reset_example"
    by (simp add: attach_def ArgPool.extend_def argst.fields_def ArgPool.truncate_def reset_example_eq)
  have vals: "addresses reset_example = [7]" "bigptrs reset_example = [1]"
    by (simp_all add: addresses_def bigptrs_def reset_example_eq)
  have reach: "argpool_reach (\<lambda>_. ''7'') (attach (ArgPool.truncate reset_example, ?g) [5])"
    unfolding same by (rule reset_example_reach)
  from reset_keeps_shared_pools [OF get reach] obtain B g2 where B: "GetArgPool (ResetArgPool ?g) = (B, g2)"
    "contents (attach (B, g2) [5]) = \<lparr>c_int8 = [], c_int16 = [], c_int32 = [], c_int64 = [], c_bytes32 = [],
       c_address = [7], c_bigInt = [1], c_string = [], c_timestamp = [], c_bigs = [5]\<rparr>"
    unfolding same vals by blast
  then show ?thesis using get same
    by (intro exI [of _ ?g] exI [of _ "ArgPool.truncate reset_example"] exI [of _ ?g] exI [of _ B] exI [of _ g2])
      (simp add: contents_def)
qed

end
