(* ===== verification/Args.thy ===== *)
theory Args
  imports ArgPoolSafety "HOL-Library.While_Combinator"
begin

text \<open>
  \<^verbatim>\<open>utils/types.go\<close> and \<^verbatim>\<open>utils/args.go\<close>: the Go types of Solidity arguments, the
  construction of an argument from the pools by recursion on its type, the feedback of returned
  values into the pools by recursion on the value, and the initial content of the pools.
\<close>

section \<open>Types and values\<close>

text \<open>
  The reflected Go types. Array types are structural in Go, so \<^verbatim>\<open>Bytes32Type\<close> is the array of
  32 \<^verbatim>\<open>uint8\<close>; \<^verbatim>\<open>common.Address\<close> is a named type and differs from every array type.
\<close>

datatype gtype =
    Int8Type | UInt8Type | Int16Type | UInt16Type | Int32Type | UInt32Type | Int64Type | UInt64Type
  | AddressType | BigIntType | BoolType | StringType
  | ArrayType nat gtype | SliceType gtype | OtherType string

definition Bytes32Type :: gtype where
  "Bytes32Type = ArrayType 32 UInt8Type"

text \<open>Reflected values; arrays and slices carry their element type.\<close>

datatype gval =
    VInt8 "8 word" | VUInt8 "8 word" | VInt16 "16 word" | VUInt16 "16 word"
  | VInt32 "32 word" | VUInt32 "32 word" | VInt64 "64 word" | VUInt64 "64 word"
  | VAddress address | VBigInt bigptr | VBool bool | VString string
  | VArray gtype "gval list" | VSlice gtype "gval list" | VOther string

fun typeOf :: "gval \<Rightarrow> gtype" where
  "typeOf (VInt8 _) = Int8Type" | "typeOf (VUInt8 _) = UInt8Type"
| "typeOf (VInt16 _) = Int16Type" | "typeOf (VUInt16 _) = UInt16Type"
| "typeOf (VInt32 _) = Int32Type" | "typeOf (VUInt32 _) = UInt32Type"
| "typeOf (VInt64 _) = Int64Type" | "typeOf (VUInt64 _) = UInt64Type"
| "typeOf (VAddress _) = AddressType" | "typeOf (VBigInt _) = BigIntType"
| "typeOf (VBool _) = BoolType" | "typeOf (VString _) = StringType"
| "typeOf (VArray T vs) = ArrayType (length vs) T" | "typeOf (VSlice T vs) = SliceType T"
| "typeOf (VOther n) = OtherType n"

text \<open>A value whose elements have the element type.\<close>

fun wf_val :: "gval \<Rightarrow> bool" where
  "wf_val (VArray T vs) \<longleftrightarrow> (\<forall>v \<in> set vs. typeOf v = T \<and> wf_val v)"
| "wf_val (VSlice T vs) \<longleftrightarrow> (\<forall>v \<in> set vs. typeOf v = T \<and> wf_val v)"
| "wf_val _ \<longleftrightarrow> True"

text \<open>A \<^verbatim>\<open>[32]byte\<close> as a value and back.\<close>

definition bytes32_val :: "bytes32 \<Rightarrow> gval" where
  "bytes32_val b = VArray UInt8Type (map VUInt8 b)"

fun val_byte :: "gval \<Rightarrow> 8 word" where
  "val_byte (VUInt8 b) = b"
| "val_byte _ = 0"

section \<open>fillRecursively\<close>

text \<open>The state: the argument pool, what it points to, and the random source.\<close>

record genst = argst +
  rnd :: rng

definition draw_Int :: "'z genst_scheme \<Rightarrow> nat \<times> 'z genst_scheme" where
  "draw_Int st = (let (x, r) = rand_Int (rnd st) in (x, st\<lparr>rnd := r\<rparr>))"

definition ret_val :: "('a \<Rightarrow> gval) \<Rightarrow> ('a \<times> 's) res \<Rightarrow> (gval \<times> 's) res" where
  "ret_val f m = bindR m (\<lambda>(x, st). Inr (f x, st))"

text \<open>
  The boolean case draws a random number, and when it is even evaluates
  \<^verbatim>\<open>reflect.ValueOf(true)\<close> without returning it: the result is \<^verbatim>\<open>false\<close> either way. The
  conversions between the signed and the unsigned type of a width keep the bits.
\<close>

fun fillRecursively :: "gtype \<Rightarrow> 'z genst_scheme \<Rightarrow> (gval \<times> 'z genst_scheme) res" where
  "fillRecursively Int8Type st = ret_val VInt8 (ArgPool_NextInt8 st)"
| "fillRecursively UInt8Type st = ret_val VUInt8 (ArgPool_NextInt8 st)"
| "fillRecursively Int16Type st = ret_val VInt16 (ArgPool_NextInt16 st)"
| "fillRecursively UInt16Type st = ret_val VUInt16 (ArgPool_NextInt16 st)"
| "fillRecursively Int32Type st = ret_val VInt32 (ArgPool_NextInt32 st)"
| "fillRecursively UInt32Type st = ret_val VUInt32 (ArgPool_NextInt32 st)"
| "fillRecursively Int64Type st = ret_val VInt64 (ArgPool_NextInt64 st)"
| "fillRecursively UInt64Type st = ret_val VUInt64 (ArgPool_NextInt64 st)"
| "fillRecursively AddressType st = ret_val VAddress (ArgPool_NextAddress st)"
| "fillRecursively StringType st = ret_val VString (ArgPool_NextString st)"
| "fillRecursively BoolType st =
     (let (x, st') = draw_Int st in
      if x mod 2 = 0 then (let _ = VBool True in Inr (VBool False, st')) else Inr (VBool False, st'))"
| "fillRecursively BigIntType st = ret_val VBigInt (ArgPool_NextBigInt st)"
| "fillRecursively (ArrayType n T) st =
     (if ArrayType n T = Bytes32Type then ret_val bytes32_val (ArgPool_NextBytes32 st)
      else ret_val (VArray T) (repeatR n (fillRecursively T) st))"
| "fillRecursively (SliceType T) st =
     (let (x, st') = draw_Int st; len = x mod 16 + 1 in
      ret_val (VSlice T) (repeatR len (fillRecursively T) st'))"
| "fillRecursively (OtherType n) st = Inl (Panic ''type was not recognized'')"

section \<open>updateRecursively\<close>

text \<open>
  The type switch, then the loop over arrays and slices. Values of other types are ignored. The
  parameter \<open>fa\<close> prints addresses.
\<close>

fun updateRecursively ::
  "(address \<Rightarrow> string) \<Rightarrow> gval \<Rightarrow> 'z argst_scheme \<Rightarrow> 'z argst_scheme res" where
  "updateRecursively fa (VInt8 _) st = Inr st"
| "updateRecursively fa (VUInt8 _) st = Inr st"
| "updateRecursively fa (VBool _) st = Inr st"
| "updateRecursively fa (VInt16 x) st = Inr (ArgPool_AddInt16 x st)"
| "updateRecursively fa (VUInt16 x) st = Inr (ArgPool_AddInt16 x st)"
| "updateRecursively fa (VInt32 x) st = Inr (ArgPool_AddInt32 x st)"
| "updateRecursively fa (VUInt32 x) st = Inr (ArgPool_AddInt32 x st)"
| "updateRecursively fa (VInt64 x) st = Inr (ArgPool_AddInt64 x st)"
| "updateRecursively fa (VUInt64 x) st = Inr (ArgPool_AddInt64 x st)"
| "updateRecursively fa (VBigInt p) st = ArgPool_AddBigInt fa p st"
| "updateRecursively fa (VAddress a) st = ArgPool_AddAddress fa a st"
| "updateRecursively fa (VString s) st = Inr (ArgPool_AddString s st)"
| "updateRecursively fa (VArray T vs) st =
     (if typeOf (VArray T vs) = Bytes32Type
      then Inr (ArgPool_AddBytes32 (map val_byte vs) st)
      else foldR (updateRecursively fa) vs st)"
| "updateRecursively fa (VSlice T vs) st = foldR (updateRecursively fa) vs st"
| "updateRecursively fa (VOther _) st = Inr st"

section \<open>ConstructArgs, UpdatePool\<close>

text \<open>An \<^verbatim>\<open>abi.Argument\<close> enters through its Go type.\<close>

fun ConstructArgs :: "gtype list \<Rightarrow> 'z genst_scheme \<Rightarrow> (gval list \<times> 'z genst_scheme) res" where
  "ConstructArgs [] st = Inr ([], st)"
| "ConstructArgs (T # Ts) st =
     bindR (fillRecursively T st) (\<lambda>(v, st').
     bindR (ConstructArgs Ts st') (\<lambda>(vs, st''). Inr (v # vs, st'')))"

text \<open>
  \<^verbatim>\<open>UnpackValues\<close> is go-ethereum's: the parameter \<open>unpack\<close> decodes the output into values,
  placing the big integers it makes, and may report an error, which is logged; the values it
  returned along with the error are still used.
\<close>

definition UpdatePool ::
  "(address \<Rightarrow> string) \<Rightarrow> (bytes \<Rightarrow> bigs \<Rightarrow> (gval list \<times> string option) \<times> bigs) \<Rightarrow> bytes \<Rightarrow>
   'z argst_scheme \<Rightarrow> 'z argst_scheme res" where
  "UpdatePool fa unpack output st =
     (let ((values, err), h) = unpack output (bigs st) in
      foldR (updateRecursively fa) values (st\<lparr>bigs := h\<rparr>))"

section \<open>What fillRecursively returns\<close>

text \<open>The elements of a \<^verbatim>\<open>[32]byte\<close> pool have 32 bytes, as their Go type says.\<close>

definition b32_ok :: "'z ArgPool_scheme \<Rightarrow> bool" where
  "b32_ok A \<longleftrightarrow> (\<forall>b \<in> set (p_storage (Bytes32Pool A)). length b = 32)"

text \<open>The booleans in a value.\<close>

fun bools :: "gval \<Rightarrow> bool list" where
  "bools (VBool b) = [b]"
| "bools (VArray T vs) = concat (map bools vs)"
| "bools (VSlice T vs) = concat (map bools vs)"
| "bools _ = []"

text \<open>The types for which no panic is raised (an array of length 0 never looks at its elements).\<close>

fun fillable :: "gtype \<Rightarrow> bool" where
  "fillable (OtherType n) \<longleftrightarrow> False"
| "fillable (ArrayType n T) \<longleftrightarrow> n = 0 \<or> fillable T"
| "fillable (SliceType T) \<longleftrightarrow> fillable T"
| "fillable _ \<longleftrightarrow> True"

definition fill_inv :: "(address \<Rightarrow> string) \<Rightarrow> contents \<Rightarrow> 'z genst_scheme \<Rightarrow> bool" where
  "fill_inv fa c st \<longleftrightarrow> arg_inv fa st \<and> contents st = c"

definition fill_result :: "contents \<Rightarrow> gtype \<Rightarrow> gval \<Rightarrow> bool" where
  "fill_result c T v \<longleftrightarrow> True \<notin> set (bools v) \<and>
     ((\<forall>b \<in> set (c_bytes32 c). length b = 32) \<longrightarrow> typeOf v = T \<and> wf_val v)"

lemma ret_val_Inr:
  "ret_val f m = Inr (v, st) \<longleftrightarrow> (\<exists>x. m = Inr (x, st) \<and> v = f x)"
  by (auto simp: ret_val_def bindR_eq_Inr split: prod.splits)

lemma contents_rnd [simp]: "contents (st\<lparr>rnd := r\<rparr>) = contents st"
  by (simp add: contents_def addresses_def bigptrs_def)

lemma arg_inv_rnd [simp]: "arg_inv fa (st\<lparr>rnd := r\<rparr>) = arg_inv fa st"
  by (simp add: arg_inv_def)

lemma NextBytes32_elem:
  assumes "ArgPool_NextBytes32 A = Inr (b, A')" and "\<forall>b \<in> set (p_storage (Bytes32Pool A)). length b = 32"
  shows "length b = 32"
proof -
  have "ring_Next (replicate 32 0) (\<lambda>x. x) (Bytes32Pool A) = Inr (b, q) \<Longrightarrow> length b = 32" for q
    using assms(2) by (auto simp: ring_Next_def split: if_splits)
  then show ?thesis using assms(1) by (auto simp: ArgPool_NextBytes32_def elim!: bindR_InrE)
qed

text \<open>A reader that keeps the invariant and the content, as every reader of the pool does.\<close>

lemma fill_scalar:
  assumes "\<exists>x A'. m = Inr (x, A') \<and> arg_inv fa A' \<and> contents A' = contents st"
    and "fill_inv fa c st" and "\<And>x. fill_result c T (f x)"
  shows "\<exists>v st'. ret_val f m = Inr (v, st') \<and> fill_inv fa c st' \<and> fill_result c T v"
  using assms by (auto simp: ret_val_def fill_inv_def)

lemma fill_result_list:
  assumes "\<forall>v \<in> set vs. fill_result c T v"
  shows "fill_result c (ArrayType (length vs) T) (VArray T vs)" "fill_result c (SliceType T) (VSlice T vs)"
  using assms by (auto simp: fill_result_def)

lemma fill_scalars:
  assumes "fill_inv fa c st"
  shows "\<exists>v st'. fillRecursively Int8Type st = Inr (v, st') \<and> fill_inv fa c st' \<and> fill_result c Int8Type v"
    and "\<exists>v st'. fillRecursively UInt8Type st = Inr (v, st') \<and> fill_inv fa c st' \<and> fill_result c UInt8Type v"
    and "\<exists>v st'. fillRecursively Int16Type st = Inr (v, st') \<and> fill_inv fa c st' \<and> fill_result c Int16Type v"
    and "\<exists>v st'. fillRecursively UInt16Type st = Inr (v, st') \<and> fill_inv fa c st' \<and> fill_result c UInt16Type v"
    and "\<exists>v st'. fillRecursively Int32Type st = Inr (v, st') \<and> fill_inv fa c st' \<and> fill_result c Int32Type v"
    and "\<exists>v st'. fillRecursively UInt32Type st = Inr (v, st') \<and> fill_inv fa c st' \<and> fill_result c UInt32Type v"
    and "\<exists>v st'. fillRecursively Int64Type st = Inr (v, st') \<and> fill_inv fa c st' \<and> fill_result c Int64Type v"
    and "\<exists>v st'. fillRecursively UInt64Type st = Inr (v, st') \<and> fill_inv fa c st' \<and> fill_result c UInt64Type v"
    and "\<exists>v st'. fillRecursively StringType st = Inr (v, st') \<and> fill_inv fa c st' \<and> fill_result c StringType v"
proof -
  have inv: "arg_inv fa st" using assms by (simp add: fill_inv_def)
  note nx = arg_inv_next_typed [OF inv]
  show "\<exists>v st'. fillRecursively Int8Type st = Inr (v, st') \<and> fill_inv fa c st' \<and> fill_result c Int8Type v"
    unfolding fillRecursively.simps by (rule fill_scalar [OF nx(1) assms]) (simp add: fill_result_def)
  show "\<exists>v st'. fillRecursively UInt8Type st = Inr (v, st') \<and> fill_inv fa c st' \<and> fill_result c UInt8Type v"
    unfolding fillRecursively.simps by (rule fill_scalar [OF nx(1) assms]) (simp add: fill_result_def)
  show "\<exists>v st'. fillRecursively Int16Type st = Inr (v, st') \<and> fill_inv fa c st' \<and> fill_result c Int16Type v"
    unfolding fillRecursively.simps by (rule fill_scalar [OF nx(2) assms]) (simp add: fill_result_def)
  show "\<exists>v st'. fillRecursively UInt16Type st = Inr (v, st') \<and> fill_inv fa c st' \<and> fill_result c UInt16Type v"
    unfolding fillRecursively.simps by (rule fill_scalar [OF nx(2) assms]) (simp add: fill_result_def)
  show "\<exists>v st'. fillRecursively Int32Type st = Inr (v, st') \<and> fill_inv fa c st' \<and> fill_result c Int32Type v"
    unfolding fillRecursively.simps by (rule fill_scalar [OF nx(3) assms]) (simp add: fill_result_def)
  show "\<exists>v st'. fillRecursively UInt32Type st = Inr (v, st') \<and> fill_inv fa c st' \<and> fill_result c UInt32Type v"
    unfolding fillRecursively.simps by (rule fill_scalar [OF nx(3) assms]) (simp add: fill_result_def)
  show "\<exists>v st'. fillRecursively Int64Type st = Inr (v, st') \<and> fill_inv fa c st' \<and> fill_result c Int64Type v"
    unfolding fillRecursively.simps by (rule fill_scalar [OF nx(4) assms]) (simp add: fill_result_def)
  show "\<exists>v st'. fillRecursively UInt64Type st = Inr (v, st') \<and> fill_inv fa c st' \<and> fill_result c UInt64Type v"
    unfolding fillRecursively.simps by (rule fill_scalar [OF nx(4) assms]) (simp add: fill_result_def)
  show "\<exists>v st'. fillRecursively StringType st = Inr (v, st') \<and> fill_inv fa c st' \<and> fill_result c StringType v"
    unfolding fillRecursively.simps by (rule fill_scalar [OF nx(6) assms]) (simp add: fill_result_def)
qed

lemma fill_bytes32:
  assumes "fill_inv fa c st"
  shows "\<exists>v st'. ret_val bytes32_val (ArgPool_NextBytes32 st) = Inr (v, st') \<and> fill_inv fa c st' \<and>
    fill_result c Bytes32Type v"
proof -
  have inv: "arg_inv fa st" and c: "contents st = c" using assms by (auto simp: fill_inv_def)
  obtain b st' where n: "ArgPool_NextBytes32 st = Inr (b, st')" and st': "fill_inv fa c st'"
    using arg_inv_next_typed(5) [OF inv] c by (auto simp: fill_inv_def)
  have "fill_result c Bytes32Type (bytes32_val b)"
    using NextBytes32_elem [OF n] c
    by (auto simp: fill_result_def bytes32_val_def Bytes32Type_def contents_def)
  with n st' show ?thesis by (simp add: ret_val_def)
qed

lemma fill_bool:
  assumes "fill_inv fa c st"
  shows "\<exists>v st'. fillRecursively BoolType st = Inr (v, st') \<and> fill_inv fa c st' \<and> fill_result c BoolType v"
  using assms by (auto simp: draw_Int_def fill_inv_def fill_result_def split: prod.splits)

lemma fill_shared:
  assumes "fill_inv fa c st"
  shows "fillRecursively AddressType st = Inr (v, st') \<Longrightarrow> fill_inv fa c st' \<and> fill_result c AddressType v"
    and "fillRecursively BigIntType st = Inr (v, st') \<Longrightarrow> fill_inv fa c st' \<and> fill_result c BigIntType v"
proof -
  have inv: "arg_inv fa st" and c: "contents st = c" using assms by (auto simp: fill_inv_def)
  show "fillRecursively AddressType st = Inr (v, st') \<Longrightarrow> fill_inv fa c st' \<and> fill_result c AddressType v"
    using ArgPool_NextAddress_cases [OF inv] c
    by (auto simp: ret_val_Inr fill_inv_def fill_result_def split: if_splits)
  show "fillRecursively BigIntType st = Inr (v, st') \<Longrightarrow> fill_inv fa c st' \<and> fill_result c BigIntType v"
    using ArgPool_NextBigInt_cases [OF inv] c
    by (auto simp: ret_val_Inr fill_inv_def fill_result_def split: if_splits)
qed

lemma fill_list:
  fixes st :: "'z genst_scheme"
  assumes "repeatR n (fillRecursively T) st = Inr (vs, st')" and "fill_inv fa c st"
    and "\<And>(st :: 'z genst_scheme) v st'. fill_inv fa c st \<Longrightarrow> fillRecursively T st = Inr (v, st') \<Longrightarrow>
      fill_inv fa c st' \<and> fill_result c T v"
  shows "fill_inv fa c st' \<and> length vs = n \<and> (\<forall>v \<in> set vs. fill_result c T v)"
  by (rule repeatR_invariant [where P = "fill_inv fa c", OF assms(1,2)]) (rule assms(3))

lemma exists_eq_Inr: "\<exists>v st'. m = Inr (v, st') \<and> P v st' \<Longrightarrow> m = Inr (v, st') \<Longrightarrow> P v st'"
  by auto

lemmas fill_scalars_sound = fill_scalars [THEN exists_eq_Inr]

text \<open>Every value built has its type, and building it changes no content.\<close>

lemma fill_sound:
  "fill_inv fa c st \<Longrightarrow> fillRecursively T st = Inr (v, st') \<Longrightarrow> fill_inv fa c st' \<and> fill_result c T v"
proof (induction T arbitrary: st v st')
  case (ArrayType n T)
  show ?case
  proof (cases "ArrayType n T = Bytes32Type")
    case True
    then have "fillRecursively (ArrayType n T) st = ret_val bytes32_val (ArgPool_NextBytes32 st)"
      by (subst fillRecursively.simps(13)) simp
    with ArrayType.prems(2) have "ret_val bytes32_val (ArgPool_NextBytes32 st) = Inr (v, st')" by simp
    from exists_eq_Inr [OF fill_bytes32 [OF ArrayType.prems(1)] this] True show ?thesis by simp
  next
    case False
    with ArrayType.prems(2) obtain vs where "repeatR n (fillRecursively T) st = Inr (vs, st')" "v = VArray T vs"
      by (auto simp: ret_val_Inr)
    with fill_list [OF this(1) ArrayType.prems(1) ArrayType.IH] show ?thesis
      using fill_result_list(1) [of vs c T] by simp
  qed
next
  case (SliceType T)
  obtain x st1 where d: "draw_Int st = (x, st1)" by fastforce
  have "fill_inv fa c st1" using SliceType.prems(1) d
    by (auto simp: draw_Int_def fill_inv_def split: prod.splits)
  moreover obtain vs where "repeatR (x mod 16 + 1) (fillRecursively T) st1 = Inr (vs, st')" "v = VSlice T vs"
    using SliceType.prems(2) d by (auto simp: ret_val_Inr Let_def)
  ultimately show ?case
    using fill_list [of "x mod 16 + 1" T st1 vs st' fa c] SliceType.IH fill_result_list(2) [of vs c T] by simp
next
  case BoolType
  then show ?case using exists_eq_Inr [OF fill_bool] by blast
next
  case AddressType
  then show ?case using fill_shared(1) by blast
next
  case BigIntType
  then show ?case using fill_shared(2) by blast
qed ((elim fill_scalars_sound, assumption) | simp)+

lemma result_total:
  "\<exists>v st'. m = Inr (v, st') \<and> I st' \<and> R v \<Longrightarrow> \<exists>v st'. m = Inr (v, st') \<and> I st'"
  by blast

lemmas fill_scalars_total = fill_scalars [THEN result_total]

text \<open>It panics only for the types it does not recognise, or when a shared pool is empty.\<close>

lemma fill_total:
  "fill_inv fa c st \<Longrightarrow> fillable T \<Longrightarrow> c_address c \<noteq> [] \<Longrightarrow> c_bigInt c \<noteq> [] \<Longrightarrow>
   \<exists>v st'. fillRecursively T st = Inr (v, st') \<and> fill_inv fa c st'"
proof (induction T arbitrary: st)
  case (ArrayType n T)
  show ?case
  proof (cases "ArrayType n T = Bytes32Type")
    case True
    then have "fillRecursively (ArrayType n T) st = ret_val bytes32_val (ArgPool_NextBytes32 st)"
      by (subst fillRecursively.simps(13)) simp
    with fill_bytes32 [OF ArrayType.prems(1)] show ?thesis by auto
  next
    case False
    have "\<exists>vs st'. repeatR n (fillRecursively T) st = Inr (vs, st') \<and> fill_inv fa c st'"
    proof (cases "n = 0")
      case True
      with ArrayType.prems(1) show ?thesis by simp
    next
      case False
      with ArrayType.prems(2) have "fillable T" by simp
      then show ?thesis
        using ArrayType.prems(1,3,4) ArrayType.IH by (intro repeatR_total) blast+
    qed
    with False show ?thesis by (auto simp: ret_val_def)
  qed
next
  case (SliceType T)
  obtain x st1 where d: "draw_Int st = (x, st1)" by fastforce
  have "fill_inv fa c st1" using SliceType.prems(1) d
    by (auto simp: draw_Int_def fill_inv_def split: prod.splits)
  then have "\<exists>vs st'. repeatR (x mod 16 + 1) (fillRecursively T) st1 = Inr (vs, st') \<and> fill_inv fa c st'"
    using SliceType.prems(2-4) SliceType.IH by (intro repeatR_total) auto
  with d show ?case by (auto simp: ret_val_def Let_def)
next
  case AddressType
  then show ?case using ArgPool_NextAddress_cases [of fa st]
    by (auto simp: ret_val_def fill_inv_def contents_def split: if_splits)
next
  case BigIntType
  then show ?case using ArgPool_NextBigInt_cases [of fa st]
    by (auto simp: ret_val_def fill_inv_def contents_def split: if_splits)
next
  case BoolType
  then show ?case by (intro fill_bool [THEN result_total])
qed ((elim fill_scalars_total) | simp)+

lemma fill_fillable: "fillRecursively T st = Inr (v, st') \<Longrightarrow> fillable T"
proof (induction T arbitrary: st v st')
  case (ArrayType n T)
  show ?case
  proof (cases "ArrayType n T = Bytes32Type")
    case True
    then show ?thesis by (simp add: Bytes32Type_def)
  next
    case False
    with ArrayType.prems ArrayType.IH show ?thesis
      by (cases n) (auto simp: ret_val_Inr elim!: bindR_InrE split: prod.splits)
  qed
next
  case (SliceType T)
  then show ?case
    by (auto simp: ret_val_Inr Let_def elim!: bindR_InrE split: prod.splits)
qed simp_all

lemma construct_sound:
  "fill_inv fa c st \<Longrightarrow> ConstructArgs Ts st = Inr (vs, st') \<Longrightarrow>
   fill_inv fa c st' \<and> list_all2 (fill_result c) Ts vs"
proof (induction Ts arbitrary: st vs)
  case (Cons T Ts)
  then obtain v st1 ws where "fillRecursively T st = Inr (v, st1)" "ConstructArgs Ts st1 = Inr (ws, st')" "vs = v # ws"
    by (auto elim!: bindR_InrE split: prod.splits)
  moreover have "fill_inv fa c st1 \<and> fill_result c T v"
    by (rule fill_sound [OF Cons.prems(1) \<open>fillRecursively T st = Inr (v, st1)\<close>])
  ultimately show ?case using Cons.IH [of st1 ws] by simp
qed simp

lemma construct_total:
  "fill_inv fa c st \<Longrightarrow> list_all fillable Ts \<Longrightarrow> c_address c \<noteq> [] \<Longrightarrow> c_bigInt c \<noteq> [] \<Longrightarrow>
   \<exists>vs st'. ConstructArgs Ts st = Inr (vs, st')"
proof (induction Ts arbitrary: st)
  case (Cons T Ts)
  then obtain v st1 where v: "fillRecursively T st = Inr (v, st1)" "fill_inv fa c st1"
    using fill_total [of fa c st T] by auto
  with Cons obtain vs st' where "ConstructArgs Ts st1 = Inr (vs, st')" by fastforce
  with v(1) show ?case by simp
qed simp

lemma construct_fillable: "ConstructArgs Ts st = Inr (vs, st') \<Longrightarrow> list_all fillable Ts"
  by (induction Ts arbitrary: st vs) (auto elim!: bindR_InrE split: prod.splits dest: fill_fillable)

section \<open>What updateRecursively learns\<close>

text \<open>The leaves of a value that have a pool, with the pool's element they become.\<close>

datatype leaf =
    LInt16 "16 word" | LInt32 "32 word" | LInt64 "64 word" | LBytes32 bytes32
  | LAddress address | LBigInt bigptr | LString string

fun leaves :: "gval \<Rightarrow> leaf list" where
  "leaves (VInt16 x) = [LInt16 x]" | "leaves (VUInt16 x) = [LInt16 x]"
| "leaves (VInt32 x) = [LInt32 x]" | "leaves (VUInt32 x) = [LInt32 x]"
| "leaves (VInt64 x) = [LInt64 x]" | "leaves (VUInt64 x) = [LInt64 x]"
| "leaves (VAddress a) = [LAddress a]" | "leaves (VBigInt p) = [LBigInt p]"
| "leaves (VString s) = [LString s]"
| "leaves (VArray T vs) =
     (if typeOf (VArray T vs) = Bytes32Type then [LBytes32 (map val_byte vs)] else concat (map leaves vs))"
| "leaves (VSlice T vs) = concat (map leaves vs)"
| "leaves _ = []"

text \<open>One addition per leaf: the reference for the recursion.\<close>

fun learn :: "(address \<Rightarrow> string) \<Rightarrow> leaf \<Rightarrow> 'z argst_scheme \<Rightarrow> 'z argst_scheme res" where
  "learn fa (LInt16 x) st = Inr (ArgPool_AddInt16 x st)"
| "learn fa (LInt32 x) st = Inr (ArgPool_AddInt32 x st)"
| "learn fa (LInt64 x) st = Inr (ArgPool_AddInt64 x st)"
| "learn fa (LBytes32 b) st = Inr (ArgPool_AddBytes32 b st)"
| "learn fa (LAddress a) st = ArgPool_AddAddress fa a st"
| "learn fa (LBigInt p) st = ArgPool_AddBigInt fa p st"
| "learn fa (LString s) st = Inr (ArgPool_AddString s st)"

lemma foldR_concat: "foldR f (concat xss) s = foldR (foldR f) xss s"
  by (induction xss arbitrary: s) (auto simp: foldR_append intro!: bindR_cong)

lemma foldR_map: "foldR f (map g xs) s = foldR (\<lambda>x. f (g x)) xs s"
  by (induction xs arbitrary: s) (auto intro!: bindR_cong)

lemma bindR_foldR_Nil [simp]: "bindR m (foldR f []) = m"
  by (cases m) simp_all

lemma update_leaves: "updateRecursively fa v st = foldR (learn fa) (leaves v) st"
proof (induction v arbitrary: st)
  case (VArray T vs)
  show ?case
  proof (cases "typeOf (VArray T vs) = Bytes32Type")
    case True
    then show ?thesis by (simp del: typeOf.simps)
  next
    case False
    then show ?thesis using VArray.IH
      by (auto simp: foldR_concat foldR_map simp del: typeOf.simps intro!: foldR_cong)
  qed
next
  case (VSlice T vs)
  then show ?case by (auto simp: foldR_concat foldR_map intro!: foldR_cong)
qed simp_all

text \<open>The pool answers for a leaf. A big integer is known by its current decimal form.\<close>

fun known :: "(address \<Rightarrow> string) \<Rightarrow> 'z argst_scheme \<Rightarrow> leaf \<Rightarrow> bool" where
  "known fa st (LInt16 x) \<longleftrightarrow> int16pool_Contains x (Int16Pool st)"
| "known fa st (LInt32 x) \<longleftrightarrow> int32pool_Contains x (Int32Pool st)"
| "known fa st (LInt64 x) \<longleftrightarrow> int64pool_Contains x (Int64Pool st)"
| "known fa st (LBytes32 b) \<longleftrightarrow> bytes32pool_Contains b (Bytes32Pool st)"
| "known fa st (LAddress a) \<longleftrightarrow>
     (\<exists>p. pools st (AddressPool st) = Some p \<and> pool_Contains (iface_sprint fa (bigs st)) (IAddress a) p)"
| "known fa st (LBigInt n) \<longleftrightarrow>
     (\<exists>p. pools st (BigIntPool st) = Some p \<and> pool_Contains (iface_sprint fa (bigs st)) (IBigInt n) p)"
| "known fa st (LString s) \<longleftrightarrow> stringpool_Contains s (StringPool st)"

lemma contains_offer:
  "ring_Contains k x (offer (ring_Contains k) (ring_Add k) y p) \<longleftrightarrow> k x = k y \<or> ring_Contains k x p"
  by (auto simp: ring_Contains_def ring_Add_def offer_def)

lemma bigs_adds [simp]:
  "bigs (ArgPool_AddInt8 i8 A) = bigs A" "bigs (ArgPool_AddInt16 i16 A) = bigs A"
  "bigs (ArgPool_AddInt32 i32 A) = bigs A" "bigs (ArgPool_AddInt64 i64 A) = bigs A"
  "bigs (ArgPool_AddBytes32 b A) = bigs A" "bigs (ArgPool_AddString s A) = bigs A"
  "bigs (ArgPool_AddTimestamp t A) = bigs A"
  by (simp_all add: add_offer)

lemma learn_total:
  assumes "arg_inv fa st"
  shows "\<exists>st'. learn fa l st = Inr st' \<and> arg_inv fa st' \<and> bigs st' = bigs st"
  using assms ArgPool_AddAddress_total [OF assms] ArgPool_AddBigInt_total [OF assms]
  by (cases l) (simp_all add: arg_inv_adds)

lemma learn_known:
  assumes "arg_inv fa st" and "learn fa l st = Inr st'"
  shows "known fa st' l \<and> (\<forall>k. known fa st k \<longrightarrow> known fa st' k)"
proof -
  have ne: "AddressPool st \<noteq> BigIntPool st" using assms(1) by (simp add: arg_inv_def)
  obtain p where p: "pools st (AddressPool st) = Some p" using assms(1) by (auto simp: arg_inv_def)
  obtain q where q: "pools st (BigIntPool st) = Some q" using assms(1) by (auto simp: arg_inv_def)
  have mono: "known fa st k \<Longrightarrow> known fa st' k" for k
    using assms(2) ne
    by (cases l; cases k) (auto simp: add_offer ArgPool_AddAddress_offer [OF p] ArgPool_AddBigInt_offer [OF q]
        contains_offer set_pool_def p q)
  moreover have "known fa st' l"
    using assms(2) ne
    by (cases l) (auto simp: add_offer ArgPool_AddAddress_offer [OF p] ArgPool_AddBigInt_offer [OF q]
        contains_offer set_pool_def p q)
  ultimately show ?thesis by blast
qed

lemma learns_known:
  "arg_inv fa st \<Longrightarrow> \<exists>st'. foldR (learn fa) ls st = Inr st' \<and> arg_inv fa st' \<and>
     (\<forall>l \<in> set ls. known fa st' l) \<and> (\<forall>k. known fa st k \<longrightarrow> known fa st' k)"
proof (induction ls arbitrary: st)
  case (Cons l ls)
  obtain st1 where 1: "learn fa l st = Inr st1" "arg_inv fa st1" using learn_total [OF Cons.prems] by blast
  obtain st2 where "foldR (learn fa) ls st1 = Inr st2" "arg_inv fa st2"
      "\<forall>l \<in> set ls. known fa st2 l" "\<forall>k. known fa st1 k \<longrightarrow> known fa st2 k"
    using Cons.IH [OF 1(2)] by blast
  with 1 learn_known [OF Cons.prems 1(1)] show ?case by auto
qed simp

section \<open>What the pools hold afterwards\<close>

text \<open>The old values keep their places, and the new ones come after them.\<close>

definition extended :: "'a list \<Rightarrow> 'a set \<Rightarrow> 'a list \<Rightarrow> bool" where
  "extended old new xs \<longleftrightarrow> (\<exists>zs. xs = old @ zs) \<and> set xs = set old \<union> new"

lemma extended_refl: "new \<subseteq> set old \<Longrightarrow> extended old new old"
  by (auto simp: extended_def)

lemma extended_trans: "extended xs M ys \<Longrightarrow> extended ys N zs \<Longrightarrow> extended xs (M \<union> N) zs"
  by (auto simp: extended_def)

lemma extended_offer:
  assumes "typed_ok p"
  shows "extended (p_storage p) {x} (p_storage (offer (ring_Contains (\<lambda>x. x)) (ring_Add (\<lambda>x. x)) x p))"
proof -
  have "ring_inv (\<lambda>x. x) p" using assms by (simp add: typed_ok_def)
  from ring.has_iff [OF this, of x] show ?thesis by (auto simp: extended_def offer_def ring_Add_def)
qed

text \<open>
  The shared pools tell values apart by how they print, so of two addresses that print alike, or two pointers to
  the same number, they take the first one only.
\<close>

definition learned :: "(address \<Rightarrow> string) \<Rightarrow> leaf set \<Rightarrow> 'z argst_scheme \<Rightarrow> 'z argst_scheme \<Rightarrow> bool" where
  "learned fa L st st' \<longleftrightarrow>
     Int8Pool st' = Int8Pool st \<and> TimestampPool st' = TimestampPool st \<and>
     extended (p_storage (Int16Pool st)) {x. LInt16 x \<in> L} (p_storage (Int16Pool st')) \<and>
     extended (p_storage (Int32Pool st)) {x. LInt32 x \<in> L} (p_storage (Int32Pool st')) \<and>
     extended (p_storage (Int64Pool st)) {x. LInt64 x \<in> L} (p_storage (Int64Pool st')) \<and>
     extended (p_storage (Bytes32Pool st)) {b. LBytes32 b \<in> L} (p_storage (Bytes32Pool st')) \<and>
     extended (p_storage (StringPool st)) {s. LString s \<in> L} (p_storage (StringPool st')) \<and>
     extended (map fa (addresses st)) (fa ` {a. LAddress a \<in> L}) (map fa (addresses st')) \<and>
     (\<exists>as. addresses st' = addresses st @ as \<and> set as \<subseteq> {a. LAddress a \<in> L}) \<and>
     (\<exists>ns. bigptrs st' = bigptrs st @ ns \<and> set ns \<subseteq> {n. LBigInt n \<in> L})"

text \<open>The table of the big-integer pool lists how its pointers print: no update of a number interfered.\<close>

definition big_listed :: "'z argst_scheme \<Rightarrow> bool" where
  "big_listed st \<longleftrightarrow> (\<exists>p. pools st (BigIntPool st) = Some p \<and>
     p_storageMap p = big_sprint (bigs st) ` set (bigptrs st))"

lemma learned_refl: "learned fa {} st st"
  by (simp add: learned_def extended_refl)

lemma learned_trans:
  assumes "learned fa L st st1" and "learned fa M st1 st2"
  shows "learned fa (L \<union> M) st st2"
proof -
  have sets: "{x. f x \<in> L \<union> M} = {x. f x \<in> L} \<union> {x. f x \<in> M}" for f :: "'b \<Rightarrow> leaf" by auto
  obtain as bs where "addresses st1 = addresses st @ as" "set as \<subseteq> {a. LAddress a \<in> L}"
    "addresses st2 = addresses st1 @ bs" "set bs \<subseteq> {a. LAddress a \<in> M}"
    using assms unfolding learned_def by (elim conjE exE)
  then have addr: "\<exists>as. addresses st2 = addresses st @ as \<and> set as \<subseteq> {a. LAddress a \<in> L \<union> M}"
    by (intro exI [of _ "as @ bs"]) auto
  obtain ms ns where "bigptrs st1 = bigptrs st @ ms" "set ms \<subseteq> {n. LBigInt n \<in> L}"
    "bigptrs st2 = bigptrs st1 @ ns" "set ns \<subseteq> {n. LBigInt n \<in> M}"
    using assms unfolding learned_def by (elim conjE exE)
  then have big: "\<exists>ns. bigptrs st2 = bigptrs st @ ns \<and> set ns \<subseteq> {n. LBigInt n \<in> L \<union> M}"
    by (intro exI [of _ "ms @ ns"]) auto
  show ?thesis using assms addr big unfolding learned_def sets image_Un by (auto intro: extended_trans)
qed

lemma address_learned:
  assumes "arg_inv fa st" and "ArgPool_AddAddress fa a st = Inr st'"
  shows "learned fa {LAddress a} st st'"
proof -
  have ne: "AddressPool st \<noteq> BigIntPool st" using assms(1) by (simp add: arg_inv_def)
  obtain p where p: "pools st (AddressPool st) = Some p" "addr_ok fa p" using assms(1) by (auto simp: arg_inv_def)
  let ?key = "iface_sprint fa (bigs st)"
  have keys: "ring_inv ?key p" using p(2) addr_ok_heap by blast
  have known: "ring_Contains ?key (IAddress a) p \<longleftrightarrow> fa a \<in> fa ` set (addresses st)"
  proof -
    have "ring_Contains ?key (IAddress a) p \<longleftrightarrow> ?key (IAddress a) \<in> ?key ` set (p_storage p)"
      using keys ring.has_iff [of ?key p "IAddress a"] by auto
    also have "?key ` set (p_storage p) = fa ` set (addresses st)"
      using p by (auto simp: addr_ok_def addresses_def is_IAddress_def image_image intro!: image_cong)
    finally show ?thesis by simp
  qed
  have st': "st' = set_pool (AddressPool st) (offer (ring_Contains ?key) (ring_Add ?key) (IAddress a) p) st"
    using assms(2) ArgPool_AddAddress_offer [OF p(1), of fa a] by simp
  have "addresses st' = (if fa a \<in> fa ` set (addresses st) then addresses st else addresses st @ [a])"
    using known p(1) unfolding st' by (simp add: offer_def ring_Add_def addresses_def set_pool_def)
  moreover have "bigptrs st' = bigptrs st" using ne unfolding st' by (simp add: bigptrs_def set_pool_def)
  moreover have "Int8Pool st' = Int8Pool st \<and> TimestampPool st' = TimestampPool st \<and> Int16Pool st' = Int16Pool st \<and>
      Int32Pool st' = Int32Pool st \<and> Int64Pool st' = Int64Pool st \<and> Bytes32Pool st' = Bytes32Pool st \<and>
      StringPool st' = StringPool st" unfolding st' by (simp add: set_pool_def)
  ultimately show ?thesis by (auto simp: learned_def extended_def)
qed

lemma bigint_learned:
  assumes "arg_inv fa st" and "ArgPool_AddBigInt fa n st = Inr st'"
  shows "learned fa {LBigInt n} st st' \<and> (big_listed st \<longrightarrow> big_listed st')"
proof -
  have ne: "AddressPool st \<noteq> BigIntPool st" using assms(1) by (simp add: arg_inv_def)
  obtain p where p: "pools st (BigIntPool st) = Some p" using assms(1) by (auto simp: arg_inv_def)
  let ?key = "iface_sprint fa (bigs st)"
  have st': "st' = set_pool (BigIntPool st) (offer (ring_Contains ?key) (ring_Add ?key) (IBigInt n) p) st"
    using assms(2) ArgPool_AddBigInt_offer [OF p, of fa n] by simp
  have big: "bigptrs st' = (if big_sprint (bigs st) n \<in> p_storageMap p then bigptrs st else bigptrs st @ [n])"
    using p unfolding st' by (simp add: offer_def ring_Add_def ring_Contains_def bigptrs_def set_pool_def)
  moreover have "addresses st' = addresses st" using ne unfolding st' by (simp add: addresses_def set_pool_def)
  moreover have "Int8Pool st' = Int8Pool st \<and> TimestampPool st' = TimestampPool st \<and> Int16Pool st' = Int16Pool st \<and>
      Int32Pool st' = Int32Pool st \<and> Int64Pool st' = Int64Pool st \<and> Bytes32Pool st' = Bytes32Pool st \<and>
      StringPool st' = StringPool st \<and> bigs st' = bigs st \<and> BigIntPool st' = BigIntPool st" unfolding st' by (simp add: set_pool_def)
  ultimately have "learned fa {LBigInt n} st st'" by (simp add: learned_def extended_refl)
  moreover have "big_listed st'" if "big_listed st"
    using that p big unfolding big_listed_def st'
    by (auto simp: offer_def ring_Add_def ring_Contains_def set_pool_def)
  ultimately show ?thesis by blast
qed

lemma learn_learned:
  assumes "arg_inv fa st" and "learn fa l st = Inr st'"
  shows "learned fa {l} st st' \<and> (big_listed st \<longrightarrow> big_listed st')"
proof -
  note ok = assms(1) [unfolded arg_inv_def]
  note ext = extended_offer [of "Int16Pool st"] extended_offer [of "Int32Pool st"] extended_offer [of "Int64Pool st"]
    extended_offer [of "Bytes32Pool st"] extended_offer [of "StringPool st"]
  show ?thesis
  proof (cases l)
    case (LAddress a)
    have ne: "AddressPool st \<noteq> BigIntPool st" using ok by simp
    obtain p where p: "pools st (AddressPool st) = Some p" using ok by blast
    have "big_listed st'" if "big_listed st"
      using assms(2) LAddress ArgPool_AddAddress_offer [OF p, of fa a] ne that
      by (auto simp: big_listed_def bigptrs_def set_pool_def)
    then show ?thesis using address_learned [OF assms(1)] assms(2) LAddress by simp
  next
    case (LBigInt n)
    then show ?thesis using bigint_learned [OF assms(1)] assms(2) by simp
  qed (use assms(2) ok ext in \<open>auto simp: learned_def extended_refl add_offer big_listed_def\<close>)
qed

lemma learns_learned:
  "arg_inv fa st \<Longrightarrow> \<exists>st'. foldR (learn fa) ls st = Inr st' \<and> arg_inv fa st' \<and> bigs st' = bigs st \<and>
     learned fa (set ls) st st' \<and> (\<forall>l \<in> set ls. known fa st' l) \<and> (big_listed st \<longrightarrow> big_listed st')"
proof (induction ls arbitrary: st)
  case Nil
  then show ?case by (simp add: learned_refl)
next
  case (Cons l ls)
  obtain st1 where 1: "learn fa l st = Inr st1" "arg_inv fa st1" "bigs st1 = bigs st" using learn_total [OF Cons.prems] by blast
  obtain st2 where 2: "foldR (learn fa) ls st1 = Inr st2" "arg_inv fa st2" "bigs st2 = bigs st1" "learned fa (set ls) st1 st2"
      "\<forall>l \<in> set ls. known fa st2 l" "big_listed st1 \<longrightarrow> big_listed st2"
    using Cons.IH [OF 1(2)] by (elim exE conjE) (rule that)
  have "known fa st2 l" using learns_known [OF 1(2), of ls] 2(1) learn_known [OF Cons.prems 1(1)] by auto
  moreover have "learned fa (set (l # ls)) st st2"
    using learned_trans [OF _ 2(4)] learn_learned [OF Cons.prems 1(1)] by (metis insert_is_Un list.simps(15))
  ultimately show ?case using 1 2 learn_learned [OF Cons.prems 1(1)] by auto
qed

text \<open>A number whose printed form the table lists is then behind a pointer of the pool.\<close>

lemma big_listed_known:
  assumes "big_listed st" and "known fa st (LBigInt n)"
  shows "big_sprint (bigs st) n \<in> big_sprint (bigs st) ` set (bigptrs st)"
  using assms by (auto simp: big_listed_def ring_Contains_def)

end
