(* ===== verification/InitArgs.thy ===== *)
theory InitArgs
  imports Args
begin

text \<open>
  \<^verbatim>\<open>InitArgPool\<close> of \<^verbatim>\<open>utils/args.go\<close>: the initial content of the pools, and what it
  guarantees to the rest of the fuzzer; then the properties of the argument component.
\<close>

section \<open>InitArgPool\<close>

text \<open>One round of the loop over the powers of two.\<close>

definition initPow_body ::
  "(address \<Rightarrow> string) \<Rightarrow> int \<Rightarrow> 'z argst_scheme \<Rightarrow> 'z argst_scheme res" where
  "initPow_body fa i st =
     (let st = (if i \<le> 2147483647 then ArgPool_AddInt32 (word_of_int i) st else st);
          st = (if i \<le> 32767 then ArgPool_AddInt16 (word_of_int i) st else st);
          (p, h) = big_new i (bigs st)
      in bindR (ArgPool_AddBigInt fa p (st\<lparr>bigs := h\<rparr>)) (\<lambda>st.
         Inr (ArgPool_AddInt64 (word_of_int i) st)))"

text \<open>\<^verbatim>\<open>for i := int64(1); i < 1E18; i = i * 2\<close>, which a panic of the body leaves.\<close>

definition initPow :: "(address \<Rightarrow> string) \<Rightarrow> 'z argst_scheme \<Rightarrow> 'z argst_scheme res" where
  "initPow fa st =
     snd (while (\<lambda>(i, m). i < 1000000000000000000 \<and> \<not> isl m)
            (\<lambda>(i, m). (i * 2, bindR m (initPow_body fa i))) (1, Inr st))"

definition rand_byte :: "'z genst_scheme \<Rightarrow> (8 word \<times> 'z genst_scheme) res" where
  "rand_byte st = (let (x, st') = draw_Int st in Inr (word_of_nat (x mod 256), st'))"

definition initBytes :: "'z genst_scheme \<Rightarrow> 'z genst_scheme res" where
  "initBytes =
     foldR (\<lambda>_ st. bindR (repeatR 32 rand_byte st) (\<lambda>(b, st'). Inr (ArgPool_AddBytes32 b st'))) [0..<10]"

definition initSmall :: "'z ArgPool_scheme \<Rightarrow> 'z ArgPool_scheme" where
  "initSmall =
     fold (\<lambda>i st. ArgPool_AddInt64 (word_of_nat i) (ArgPool_AddInt32 (word_of_nat i)
       (ArgPool_AddInt16 (word_of_nat i) (ArgPool_AddInt8 (word_of_nat i) st)))) [0..<256]"

definition initAccounts ::
  "(address \<Rightarrow> string) \<Rightarrow> (address \<times> bigptr) list \<Rightarrow> 'z argst_scheme \<Rightarrow> 'z argst_scheme res" where
  "initAccounts fa accounts =
     foldR (\<lambda>(addr, amount) st. bindR (ArgPool_AddAddress fa addr st) (ArgPool_AddBigInt fa amount)) accounts"

text \<open>\<open>accounts\<close> is what \<^verbatim>\<open>ReadAccounts(metadata)\<close> returns: addresses and amounts.\<close>

definition InitArgPool ::
  "(address \<Rightarrow> string) \<Rightarrow> (address \<times> bigptr) list \<Rightarrow> 'z genst_scheme \<Rightarrow> 'z genst_scheme res" where
  "InitArgPool fa accounts st =
     (let (z, h) = big_new 0 (bigs st) in
      bindR (ArgPool_AddBigInt fa z (st\<lparr>bigs := h\<rparr>)) (\<lambda>st.
      bindR (initPow fa (ArgPool_AddInt64 (- 1) st)) (\<lambda>st.
      bindR (initBytes st) (\<lambda>st.
      initAccounts fa accounts (initSmall (ArgPool_AddString ''ChainSecurity'' st))))))"

section \<open>The loop over the powers of two\<close>

lemma initPow_foldR: "initPow fa st = foldR (initPow_body fa) (map (\<lambda>k. 2 ^ k) [0..<60]) st"
proof -
  let ?b = "\<lambda>(i :: int, m :: 'a argst_scheme res). i < 1000000000000000000 \<and> \<not> isl m"
  let ?c = "\<lambda>(i :: int, m). (i * 2, bindR m (initPow_body fa i))"
  have "k \<le> 60 \<Longrightarrow> snd (while ?b ?c (2 ^ k, m)) = bindR m (foldR (initPow_body fa) (map (\<lambda>k. 2 ^ k) [k..<60]))" for k m
  proof (induction "60 - k" arbitrary: k m)
    case 0
    then show ?case by (subst while_unfold) simp
  next
    case (Suc n)
    then have k: "k < 60" "n = 60 - Suc k" by auto
    have "(2 :: int) ^ k \<le> 2 ^ 59" using k(1) by (intro power_increasing) auto
    then have lt: "(2 :: int) ^ k < 1000000000000000000" by simp
    have upt: "[k..<60] = k # [Suc k..<60]" using k(1) by (simp add: upt_conv_Cons)
    show ?case
    proof (cases m)
      case (Inl e)
      then show ?thesis by (subst while_unfold) simp
    next
      case (Inr st)
      then have "snd (while ?b ?c (2 ^ k, m)) = snd (while ?b ?c (2 ^ Suc k, initPow_body fa (2 ^ k) st))"
        using lt by (subst while_unfold) (simp add: mult.commute)
      also have "\<dots> = bindR (initPow_body fa (2 ^ k) st) (foldR (initPow_body fa) (map (\<lambda>k. 2 ^ k) [Suc k..<60]))"
        using Suc.hyps(1) [of "Suc k"] k by simp
      finally show ?thesis using Inr upt by simp
    qed
  qed
  from this [of 0 "Inr st"] show ?thesis by (simp add: initPow_def)
qed

section \<open>The integer pools\<close>

text \<open>Additions to the shared pools leave the typed pools alone.\<close>

lemma AddBigInt_frame:
  "ArgPool_AddBigInt fa p A = Inr B \<Longrightarrow>
   Int8Pool B = Int8Pool A \<and> Int16Pool B = Int16Pool A \<and> Int32Pool B = Int32Pool A \<and>
   Int64Pool B = Int64Pool A \<and> StringPool B = StringPool A \<and> bigs B = bigs A \<and>
   AddressPool B = AddressPool A \<and> BigIntPool B = BigIntPool A"
  by (auto simp: ArgPool_AddBigInt_def set_pool_def Let_def elim!: bindR_InrE split: if_splits)

lemma AddAddress_frame:
  "ArgPool_AddAddress fa p A = Inr B \<Longrightarrow>
   Int8Pool B = Int8Pool A \<and> Int16Pool B = Int16Pool A \<and> Int32Pool B = Int32Pool A \<and>
   Int64Pool B = Int64Pool A \<and> StringPool B = StringPool A \<and> bigs B = bigs A \<and>
   AddressPool B = AddressPool A \<and> BigIntPool B = BigIntPool A"
  by (auto simp: ArgPool_AddAddress_def set_pool_def Let_def elim!: bindR_InrE split: if_splits)

abbreviation ring_offer :: "'a \<Rightarrow> ('a, 'a) ring \<Rightarrow> ('a, 'a) ring" where
  "ring_offer \<equiv> offer (ring_Contains (\<lambda>x. x)) (ring_Add (\<lambda>x. x))"

lemma initPow_body_total:
  assumes "arg_inv fa st"
  shows "\<exists>st'. initPow_body fa i st = Inr st' \<and> arg_inv fa st'"
proof -
  let ?s1 = "if i \<le> 2147483647 then ArgPool_AddInt32 (word_of_int i) st else st"
  let ?s2 = "if i \<le> 32767 then ArgPool_AddInt16 (word_of_int i) ?s1 else ?s1"
  have "arg_inv fa (?s2\<lparr>bigs := snd (big_new i (bigs ?s2))\<rparr>)"
    using assms by (simp add: arg_inv_adds)
  from ArgPool_AddBigInt_total [OF this, of "fst (big_new i (bigs ?s2))"]
  show ?thesis by (auto simp: initPow_body_def Let_def arg_inv_adds split: prod.splits)
qed

lemma initPow_body_ints:
  assumes "initPow_body fa i st = Inr st'"
  shows "Int8Pool st' = Int8Pool st \<and> StringPool st' = StringPool st \<and>
    Int64Pool st' = ring_offer (word_of_int i) (Int64Pool st) \<and>
    Int32Pool st' = (if i \<le> 2147483647 then ring_offer (word_of_int i) (Int32Pool st) else Int32Pool st) \<and>
    Int16Pool st' = (if i \<le> 32767 then ring_offer (word_of_int i) (Int16Pool st) else Int16Pool st)"
  using assms
  by (auto simp: initPow_body_def Let_def add_offer elim!: bindR_InrE dest!: AddBigInt_frame
      split: prod.splits)

lemma initPow_body_loop:
  "foldR (initPow_body fa) is st = Inr st' \<Longrightarrow>
   Int8Pool st' = Int8Pool st \<and> StringPool st' = StringPool st \<and>
   Int64Pool st' = fold ring_offer (map word_of_int is) (Int64Pool st) \<and>
   Int32Pool st' = fold ring_offer (map word_of_int (filter (\<lambda>i. i \<le> 2147483647) is)) (Int32Pool st) \<and>
   Int16Pool st' = fold ring_offer (map word_of_int (filter (\<lambda>i. i \<le> 32767) is)) (Int16Pool st)"
proof (induction "is" arbitrary: st)
  case (Cons i "is")
  from Cons.prems obtain u where u: "initPow_body fa i st = Inr u" "foldR (initPow_body fa) is u = Inr st'"
    by (auto elim: bindR_InrE)
  show ?case using Cons.IH [OF u(2)] initPow_body_ints [OF u(1)] by simp
qed simp

lemma initSmall_ints:
  fixes st :: "'z ArgPool_scheme"
  shows "Int8Pool (initSmall st) = fold ring_offer (map word_of_nat [0..<256]) (Int8Pool st)"
    and "Int16Pool (initSmall st) = fold ring_offer (map word_of_nat [0..<256]) (Int16Pool st)"
    and "Int32Pool (initSmall st) = fold ring_offer (map word_of_nat [0..<256]) (Int32Pool st)"
    and "Int64Pool (initSmall st) = fold ring_offer (map word_of_nat [0..<256]) (Int64Pool st)"
    and "StringPool (initSmall st) = StringPool st"
proof -
  let ?f = "\<lambda>i (st :: 'z ArgPool_scheme). ArgPool_AddInt64 (word_of_nat i) (ArgPool_AddInt32 (word_of_nat i)
       (ArgPool_AddInt16 (word_of_nat i) (ArgPool_AddInt8 (word_of_nat i) st)))"
  have "Int8Pool (fold ?f ns st) = fold ring_offer (map word_of_nat ns) (Int8Pool st) \<and>
      Int16Pool (fold ?f ns st) = fold ring_offer (map word_of_nat ns) (Int16Pool st) \<and>
      Int32Pool (fold ?f ns st) = fold ring_offer (map word_of_nat ns) (Int32Pool st) \<and>
      Int64Pool (fold ?f ns st) = fold ring_offer (map word_of_nat ns) (Int64Pool st) \<and>
      StringPool (fold ?f ns st) = StringPool st" for ns
    by (induction ns arbitrary: st) (simp_all add: add_offer)
  then show "Int8Pool (initSmall st) = fold ring_offer (map word_of_nat [0..<256]) (Int8Pool st)"
    and "Int16Pool (initSmall st) = fold ring_offer (map word_of_nat [0..<256]) (Int16Pool st)"
    and "Int32Pool (initSmall st) = fold ring_offer (map word_of_nat [0..<256]) (Int32Pool st)"
    and "Int64Pool (initSmall st) = fold ring_offer (map word_of_nat [0..<256]) (Int64Pool st)"
    and "StringPool (initSmall st) = StringPool st"
    unfolding initSmall_def by blast+
qed

lemma initSmall_inv: "arg_inv fa st \<Longrightarrow> arg_inv fa (initSmall st)"
  unfolding initSmall_def by (rule fold_invariant) (simp_all add: arg_inv_adds)

lemma initSmall_frame:
  fixes st :: "'z argst_scheme"
  shows "bigs (initSmall st) = bigs st \<and> bigptrs (initSmall st) = bigptrs st \<and> addresses (initSmall st) = addresses st"
  unfolding initSmall_def by (rule fold_invariant [where P = "\<lambda>u. bigs u = bigs st \<and> bigptrs u = bigptrs st \<and> addresses u = addresses st"])
    (simp_all add: add_offer)

text \<open>What a typed pool holds after offers.\<close>

lemma typed_offers:
  assumes "typed_ok p"
  shows "typed_ok (fold ring_offer xs p)" and "set (p_storage (fold ring_offer xs p)) = set (p_storage p) \<union> set xs"
proof -
  have inv: "ring_inv (\<lambda>x. x) p" and d: "distinct (map (\<lambda>x. x) (p_storage p))"
    using assms by (simp_all add: typed_ok_def)
  show "typed_ok (fold ring_offer xs p)"
    using ring.inv_offers [OF inv, of xs] ring.distinct_offers [OF inv d, of xs] by (simp add: typed_ok_def)
  show "set (p_storage (fold ring_offer xs p)) = set (p_storage p) \<union> set xs"
    using ring.keys_offers [OF inv, of xs] by simp
qed

section \<open>The random byte arrays\<close>

lemma rand_byte_frame: "rand_byte st = Inr (b, st') \<Longrightarrow> \<exists>r. st' = st\<lparr>rnd := r\<rparr>"
  by (auto simp: rand_byte_def draw_Int_def split: prod.splits)

lemma rand_bytes_total:
  assumes "arg_inv fa st"
  shows "\<exists>bs st'. repeatR n rand_byte st = Inr (bs, st') \<and> arg_inv fa st' \<and> (\<exists>r. st' = st\<lparr>rnd := r\<rparr>)"
proof -
  let ?P = "\<lambda>u. arg_inv fa u \<and> (\<exists>r. u = st\<lparr>rnd := r\<rparr>)"
  have "?P st" using assms by (auto intro: exI [of _ "rnd st"])
  moreover have "\<exists>b u'. rand_byte u = Inr (b, u') \<and> ?P u'" if "?P u" for u
    using that by (auto simp: rand_byte_def draw_Int_def split: prod.splits)
  ultimately show ?thesis using repeatR_total [where P = ?P] by blast
qed

lemma initBytes_total:
  assumes "arg_inv fa st"
  shows "\<exists>st'. initBytes st = Inr st' \<and> arg_inv fa st' \<and> (\<exists>r p. st' = st\<lparr>rnd := r, Bytes32Pool := p\<rparr>)"
proof -
  let ?P = "\<lambda>u. arg_inv fa u \<and> (\<exists>r p. u = st\<lparr>rnd := r, Bytes32Pool := p\<rparr>)"
  have "st = st\<lparr>rnd := rnd st, Bytes32Pool := Bytes32Pool st\<rparr>" by simp
  then have "?P st" using assms by blast
  moreover have "\<exists>u'. bindR (repeatR 32 rand_byte u) (\<lambda>(b, st'). Inr (ArgPool_AddBytes32 b st')) = Inr u' \<and> ?P u'"
    if u: "?P u" for u
  proof -
    obtain r p where rp: "u = st\<lparr>rnd := r, Bytes32Pool := p\<rparr>" using u by blast
    obtain bs r' where b: "repeatR 32 rand_byte u = Inr (bs, u\<lparr>rnd := r'\<rparr>)" "arg_inv fa (u\<lparr>rnd := r'\<rparr>)"
      using rand_bytes_total [of fa u 32] u by blast
    have "arg_inv fa (ArgPool_AddBytes32 bs (u\<lparr>rnd := r'\<rparr>))" by (rule arg_inv_adds(5) [OF b(2)])
    with b(1) show ?thesis by (auto simp: rp add_offer)
  qed
  ultimately show ?thesis unfolding initBytes_def by (intro foldR_total [where P = ?P])
qed

section \<open>The big integers and addresses\<close>

text \<open>
  The big-integer pool, while no integer is updated in place: \<open>vs\<close> are the values its pointers
  reach, and the map holds their decimal forms.
\<close>

definition big_vals :: "int list \<Rightarrow> 'z argst_scheme \<Rightarrow> bool" where
  "big_vals vs A \<longleftrightarrow>
     (\<exists>p ptrs. pools A (BigIntPool A) = Some p \<and> p_storage p = map IBigInt ptrs \<and>
        map (big_get (bigs A)) ptrs = map Inr vs \<and> p_storageMap p = dec_int ` set vs)"

lemma big_vals_cong:
  "pools A = pools B \<Longrightarrow> BigIntPool A = BigIntPool B \<Longrightarrow> bigs A = bigs B \<Longrightarrow> big_vals vs A = big_vals vs B"
  by (simp add: big_vals_def)

lemma big_vals_adds [simp]:
  "big_vals vs (ArgPool_AddInt8 i8 A) = big_vals vs A" "big_vals vs (ArgPool_AddInt16 i16 A) = big_vals vs A"
  "big_vals vs (ArgPool_AddInt32 i32 A) = big_vals vs A" "big_vals vs (ArgPool_AddInt64 i64 A) = big_vals vs A"
  "big_vals vs (ArgPool_AddString s A) = big_vals vs A"
  by (simp_all add: add_offer big_vals_def)

lemma big_vals_add:
  assumes "big_vals vs A"
  shows "\<exists>B. ArgPool_AddBigInt fa (fst (big_new v (bigs A))) (A\<lparr>bigs := snd (big_new v (bigs A))\<rparr>) = Inr B \<and>
    big_vals (if v \<in> set vs then vs else vs @ [v]) B"
proof -
  let ?z = "fst (big_new v (bigs A))" and ?h = "snd (big_new v (bigs A))"
  obtain p ptrs where p: "pools A (BigIntPool A) = Some p" "p_storage p = map IBigInt ptrs"
      "map (big_get (bigs A)) ptrs = map Inr vs" "p_storageMap p = dec_int ` set vs"
    using assms by (auto simp: big_vals_def)
  have z: "big_get ?h ?z = Inr v" by simp
  have vals: "map (big_get ?h) ptrs = map Inr vs"
    using p(3) big_get_old by (auto simp: list_eq_iff_nth_eq)
  have key: "big_sprint ?h ?z = dec_int v" using z by (simp add: big_sprint_def)
  have known: "dec_int v \<in> p_storageMap p \<longleftrightarrow> v \<in> set vs" unfolding p(4) by auto
  let ?A = "A\<lparr>bigs := ?h\<rparr>"
  have "pools ?A (BigIntPool ?A) = Some p" using p(1) by simp
  note add = ArgPool_AddBigInt_offer [OF this, of fa ?z]
  show ?thesis
  proof (cases "v \<in> set vs")
    case True
    have "big_vals vs ?A" unfolding big_vals_def using p vals by auto
    then show ?thesis using add True known key p(1)
      by (simp add: offer_def ring_Contains_def set_pool_same)
  next
    case False
    let ?q = "p\<lparr>p_storage := map IBigInt (ptrs @ [?z]), p_storageMap := insert (dec_int v) (p_storageMap p)\<rparr>"
    have B: "ArgPool_AddBigInt fa ?z ?A = Inr (set_pool (BigIntPool A) ?q ?A)"
      using add False known key p(2) by (simp add: offer_def ring_Contains_def ring_Add_def)
    have "big_vals (vs @ [v]) (set_pool (BigIntPool A) ?q ?A)"
      unfolding big_vals_def using vals z p(4)
      by (intro exI [of _ ?q] exI [of _ "ptrs @ [?z]"]) (simp add: set_pool_def)
    with B False show ?thesis by simp
  qed
qed

lemma big_vals_known:
  assumes "big_vals vs A" and "v \<in> set vs"
  shows "\<exists>z \<in> set (bigptrs A). big_get (bigs A) z = Inr v"
proof -
  obtain p ptrs where p: "pools A (BigIntPool A) = Some p" "p_storage p = map IBigInt ptrs"
      "map (big_get (bigs A)) ptrs = map Inr vs"
    using assms(1) by (auto simp: big_vals_def)
  have "bigptrs A = ptrs" using p(1,2) by (simp add: bigptrs_def comp_def)
  moreover have "Inr v \<in> set (map (big_get (bigs A)) ptrs)" unfolding p(3) using assms(2) by simp
  ultimately show ?thesis by auto
qed

lemma initPow_body_vals:
  assumes "big_vals vs st" and "initPow_body fa i st = Inr st'" and "i \<notin> set vs"
  shows "big_vals (vs @ [i]) st'"
proof -
  let ?s1 = "if i \<le> 2147483647 then ArgPool_AddInt32 (word_of_int i) st else st"
  let ?s2 = "if i \<le> 32767 then ArgPool_AddInt16 (word_of_int i) ?s1 else ?s1"
  have "big_vals vs ?s2" using assms(1) by simp
  from big_vals_add [OF this, of fa i] assms(2,3) show ?thesis
    by (auto simp: initPow_body_def Let_def split: prod.splits)
qed

lemma initPow_loop_vals:
  "big_vals vs st \<Longrightarrow> foldR (initPow_body fa) is st = Inr st' \<Longrightarrow> distinct (vs @ is) \<Longrightarrow> big_vals (vs @ is) st'"
proof (induction "is" arbitrary: vs st)
  case (Cons i "is")
  from Cons.prems(2) obtain u where u: "initPow_body fa i st = Inr u" "foldR (initPow_body fa) is u = Inr st'"
    by (auto elim: bindR_InrE)
  have "big_vals (vs @ [i]) u" using initPow_body_vals [OF Cons.prems(1) u(1)] Cons.prems(3) by simp
  from Cons.IH [OF this u(2)] Cons.prems(3) show ?case by simp
qed simp

text \<open>The shared pools only grow while the accounts are added.\<close>

lemma AddBigInt_grows:
  assumes "arg_inv fa A" and "ArgPool_AddBigInt fa b A = Inr B"
  shows "set (bigptrs A) \<subseteq> set (bigptrs B) \<and> addresses B = addresses A"
proof -
  obtain p where p: "pools A (BigIntPool A) = Some p" and ne: "AddressPool A \<noteq> BigIntPool A"
    using assms(1) by (auto simp: arg_inv_def)
  show ?thesis using assms(2) p ne
    by (auto simp: ArgPool_AddBigInt_def pool_at_def ring_Add_def bigptrs_def addresses_def set_pool_def Let_def
        split: if_splits)
qed

lemma addr_ok_addresses:
  assumes "addr_ok fa p"
  shows "fa a \<in> p_storageMap p \<longleftrightarrow> fa a \<in> fa ` set (map (\<lambda>i. case i of IAddress a \<Rightarrow> a | _ \<Rightarrow> 0) (p_storage p))"
proof -
  have "iface_sprint fa [] i = fa (case i of IAddress a \<Rightarrow> a | _ \<Rightarrow> 0)" if "i \<in> set (p_storage p)" for i
  proof -
    have "is_IAddress i" using that assms by (simp add: addr_ok_def)
    then show ?thesis by (cases i) simp_all
  qed
  then have "iface_sprint fa [] ` set (p_storage p) = fa ` (\<lambda>i. case i of IAddress a \<Rightarrow> a | _ \<Rightarrow> 0) ` set (p_storage p)"
    by (force simp: image_def)
  then show ?thesis using assms by (simp add: addr_ok_def ring_inv_def)
qed

lemma AddAddress_grows:
  assumes "arg_inv fa A" and "ArgPool_AddAddress fa a A = Inr B"
  shows "set (addresses A) \<subseteq> set (addresses B) \<and> bigptrs B = bigptrs A \<and> fa a \<in> fa ` set (addresses B)"
proof -
  obtain p where p: "pools A (AddressPool A) = Some p" "addr_ok fa p" and ne: "AddressPool A \<noteq> BigIntPool A"
    using assms(1) by (auto simp: arg_inv_def)
  show ?thesis using assms(2) p(1) ne addr_ok_addresses [OF p(2), of a]
    by (auto simp: ArgPool_AddAddress_def pool_at_def ring_Add_def ring_Contains_def bigptrs_def addresses_def
        set_pool_def Let_def split: if_splits)
qed

lemma initAccounts_total:
  "arg_inv fa A \<Longrightarrow> \<exists>B. initAccounts fa accs A = Inr B \<and> arg_inv fa B \<and> bigs B = bigs A \<and>
     set (bigptrs A) \<subseteq> set (bigptrs B) \<and> set (addresses A) \<subseteq> set (addresses B) \<and>
     fa ` fst ` set accs \<subseteq> fa ` set (addresses B) \<and>
     Int8Pool B = Int8Pool A \<and> Int16Pool B = Int16Pool A \<and> Int32Pool B = Int32Pool A \<and>
     Int64Pool B = Int64Pool A \<and> StringPool B = StringPool A"
proof (induction accs arbitrary: A)
  case Nil
  then show ?case by (simp add: initAccounts_def)
next
  case (Cons x accs)
  obtain a b where x: "x = (a, b)" by fastforce
  obtain U where U: "ArgPool_AddAddress fa a A = Inr U" "arg_inv fa U" using ArgPool_AddAddress_total [OF Cons.prems] by blast
  obtain V where V: "ArgPool_AddBigInt fa b U = Inr V" "arg_inv fa V" using ArgPool_AddBigInt_total [OF U(2)] by blast
  obtain B where B: "initAccounts fa accs V = Inr B" "arg_inv fa B" "bigs B = bigs V"
      "set (bigptrs V) \<subseteq> set (bigptrs B)" "set (addresses V) \<subseteq> set (addresses B)"
      "fa ` fst ` set accs \<subseteq> fa ` set (addresses B)"
      "Int8Pool B = Int8Pool V" "Int16Pool B = Int16Pool V" "Int32Pool B = Int32Pool V"
      "Int64Pool B = Int64Pool V" "StringPool B = StringPool V"
    using Cons.IH [OF V(2)] by blast
  have "initAccounts fa (x # accs) A = Inr B" using U(1) V(1) B(1) by (simp add: initAccounts_def x)
  moreover have "fa a \<in> fa ` set (addresses B)"
    using AddAddress_grows [OF Cons.prems U(1)] AddBigInt_grows [OF U(2) V(1)] B(5) by auto
  ultimately show ?case
    using B AddAddress_frame [OF U(1)] AddBigInt_frame [OF V(1)]
      AddAddress_grows [OF Cons.prems U(1)] AddBigInt_grows [OF U(2) V(1)] by (auto simp: x)
qed

section \<open>The initial content\<close>

lemma word_small: "word_of_nat ` set [0..<256] = {w :: 'a :: len word. unat w < 256}" if "8 \<le> LENGTH('a)"
proof -
  have "2 ^ 8 \<le> (2 :: nat) ^ LENGTH('a)" using that by (rule power_increasing) simp
  then have le: "n < 256 \<Longrightarrow> n < 2 ^ LENGTH('a)" for n :: nat by simp
  show ?thesis
  proof (intro set_eqI iffI)
    fix w :: "'a word"
    assume "w \<in> word_of_nat ` set [0..<256]"
    then obtain n where "n < 256" "w = word_of_nat n" by auto
    with le show "w \<in> {w. unat w < 256}" by (simp add: unsigned_of_nat take_bit_nat_eq_self)
  next
    fix w :: "'a word"
    assume "w \<in> {w. unat w < 256}"
    then show "w \<in> word_of_nat ` set [0..<256]" by (intro image_eqI [of _ _ "unat w"]) auto
  qed
qed

lemma word8_small: "{w :: 8 word. unat w < 256} = UNIV"
proof -
  have "unat (w :: 8 word) < 2 ^ LENGTH(8)" for w by (rule unsigned_less)
  then show ?thesis by auto
qed

lemma powers_below:
  "filter (\<lambda>i. i \<le> 2147483647) (map (\<lambda>k. 2 ^ k) [0..<60]) = map (\<lambda>k. 2 ^ k :: int) [0..<31]"
  "filter (\<lambda>i. i \<le> 32767) (map (\<lambda>k. 2 ^ k) [0..<60]) = map (\<lambda>k. 2 ^ k :: int) [0..<15]"
proof -
  have split: "[0..<60] = [0..<n] @ [n..<60]" if "n \<le> 60" for n :: nat
    using that by (metis le0 le_add_diff_inverse upt_add_eq_append)
  have above: "(2 :: int) ^ n \<le> 2 ^ k" if "n \<le> k" for n k :: nat
    using that by (intro power_increasing) auto
  have below: "(2 :: int) ^ k \<le> 2 ^ n" if "k \<le> n" for n k :: nat
    using that by (intro power_increasing) auto
  have 31: "k \<in> set [0..<31] \<Longrightarrow> (2 :: int) ^ k \<le> 2147483647" "k \<in> set [31..<60] \<Longrightarrow> \<not> (2 :: int) ^ k \<le> 2147483647" for k
    using below [of k 30] above [of 31 k] by auto
  have 15: "k \<in> set [0..<15] \<Longrightarrow> (2 :: int) ^ k \<le> 32767" "k \<in> set [15..<60] \<Longrightarrow> \<not> (2 :: int) ^ k \<le> 32767" for k
    using below [of k 14] above [of 15 k] by auto
  show "filter (\<lambda>i. i \<le> 2147483647) (map (\<lambda>k. 2 ^ k) [0..<60]) = map (\<lambda>k. 2 ^ k :: int) [0..<31]"
    unfolding split [of 31, simplified] map_append filter_append
    using 31 by (simp add: filter_map comp_def filter_empty_conv del: upt_Suc cong: filter_cong)
  show "filter (\<lambda>i. i \<le> 32767) (map (\<lambda>k. 2 ^ k) [0..<60]) = map (\<lambda>k. 2 ^ k :: int) [0..<15]"
    unfolding split [of 15, simplified] map_append filter_append
    using 15 by (simp add: filter_map comp_def filter_empty_conv del: upt_Suc cong: filter_cong)
qed

lemma initPow_total:
  assumes "arg_inv fa st"
  shows "\<exists>st'. initPow fa st = Inr st' \<and> arg_inv fa st'"
  unfolding initPow_foldR using assms initPow_body_total
  by (intro foldR_total [where P = "arg_inv fa"])

lemma initPow_vals:
  assumes "big_vals [0] st" and "initPow fa st = Inr st'"
  shows "big_vals (0 # map (\<lambda>k. 2 ^ k) [0..<60]) st'"
proof -
  have "inj ((^) (2 :: int))" by (auto intro!: injI)
  then have "distinct ([0] @ map (\<lambda>k. (2 :: int) ^ k) [0..<60])"
    by (auto simp: distinct_map inj_on_def simp del: upt_Suc)
  from initPow_loop_vals [OF assms(1) assms(2) [unfolded initPow_foldR] this] show ?thesis by simp
qed

lemma powers_word: "map word_of_int (map (\<lambda>k. 2 ^ k) ns) = map (\<lambda>k. 2 ^ k :: 'a :: len word) ns"
  by (simp add: comp_def)

lemma initPow_ints:
  assumes "initPow fa st = Inr st'"
  shows "Int8Pool st' = Int8Pool st \<and> StringPool st' = StringPool st \<and>
    Int64Pool st' = fold ring_offer (map (\<lambda>k. 2 ^ k) [0..<60]) (Int64Pool st) \<and>
    Int32Pool st' = fold ring_offer (map (\<lambda>k. 2 ^ k) [0..<31]) (Int32Pool st) \<and>
    Int16Pool st' = fold ring_offer (map (\<lambda>k. 2 ^ k) [0..<15]) (Int16Pool st)"
  using initPow_body_loop [OF assms [unfolded initPow_foldR]]
  by (simp only: powers_below powers_word)

text \<open>The whole initialisation, with the pool states along the way.\<close>

lemma InitArgPool_result:
  fixes st :: "'z genst_scheme"
  assumes inv: "arg_inv fa st" and fresh: "pools st (BigIntPool st) = Some ring_new"
  shows "\<exists>st'. InitArgPool fa accs st = Inr st' \<and> arg_inv fa st' \<and>
    Int8Pool st' = fold ring_offer (map word_of_nat [0..<256]) (Int8Pool st) \<and>
    Int16Pool st' = fold ring_offer (map (\<lambda>k. 2 ^ k) [0..<15] @ map word_of_nat [0..<256]) (Int16Pool st) \<and>
    Int32Pool st' = fold ring_offer (map (\<lambda>k. 2 ^ k) [0..<31] @ map word_of_nat [0..<256]) (Int32Pool st) \<and>
    Int64Pool st' = fold ring_offer ((- 1) # map (\<lambda>k. 2 ^ k) [0..<60] @ map word_of_nat [0..<256]) (Int64Pool st) \<and>
    StringPool st' = ring_offer ''ChainSecurity'' (StringPool st) \<and>
    (\<forall>v \<in> set (0 # map (\<lambda>k. 2 ^ k) [0..<60]). \<exists>z \<in> set (bigptrs st'). big_get (bigs st') z = Inr v) \<and>
    fa ` fst ` set accs \<subseteq> fa ` set (addresses st')"
proof -
  let ?z = "fst (big_new 0 (bigs st))" and ?h = "snd (big_new 0 (bigs st))"
  have "big_vals [] st" unfolding big_vals_def using fresh
    by (intro exI [of _ ring_new] exI [of _ "[]"]) (simp add: ring_new_def)
  from big_vals_add [OF this, of fa 0]
  obtain A where A: "ArgPool_AddBigInt fa ?z (st\<lparr>bigs := ?h\<rparr>) = Inr A" "big_vals [0] A" by auto
  have "arg_inv fa (st\<lparr>bigs := ?h\<rparr>)" using inv by simp
  from ArgPool_AddBigInt_total [OF this, of ?z] A(1) have invA: "arg_inv fa A" by auto
  let ?B = "ArgPool_AddInt64 (- 1) A"
  have invB: "arg_inv fa ?B" using invA by (rule arg_inv_adds(4))
  obtain C where C: "initPow fa ?B = Inr C" "arg_inv fa C" using initPow_total [OF invB] by blast
  have valsC: "big_vals (0 # map (\<lambda>k. 2 ^ k) [0..<60]) C" using initPow_vals [OF _ C(1)] A(2) by simp
  obtain D r p where D: "initBytes C = Inr D" "arg_inv fa D" "D = C\<lparr>rnd := r, Bytes32Pool := p\<rparr>"
    using initBytes_total [OF C(2)] by blast
  let ?E = "initSmall (ArgPool_AddString ''ChainSecurity'' D)"
  have invE: "arg_inv fa ?E" using D(2) by (intro initSmall_inv arg_inv_adds(6))
  obtain F where F: "initAccounts fa accs ?E = Inr F" "arg_inv fa F" "bigs F = bigs ?E"
      "set (bigptrs ?E) \<subseteq> set (bigptrs F)" "fa ` fst ` set accs \<subseteq> fa ` set (addresses F)"
      "Int8Pool F = Int8Pool ?E" "Int16Pool F = Int16Pool ?E" "Int32Pool F = Int32Pool ?E"
      "Int64Pool F = Int64Pool ?E" "StringPool F = StringPool ?E"
    using initAccounts_total [OF invE, of accs] by blast
  have "InitArgPool fa accs st = Inr F"
    using A(1) C(1) D(1) F(1) by (simp add: InitArgPool_def case_prod_beta)
  moreover have "bigs ?E = bigs C \<and> bigptrs ?E = bigptrs C"
    by (simp add: initSmall_frame D(3) add_offer) (simp add: bigptrs_def)
  then have "\<forall>v \<in> set (0 # map (\<lambda>k. 2 ^ k) [0..<60]). \<exists>z \<in> set (bigptrs F). big_get (bigs F) z = Inr v"
    using big_vals_known [OF valsC] F(3,4) by (metis subsetD)
  ultimately show ?thesis
    using F initPow_ints [OF C(1)] AddBigInt_frame [OF A(1)]
    by (simp add: initSmall_ints D(3) add_offer del: upt_Suc)
qed

section \<open>Properties\<close>

text \<open>A fresh argument pool with a random source, for concrete instances.\<close>

definition start_with :: "rng \<Rightarrow> genst" where
  "start_with r = argst.extend argpool_start (genst.fields r)"

lemma start_with_eq:
  "start_with r =
     \<lparr>Int8Pool = ring_new, Int16Pool = ring_new, Int32Pool = ring_new, Int64Pool = ring_new,
      Bytes32Pool = ring_new, AddressPool = ''Address'', BigIntPool = ''BigInt'',
      StringPool = ring_new, TimestampPool = GetTimestampPool,
      pools = [''Address'' \<mapsto> ring_new, ''BigInt'' \<mapsto> ring_new], bigs = [], rnd = r\<rparr>"
  by (simp add: start_with_def argpool_start_eq argst.extend_def genst.fields_def)

lemma arg_inv_start_with: "arg_inv fa (start_with r)"
  using arg_inv_start [of fa] by (simp add: arg_inv_def start_with_eq argpool_start_eq)

text \<open>
  C14: The arguments constructed for a method have exactly the Go types of its ABI inputs, in order
  and recursively (so packing them cannot fail on a type), and constructing them changes no
  content of the argument pool: only reader positions and the random source move.
\<close>

theorem construct_args_typed:
  assumes "arg_inv fa st" and "b32_ok st" and "ConstructArgs Ts st = Inr (vs, st')"
  shows "map typeOf vs = Ts \<and> list_all wf_val vs \<and> contents st' = contents st \<and> arg_inv fa st'"
proof -
  have "fill_inv fa (contents st) st" using assms(1) by (simp add: fill_inv_def)
  from construct_sound [OF this assms(3)]
  have inv: "fill_inv fa (contents st) st'" and res: "list_all2 (fill_result (contents st)) Ts vs" by auto
  have "fill_result (contents st) T v \<Longrightarrow> typeOf v = T \<and> wf_val v" for T v
    using assms(2) by (simp add: fill_result_def b32_ok_def contents_def)
  with res have "list_all2 (\<lambda>T v. typeOf v = T \<and> wf_val v) Ts vs"
    by (rule list_all2_mono)
  then have "map typeOf vs = Ts \<and> list_all wf_val vs"
    by (induction Ts vs rule: list_all2_induct) simp_all
  with inv show ?thesis by (simp add: fill_inv_def)
qed

theorem construct_args_typed_witness:
  "\<exists>vs st'. ConstructArgs [UInt8Type, ArrayType 2 BoolType, Bytes32Type] (start_with (\<lambda>_. 0)) = Inr (vs, st') \<and>
     map typeOf vs = [UInt8Type, ArrayType 2 BoolType, Bytes32Type] \<and> list_all wf_val vs"
proof -
  have inv: "arg_inv (\<lambda>_. []) (start_with (\<lambda>_. 0))" by (rule arg_inv_start_with)
  have b: "b32_ok (start_with (\<lambda>_. 0))" by (simp add: b32_ok_def start_with_eq ring_new_def)
  obtain vs st' where r: "ConstructArgs [UInt8Type, ArrayType 2 BoolType, Bytes32Type] (start_with (\<lambda>_. 0)) = Inr (vs, st')"
    by (simp add: start_with_eq ret_val_def ArgPool_NextInt8_def ArgPool_NextBytes32_def ring_Next_def ring_new_def
        draw_Int_def rand_Int_def Bytes32Type_def numeral_2_eq_2)
  then have "map typeOf vs = [UInt8Type, ArrayType 2 BoolType, Bytes32Type] \<and> list_all wf_val vs"
    using construct_args_typed [OF inv b r] by simp
  with r show ?thesis by metis
qed

text \<open>
  C15: Once the argument pool holds an address and a big integer, constructing arguments succeeds
  exactly for the recognised types: a panic means an ABI type that no case of
  \<^verbatim>\<open>fillRecursively\<close> handles (other than as element of an array of length 0).
\<close>

theorem construct_args_total:
  assumes "arg_inv fa st" and "addresses st \<noteq> []" and "bigptrs st \<noteq> []"
  shows "(\<exists>vs st'. ConstructArgs Ts st = Inr (vs, st')) \<longleftrightarrow> list_all fillable Ts"
proof -
  have inv: "fill_inv fa (contents st) st" using assms(1) by (simp add: fill_inv_def)
  have ne: "c_address (contents st) \<noteq> []" "c_bigInt (contents st) \<noteq> []"
    using assms(2,3) by (simp_all add: contents_def)
  show ?thesis using construct_total [OF inv _ ne] construct_fillable by metis
qed

theorem construct_args_total_witness:
  "\<exists>st. addresses st \<noteq> [] \<and> bigptrs st \<noteq> [] \<and>
     \<not> (\<exists>vs st'. ConstructArgs [SliceType (OtherType ''struct'')] (st :: genst) = Inr (vs, st')) \<and>
     (\<exists>vs st'. ConstructArgs [SliceType AddressType] st = Inr (vs, st'))"
proof -
  let ?st = "(start_with (\<lambda>_. 0))
    \<lparr>pools := [''Address'' \<mapsto> \<lparr>p_idx = 0, p_storage = [IAddress 7], p_storageMap = {''7''}\<rparr>,
              ''BigInt'' \<mapsto> \<lparr>p_idx = 0, p_storage = [IBigInt 1], p_storageMap = {''0''}\<rparr>], bigs := [0]\<rparr>"
  have inv: "arg_inv (\<lambda>_. ''7'') ?st"
    by (simp add: arg_inv_def start_with_eq typed_ok_new ts_ok_new addr_ok_def bigpool_ok_def ring_inv_def)
  have ne: "addresses ?st \<noteq> []" "bigptrs ?st \<noteq> []"
    by (simp_all add: addresses_def bigptrs_def start_with_eq)
  have "\<not> (\<exists>vs st'. ConstructArgs [SliceType (OtherType ''struct'')] ?st = Inr (vs, st'))"
    using construct_args_total [OF inv ne, of "[SliceType (OtherType ''struct'')]"] by simp
  moreover have "\<exists>vs st'. ConstructArgs [SliceType AddressType] ?st = Inr (vs, st')"
    using construct_args_total [OF inv ne, of "[SliceType AddressType]"] by simp
  ultimately show ?thesis using ne by blast
qed

text \<open>
  No constructed argument contains the boolean \<^verbatim>\<open>true\<close>, at any depth, whatever the random
  source: the missing \<^verbatim>\<open>return\<close> in the boolean case of \<^verbatim>\<open>fillRecursively\<close> makes every
  boolean \<^verbatim>\<open>false\<close>.
\<close>

lemma constructed_bools_false:
  assumes "arg_inv fa st" and "ConstructArgs Ts st = Inr (vs, st')"
  shows "True \<notin> set (concat (map bools vs))"
proof -
  have "fill_inv fa (contents st) st" using assms(1) by (simp add: fill_inv_def)
  from construct_sound [OF this assms(2)] have "list_all2 (fill_result (contents st)) Ts vs" by simp
  then show ?thesis by (induction Ts vs rule: list_all2_induct) (simp_all add: fill_result_def)
qed



end
