(* ===== verification/Bytecode.thy ===== *)
theory Bytecode
  imports GoLib "HOL-Library.Sublist" "HOL-Library.Multiset"
begin

text \<open>
  The functions of \<^verbatim>\<open>utils/contracts.go\<close> and \<^verbatim>\<open>utils/utils.go\<close> that work on the text of
  bytecode and of file names: finding the swarm hash in it, replacing the placeholders of
  unlinked libraries, the indices of its instructions, and removing a name from a slice of names.
\<close>

section \<open>The swarm hash\<close>

text \<open>\<^verbatim>\<open>bzzr0\<close>: the hexadecimal text of the bytes \<^verbatim>\<open>0xa1 0x65\<close> and ``bzzr0''.\<close>

definition bzzr0 :: string where
  "bzzr0 = hex_encode ([0xa1, 0x65] @ map of_char ''bzzr0'')"

lemma bzzr0_eq: "bzzr0 = ''a165627a7a7230''"
  by code_simp

definition GetSwarmHash :: "string \<Rightarrow> (string \<times> bool) res" where
  "GetSwarmHash bytecode =
     (let idx = lastIndex bytecode bzzr0 in
      if idx = -1 then Inr ([], False)
      else bindR (slice (idx + int (length bzzr0)) (idx + int (length bzzr0) + 64) bytecode) (\<lambda>swarmHash.
        Inr (swarmHash, True)))"

section \<open>Placeholders\<close>

text \<open>\<^verbatim>\<open>string(b)\<close> of a byte is the UTF-8 encoding of the code point \<^verbatim>\<open>b\<close>.\<close>

definition string_of_byte :: "char \<Rightarrow> string" where
  "string_of_byte c =
     (let n = of_char c in
      if n < (128 :: nat) then [c] else [char_of (192 + n div 64), char_of (128 + n mod 64)])"

text \<open>
  The loop over the bytes: at an underscore it writes 40 zeros and skips 40 bytes (39 and the one
  of the loop header), possibly past the end.
\<close>

function ReplacePlaceHolders :: "string \<Rightarrow> string" where
  "ReplacePlaceHolders [] = []"
| "ReplacePlaceHolders (c # cs) =
     (if c = CHR ''_'' then replicate 40 CHR ''0'' @ ReplacePlaceHolders (drop 39 cs)
      else string_of_byte c @ ReplacePlaceHolders cs)"
  by pat_completeness auto
termination
  by (relation "measure length") auto

section \<open>Indices of instructions\<close>

text \<open>
  \<open>pcs\<close> stands for go-ethereum's \<^verbatim>\<open>asm.InstructionIterator\<close>: the program counters at which it
  stops on a byte code. The error of \<^verbatim>\<open>hex.DecodeString\<close> is ignored.
\<close>

definition opcodeIndices :: "(bytes \<Rightarrow> 64 word list) \<Rightarrow> string \<Rightarrow> 64 word list res" where
  "opcodeIndices pcs bytecode =
     (let idx = lastIndex bytecode bzzr0 in
      bindR (slice 0 (idx - 1) bytecode) (\<lambda>bytecode.
        Inr (pcs (fst (hex_decode (ReplacePlaceHolders bytecode))))))"

section \<open>Slices of names, file names\<close>

text \<open>
  Removal by overwriting with the last element and shortening. Both callers store the result in
  place of the argument, so the overwritten backing array is not visible through another slice.
\<close>

definition deleteFromSlice :: "string \<Rightarrow> string list \<Rightarrow> string list" where
  "deleteFromSlice val a =
     (let i = length (takeWhile (\<lambda>s. s \<noteq> val) a) in
      if i < length a then take (length a - 1) (a[i := a ! (length a - 1)]) else a)"

definition getFilename :: "string \<Rightarrow> string" where
  "getFilename filename = trimSuffix filename (filepath_Ext filename)"

section \<open>Lemmas\<close>

lemma length_bzzr0 [simp]: "length bzzr0 = 14"
  by (simp add: bzzr0_eq)

lemma from_hex_char_ascii:
  assumes "from_hex_char c \<noteq> None"
  shows "c \<noteq> CHR ''_'' \<and> string_of_byte c = [c]"
proof -
  have "of_char c < (128 :: nat)" using assms by (auto simp: from_hex_char_def Let_def split: if_splits)
  moreover have "from_hex_char CHR ''_'' = None" by (simp add: from_hex_char_def)
  ultimately show ?thesis using assms by (auto simp: string_of_byte_def)
qed

lemma ReplacePlaceHolders_hex:
  "list_all (\<lambda>c. from_hex_char c \<noteq> None) xs \<Longrightarrow>
     ReplacePlaceHolders (xs @ s) = xs @ ReplacePlaceHolders s"
  by (induction xs) (simp_all add: from_hex_char_ascii)

lemma hex_encode_digits: "list_all (\<lambda>c. from_hex_char c \<noteq> None) (hex_encode bs)"
  by (simp only: list_all_iff) (blast dest: hex_encode_char)

lemma ReplacePlaceHolders_encode [simp]:
  "ReplacePlaceHolders (hex_encode bs @ s) = hex_encode bs @ ReplacePlaceHolders s"
  by (rule ReplacePlaceHolders_hex [OF hex_encode_digits])

lemma ReplacePlaceHolders_placeholder:
  assumes "length ph = 40" and "ph ! 0 = CHR ''_''"
  shows "ReplacePlaceHolders (ph @ s) = replicate 40 CHR ''0'' @ ReplacePlaceHolders s"
proof (cases ph)
  case Nil
  then show ?thesis using assms(1) by simp
next
  case (Cons c cs)
  then have "c = CHR ''_''" and "length cs = 39" using assms by simp_all
  then show ?thesis unfolding Cons by simp
qed

lemma hex_encode_zeros: "hex_encode (replicate n 0) = replicate (2 * n) CHR ''0''"
proof (induction n)
  case (Suc n)
  have "hex_digit 0 = CHR ''0''" by code_simp
  with Suc show ?case by (simp add: hex_encode_Cons)
qed simp

text \<open>
  The code of a contract as the compiler writes it before linking: bytes, with a placeholder of 40
  characters starting with an underscore for each library address; linked to address 0.
\<close>

datatype segment = Code bytes | Placeholder string

fun segment_text :: "segment \<Rightarrow> string" where
  "segment_text (Code bs) = hex_encode bs"
| "segment_text (Placeholder ph) = ph"

fun segment_bytes :: "segment \<Rightarrow> bytes" where
  "segment_bytes (Code bs) = bs"
| "segment_bytes (Placeholder ph) = replicate 20 0"

fun segment_ok :: "segment \<Rightarrow> bool" where
  "segment_ok (Code bs) \<longleftrightarrow> True"
| "segment_ok (Placeholder ph) \<longleftrightarrow> length ph = 40 \<and> ph ! 0 = CHR ''_''"

lemma ReplacePlaceHolders_segments:
  "list_all segment_ok segs \<Longrightarrow>
     ReplacePlaceHolders (concat (map segment_text segs) @ s) =
     hex_encode (concat (map segment_bytes segs)) @ ReplacePlaceHolders s"
proof (induction segs)
  case (Cons g segs)
  show ?case
  proof (cases g)
    case (Code bs)
    then show ?thesis using Cons by simp
  next
    case (Placeholder ph)
    then have "length ph = 40" "ph ! 0 = CHR ''_''" using Cons.prems by simp_all
    from ReplacePlaceHolders_placeholder [OF this] Placeholder Cons show ?thesis
      by (simp add: hex_encode_zeros)
  qed
qed simp

lemma slice_prefix: "slice 0 (int (length xs)) (xs @ ys) = Inr xs"
  by (simp add: slice_def)

lemma GetSwarmHash_at:
  assumes "occurs_at s bzzr0 i" and "\<And>j. i < j \<Longrightarrow> \<not> occurs_at s bzzr0 j"
  shows "GetSwarmHash s =
    (if i + 78 \<le> length s then Inr (take 64 (drop (i + 14) s), True) else Inl SliceBounds)"
  using lastIndex_last [OF assms]
  by (auto simp: GetSwarmHash_def slice_def Let_def nat_add_distrib add.commute)

lemma GetSwarmHash_none: "(\<And>i. \<not> occurs_at s bzzr0 i) \<Longrightarrow> GetSwarmHash s = Inr ([], False)"
  using lastIndex_none [of s bzzr0] by (simp add: GetSwarmHash_def)

lemma occurs_at_append: "occurs_at (xs @ sep @ ys) sep (length xs)"
  by (simp add: occurs_at_def)

text \<open>Removing a name.\<close>

lemma deleteFromSlice_absent: "v \<notin> set a \<Longrightarrow> deleteFromSlice v a = a"
proof -
  assume "v \<notin> set a"
  then have tw: "takeWhile (\<lambda>s. s \<noteq> v) a = a" by (subst takeWhile_eq_all_conv) auto
  show ?thesis unfolding deleteFromSlice_def Let_def tw by simp
qed

lemma deleteFromSlice_split:
  assumes "v \<notin> set us"
  shows "deleteFromSlice v (us @ v # vs) = (if vs = [] then us else us @ last vs # butlast vs)"
proof -
  have tw: "takeWhile (\<lambda>s. s \<noteq> v) (us @ v # vs) = us"
    using assms by (subst takeWhile_append2) auto
  show ?thesis
  proof (cases vs rule: rev_cases)
    case Nil
    then show ?thesis by (simp add: deleteFromSlice_def Let_def tw [unfolded Nil])
  next
    case (snoc ws w)
    then show ?thesis
      by (simp add: deleteFromSlice_def Let_def tw [unfolded snoc] list_update_append nth_append)
  qed
qed

lemma deleteFromSlice_mset: "mset (deleteFromSlice v a) = mset a - {#v#}"
proof (cases "v \<in> set a")
  case False
  then show ?thesis by (simp add: deleteFromSlice_absent)
next
  case True
  then obtain us vs where a: "a = us @ v # vs" "v \<notin> set us" by (auto dest: split_list_first)
  show ?thesis
  proof (cases vs rule: rev_cases)
    case Nil
    then show ?thesis using a by (simp add: deleteFromSlice_split)
  next
    case (snoc ws w)
    then show ?thesis using a by (simp add: deleteFromSlice_split)
  qed
qed

lemma deleteFromSlice_distinct:
  assumes "distinct a"
  shows "distinct (deleteFromSlice v a) \<and> set (deleteFromSlice v a) = set a - {v}"
proof (cases "v \<in> set a")
  case False
  then show ?thesis using assms by (simp add: deleteFromSlice_absent)
next
  case True
  then obtain us vs where a: "a = us @ v # vs" "v \<notin> set us" by (auto dest: split_list_first)
  show ?thesis
    using assms a by (cases vs rule: rev_cases) (auto simp: deleteFromSlice_split)
qed

text \<open>A truffle artifact \<^verbatim>\<open>Name.json\<close> is the file of the contract \<^verbatim>\<open>Name\<close>.\<close>

lemma takeWhile_rev_dot:
  "P \<notin> set e \<Longrightarrow> takeWhile (\<lambda>c. c \<noteq> P) (rev e @ P # ys) = rev e"
  by (subst takeWhile_append2) auto

lemma getFilename_ext:
  assumes "CHR ''.'' \<notin> set e" and "CHR ''/'' \<notin> set e"
  shows "getFilename (name @ CHR ''.'' # e) = name"
proof -
  let ?base = "rev (takeWhile (\<lambda>c. c \<noteq> CHR ''/'') (rev (name @ CHR ''.'' # e)))"
  have base: "?base = rev (takeWhile (\<lambda>c. c \<noteq> CHR ''/'') (rev name)) @ CHR ''.'' # e"
    using assms(2) takeWhile_append2 [of "rev (CHR ''.'' # e)" "\<lambda>c. c \<noteq> CHR ''/''" "rev name"]
    by (force simp: rev_append)
  have "filepath_Ext (name @ CHR ''.'' # e) = CHR ''.'' # e"
    using assms(1) unfolding filepath_Ext_def Let_def base by (simp add: takeWhile_rev_dot)
  then show ?thesis by (simp add: getFilename_def trimSuffix_def)
qed

text \<open>The marker does not occur again in a text without the digit \<open>a\<close> after it.\<close>

lemma marker_once:
  assumes "CHR ''a'' \<notin> set rest" and "length pre < j"
  shows "\<not> occurs_at (pre @ bzzr0 @ rest) bzzr0 j"
proof
  assume o: "occurs_at (pre @ bzzr0 @ rest) bzzr0 j"
  define d where "d = j - length pre"
  have d: "0 < d" "j = length pre + d" using assms(2) by (simp_all add: d_def)
  have t: "take 14 (drop d (bzzr0 @ rest)) = bzzr0" and len: "d + 14 \<le> 14 + length rest"
    using o d(2) by (simp_all add: occurs_at_def)
  have nt: "take 14 (drop d xs) ! k = xs ! (d + k)" if "k < 14" "d \<le> length xs" for k and xs :: string
    using that by simp
  have dl: "d \<le> length (bzzr0 @ rest)" using len by simp
  have n: "(bzzr0 @ rest) ! d = CHR ''a''" "(bzzr0 @ rest) ! (d + 1) = CHR ''1''"
    using nt [OF _ dl, of 0] nt [OF _ dl, of 1] unfolding t by (simp_all add: bzzr0_eq)
  show False
  proof (cases "d < 13")
    case True
    with d(1) have "d = 1 \<or> d = 2 \<or> d = 3 \<or> d = 4 \<or> d = 5 \<or> d = 6 \<or> d = 7 \<or> d = 8 \<or> d = 9 \<or> d = 10 \<or> d = 11 \<or> d = 12"
      by arith
    then show ?thesis using n by (elim disjE) (simp_all add: bzzr0_eq)
  next
    case False
    then consider "d = 13" | "14 \<le> d" by linarith
    then show ?thesis
    proof cases
      case 1
      then show ?thesis using n(1) by (simp add: bzzr0_eq)
    next
      case 2
      then have "rest ! (d - 14) = CHR ''a''" using n(1) by (simp add: nth_append)
      moreover have "d - 14 < length rest"
        using len 2 by linarith
      ultimately show ?thesis using assms(1) by (metis nth_mem)
    qed
  qed
qed

section \<open>Properties\<close>

text \<open>
  C28: For deployed code as the compiler and truffle write it (code with placeholders for unlinked
  libraries, a \<^verbatim>\<open>STOP\<close>, the metadata marker and whatever follows, the marker not occurring
  later), the instruction indices are those of the code itself, each placeholder replaced by the
  zero address: the \<^verbatim>\<open>STOP\<close> byte and the metadata are left out.
\<close>

theorem opcode_indices_linked:
  assumes "list_all segment_ok segs"
    and "s = concat (map segment_text segs) @ ''00'' @ bzzr0 @ rest"
    and "\<forall>j > length (concat (map segment_text segs)) + 2. \<not> occurs_at s bzzr0 j"
  shows "opcodeIndices pcs s = Inr (pcs (concat (map segment_bytes segs)))"
proof -
  let ?pre = "concat (map segment_text segs)"
  have s: "s = (?pre @ ''0'') @ (''0'' @ bzzr0 @ rest)" using assms(2) by simp
  have "occurs_at s bzzr0 (length ?pre + 2)"
    using occurs_at_append [of "?pre @ ''00''" bzzr0 rest] assms(2) by simp
  then have idx: "lastIndex s bzzr0 = int (length ?pre + 2)"
    using assms(3) by (intro lastIndex_last) auto
  have "lastIndex s bzzr0 - 1 = int (length (?pre @ ''0''))" unfolding idx by simp
  then have sl: "slice 0 (lastIndex s bzzr0 - 1) s = Inr (?pre @ ''0'')"
    unfolding s by (simp only: slice_prefix)
  have zero: "ReplacePlaceHolders ''0'' = ''0''"
    using ReplacePlaceHolders_hex [of "''0''" "[]"] by (simp add: from_hex_char_def)
  have "fst (hex_decode (ReplacePlaceHolders (?pre @ ''0''))) = concat (map segment_bytes segs)"
    unfolding ReplacePlaceHolders_segments [OF assms(1)] zero
    by (simp add: hex_decode_encode_append from_hex_char_def split: prod.splits)
  then show ?thesis by (simp add: opcodeIndices_def sl)
qed

theorem opcode_indices_linked_witness:
  "opcodeIndices (\<lambda>bs. map (\<lambda>i. of_nat i) [0..<length bs])
     (''6001'' @ replicate 40 CHR ''_'' @ ''00'' @ bzzr0 @ ''5820'') = Inr (map of_nat [0..<22])"
proof -
  let ?segs = "[Code [0x60, 1], Placeholder (replicate 40 CHR ''_'')]"
  have text_eq: "concat (map segment_text ?segs) = ''6001'' @ replicate 40 CHR ''_''"
    by (simp add: hex_encode_def) code_simp
  let ?s = "(''6001'' @ replicate 40 CHR ''_'') @ ''00'' @ bzzr0 @ ''5820''"
  have "\<not> occurs_at ?s bzzr0 j" if "j > 46" for j
    using marker_once [of "''5820''" "''6001'' @ replicate 40 CHR ''_'' @ ''00''" j] that by simp
  then have "\<forall>j > length (concat (map segment_text ?segs)) + 2. \<not> occurs_at ?s bzzr0 j"
    unfolding text_eq by simp
  from opcode_indices_linked [OF _ _ this, of "''5820''" "\<lambda>bs. map (\<lambda>i. of_nat i) [0..<length bs]"]
  show ?thesis unfolding text_eq by (simp add: nth_append)
qed

text \<open>
  \<^verbatim>\<open>GetOpcodeIndices\<close> panics with a slice out of bounds exactly when the metadata marker does
  not occur in the code after its first position, e.g. for the empty code of an abstract contract.
\<close>

lemma opcode_indices_panic:
  "opcodeIndices pcs s = Inl SliceBounds \<longleftrightarrow> \<not> (\<exists>i. 0 < i \<and> occurs_at s bzzr0 i)"
proof (cases rule: lastIndex_cases [of s bzzr0])
  case 1
  then show ?thesis by (simp add: opcodeIndices_def slice_def)
next
  case (2 i)
  have "i \<le> length s" using 2(2) by (simp add: occurs_at_def)
  moreover have "(\<exists>i. 0 < i \<and> occurs_at s bzzr0 i) \<longleftrightarrow> 0 < i"
    using 2(2,3) by (metis linorder_neqE_nat gr_implies_not0 neq0_conv)
  ultimately show ?thesis using 2(1) by (auto simp: opcodeIndices_def slice_def)
qed

text \<open>
  C29: The text \<^verbatim>\<open>GetSwarmHash\<close> returns for code with solidity's metadata (marker, the CBOR header
  \<^verbatim>\<open>58 20\<close> of a 32-byte string, the 32 bytes of the hash, \<^verbatim>\<open>00 29\<close>) is not the swarm hash: it is
  the header followed by the first 30 bytes of the hash, whose last two bytes are dropped.
\<close>

theorem swarm_hash_of_metadata:
  assumes "length h = 32"
    and "s = hex_encode (code @ [0xa1, 0x65] @ map of_char ''bzzr0'' @ [0x58, 0x20] @ h @ tail)"
    and "\<forall>j > 2 * length code. \<not> occurs_at s bzzr0 j"
  shows "GetSwarmHash s = Inr (hex_encode ([0x58, 0x20] @ take 30 h), True)"
proof -
  have s: "s = hex_encode code @ bzzr0 @ hex_encode ([0x58, 0x20] @ h @ tail)"
    unfolding assms(2) by (simp only: bzzr0_def hex_encode_simps append.assoc)
  have h: "h = take 30 h @ drop 30 h" by simp
  have occ: "occurs_at s bzzr0 (2 * length code)"
    using occurs_at_append [of "hex_encode code"] unfolding s by simp
  have len: "length (hex_encode ([0x58, 0x20] @ take 30 h)) = 64" using assms(1) by simp
  have "drop (2 * length code + 14) s = hex_encode ([0x58, 0x20] @ h @ tail)"
    unfolding s by simp
  also have "\<dots> = hex_encode ([0x58, 0x20] @ take 30 h) @ hex_encode (drop 30 h @ tail)"
    by (subst h) (simp only: hex_encode_simps append.assoc)
  finally have "take 64 (drop (2 * length code + 14) s) = hex_encode ([0x58, 0x20] @ take 30 h)"
    using len by simp
  moreover have "2 * length code + 78 \<le> length s" unfolding s using assms(1) by simp
  ultimately show ?thesis using GetSwarmHash_at [OF occ] assms(3) by simp
qed

theorem swarm_hash_of_metadata_witness:
  "GetSwarmHash (hex_encode ([0x60] @ [0xa1, 0x65] @ map of_char ''bzzr0'' @ [0x58, 0x20] @ replicate 32 7 @ [0, 0x29])) =
     Inr (hex_encode ([0x58, 0x20] @ replicate 30 7), True)"
proof -
  let ?s = "hex_encode ([0x60] @ [0xa1, 0x65] @ map of_char ''bzzr0'' @ [0x58, 0x20] @ replicate 32 7 @ [0, 0x29])"
  have lit: "?s = ''60'' @ bzzr0 @ ''582007070707070707070707070707070707070707070707070707070707070707070029''" unfolding bzzr0_eq by code_simp
  have "\<not> occurs_at ?s bzzr0 j" if "j > 2" for j
    unfolding lit by (rule marker_once) (use that in simp_all)
  then have "\<forall>j > 2 * length [0x60 :: 8 word]. \<not> occurs_at ?s bzzr0 j" by simp
  from swarm_hash_of_metadata [OF _ refl this] show ?thesis by (simp del: hex_encode_simps)
qed

text \<open>
  \<^verbatim>\<open>deleteFromSlice\<close> removes one occurrence of the name and keeps every other name as often as
  before (in another order), so its result is one shorter exactly if the name was there.
\<close>

lemma delete_from_slice:
  "mset (deleteFromSlice v a) = mset a - {#v#} \<and>
   length (deleteFromSlice v a) = (if v \<in> set a then length a - 1 else length a)"
proof -
  have "length (deleteFromSlice v a) = size (mset a - {#v#})" by (metis deleteFromSlice_mset size_mset)
  then show ?thesis by (simp add: deleteFromSlice_mset size_Diff_singleton_if)
qed

end
