(* ===== verification/Metadata.thy ===== *)
theory Metadata
  imports InitArgs Bytecode "HOL-Library.List_Lexorder" "HOL-Library.Char_ord"
begin

text \<open>
  The package state of \<^verbatim>\<open>utils\<close> (its global maps and caches), the environment the package
  reads (files and the cryptography of go-ethereum), and \<^verbatim>\<open>utils/utils.go\<close>: the metadata and
  configuration files behind their caches.
\<close>

section \<open>Data read from files\<close>

record MetadataJSON =
  TruffleDir :: string
  Transactions :: string
  AccountsFile :: string
  ConfigFile :: string

record ContractConfig =
  IgnoreAll :: bool
  IgnoredFunctions :: "string list"
  ConfigTimestamps :: "64 word list"

text \<open>
  An ABI method: is it constant, the Go types of its inputs and of its outputs. An ABI: its
  constructor and its methods by name (go-ethereum's \<^verbatim>\<open>abi.ABI\<close>, of which the sources use these).
\<close>

record abi_Method =
  Const :: bool
  Inputs :: "gtype list"
  Outputs :: "gtype list"

record abi =
  Constructor :: abi_Method
  ABIMethods :: "string \<rightharpoonup> abi_Method"

text \<open>
  A truffle artifact, as the decoders of \<^verbatim>\<open>GetABIMap\<close> and \<^verbatim>\<open>ReadDeployedBytecodes\<close> see it:
  the deployed byte code (empty when absent), the contract's name with the kinds and names of the
  AST's nodes, the ABI, and the ABI's list of names with their payable flag. A decoder that fails
  gives \<open>None\<close>.
\<close>

record artifact =
  deployedBytecode :: string
  astNodes :: "(string \<times> (string \<times> string) list) option"
  artABI :: "abi option"
  artPayable :: "(string \<times> bool) list option"

text \<open>An account of the accounts file: the key in hexadecimal, and its amount (nil when absent).\<close>

record accountJSON =
  jsonKey :: string
  jsonAmount :: "int option"

text \<open>
  Keys are pointers (\<^verbatim>\<open>*ecdsa.PrivateKey\<close>): the \<open>i\<close>-th key made is \<open>i\<close>, and the list \<open>keys\<close>
  of the state holds the secret number behind each. (A Go map keyed by the struct compares the
  pointers in it.)
\<close>

type_synonym keyptr = nat

record Account =
  Key :: keyptr
  Address :: address
  Amount :: bigptr
  Used :: bool

section \<open>The environment\<close>

text \<open>
  What is outside of the sources: the files by path (\<open>None\<close>: reading fails), go-ethereum's
  \<^verbatim>\<open>HexToECDSA\<close> and \<^verbatim>\<open>PubkeyToAddress\<close> on secret numbers, the decimal text of an address that
  keys the address pool, and the order in which a \<^verbatim>\<open>range\<close> visits a Go map with the given keys.
\<close>

record env =
  readMeta :: "string \<Rightarrow> MetadataJSON option"
  readConfig :: "string \<Rightarrow> (string \<rightharpoonup> ContractConfig) option"
  readBuildDir :: "string \<Rightarrow> string list option"
  readArtifact :: "string \<Rightarrow> artifact option"
  readAccounts :: "string \<Rightarrow> accountJSON list option"
  HexToECDSA :: "string \<Rightarrow> int option"
  PubkeyToAddress :: "int \<Rightarrow> address"
  fmtAddress :: "address \<Rightarrow> string"
  rangeOrder :: "string set \<Rightarrow> string list"

definition range_ok :: "'e env_scheme \<Rightarrow> bool" where
  "range_ok env \<longleftrightarrow> (\<forall>S. finite S \<longrightarrow> distinct (rangeOrder env S) \<and> set (rangeOrder env S) = S)"

lemma range_okD: "range_ok env \<Longrightarrow> finite S \<Longrightarrow> distinct (rangeOrder env S) \<and> set (rangeOrder env S) = S"
  by (simp add: range_ok_def)

section \<open>The package state\<close>

text \<open>Package variables of \<^verbatim>\<open>utils\<close>; \<open>None\<close> is a nil map or slice.\<close>

record utilst = genst +
  metadataJSONMap :: "string \<rightharpoonup> MetadataJSON"
  fuzzingConfig :: "(string \<rightharpoonup> ContractConfig) option"
  ContractHashes :: "(string \<rightharpoonup> (string \<rightharpoonup> string)) option"
  DeployedBytecodes :: "(string \<rightharpoonup> string) option"
  ABIMap :: "(string \<rightharpoonup> abi) option"
  Payable :: "(string \<rightharpoonup> (string \<rightharpoonup> bool)) option"
  Libraries :: "(string \<rightharpoonup> bool) option"
  accounts :: "Account list option"
  keyToAddress :: "keyptr \<rightharpoonup> address"
  addressToKey :: "address \<rightharpoonup> keyptr"
  keys :: "int list"

text \<open>A read of a map that may be nil.\<close>

definition nil_map :: "('a \<rightharpoonup> 'b) option \<Rightarrow> 'a \<rightharpoonup> 'b" where
  "nil_map m = (case m of None \<Rightarrow> Map.empty | Some m \<Rightarrow> m)"

lemma nil_map_simps [simp]: "nil_map None = Map.empty" "nil_map (Some m) = m"
  by (simp_all add: nil_map_def)

section \<open>Values read once\<close>

text \<open>
  The interface of the package's caches: a reader that returns the cached value when there is
  one, leaving the state alone, and that caches what it returns.
\<close>

locale memo =
  fixes read :: "'s \<Rightarrow> ('v \<times> 's) res" and cached :: "'s \<Rightarrow> 'v option"
  assumes hit: "cached s = Some v \<Longrightarrow> read s = Inr (v, s)"
    and fills: "read s = Inr (v, s') \<Longrightarrow> cached s' = Some v"
begin

text \<open>Reading again returns the same value and changes nothing: the file is read once.\<close>

lemma reread: "read s = Inr (v, s') \<Longrightarrow> read s' = Inr (v, s')"
  by (rule hit) (rule fills)

lemma rereads: "read s = Inr (v, s') \<Longrightarrow> draws n read s' = Inr (replicate n v, s')"
  by (induction n) (simp_all add: reread)

lemma first_wins:
  assumes "read s = Inr (v, s')" and "cached t = cached s'"
  shows "read t = Inr (v, t)"
  using hit [of t v] fills [OF assms(1)] assms(2) by simp

end

section \<open>utils.go\<close>

definition getMeta :: "'e env_scheme \<Rightarrow> string \<Rightarrow> 'z utilst_scheme \<Rightarrow> (MetadataJSON \<times> 'z utilst_scheme) res" where
  "getMeta env metadata st =
     (case metadataJSONMap st metadata of
        Some m \<Rightarrow> Inr (m, st)
      | None \<Rightarrow>
          (case readMeta env metadata of
             None \<Rightarrow> Inl (Panic ''Error reading metadata'')
           | Some m \<Rightarrow> Inr (m, st\<lparr>metadataJSONMap := (metadataJSONMap st)(metadata \<mapsto> m)\<rparr>)))"

definition getTxJSONFile :: "'e env_scheme \<Rightarrow> string \<Rightarrow> 'z utilst_scheme \<Rightarrow> (string \<times> 'z utilst_scheme) res" where
  "getTxJSONFile env metadata st = bindR (getMeta env metadata st) (\<lambda>(meta, st). Inr (Transactions meta, st))"

definition getAccountsJSONFile :: "'e env_scheme \<Rightarrow> string \<Rightarrow> 'z utilst_scheme \<Rightarrow> (string \<times> 'z utilst_scheme) res" where
  "getAccountsJSONFile env metadata st = bindR (getMeta env metadata st) (\<lambda>(meta, st). Inr (AccountsFile meta, st))"

definition getTruffleDir :: "'e env_scheme \<Rightarrow> string \<Rightarrow> 'z utilst_scheme \<Rightarrow> (string \<times> 'z utilst_scheme) res" where
  "getTruffleDir env metadata st = bindR (getMeta env metadata st) (\<lambda>(meta, st). Inr (TruffleDir meta, st))"

definition GetConfig ::
  "'e env_scheme \<Rightarrow> string \<Rightarrow> 'z utilst_scheme \<Rightarrow> ((string \<rightharpoonup> ContractConfig) \<times> 'z utilst_scheme) res" where
  "GetConfig env metadata st =
     (case fuzzingConfig st of
        Some c \<Rightarrow> Inr (c, st)
      | None \<Rightarrow> bindR (getMeta env metadata st) (\<lambda>(meta, st).
          (case readConfig env (ConfigFile meta) of
             None \<Rightarrow> Inl (Panic ''Error reading config file'')
           | Some c \<Rightarrow> Inr (c, st\<lparr>fuzzingConfig := Some c\<rparr>))))"

interpretation meta: memo "getMeta env metadata" "\<lambda>st. metadataJSONMap st metadata"
  by unfold_locales (auto simp: getMeta_def split: option.splits)

interpretation config: memo "GetConfig env metadata" fuzzingConfig
  by unfold_locales (auto simp: GetConfig_def elim!: bindR_InrE split: option.splits)

text \<open>What the readers leave alone.\<close>

lemma getMeta_frame: "getMeta env metadata st = Inr (m, st') \<Longrightarrow> \<exists>f. st' = st\<lparr>metadataJSONMap := f\<rparr>"
  by (auto simp: getMeta_def split: option.splits intro: exI [of _ "metadataJSONMap st"])

lemma getTruffleDir_frame: "getTruffleDir env metadata st = Inr (d, st') \<Longrightarrow> \<exists>f. st' = st\<lparr>metadataJSONMap := f\<rparr>"
  by (auto simp: getTruffleDir_def elim!: bindR_InrE dest!: getMeta_frame)

lemma getAccountsJSONFile_frame:
  "getAccountsJSONFile env metadata st = Inr (d, st') \<Longrightarrow> \<exists>f. st' = st\<lparr>metadataJSONMap := f\<rparr>"
  by (auto simp: getAccountsJSONFile_def elim!: bindR_InrE dest!: getMeta_frame)

section \<open>The state the program starts in, and a concrete environment\<close>

text \<open>The package variables after \<^verbatim>\<open>init()\<close>, over the pool of a new process.\<close>

definition utils_init :: "rng \<Rightarrow> utilst" where
  "utils_init r = genst.extend (start_with r)
     (utilst.fields Map.empty None None None None None None None Map.empty Map.empty [])"

lemma utils_init_simps [simp]:
  "metadataJSONMap (utils_init r) = Map.empty" "fuzzingConfig (utils_init r) = None"
  "ContractHashes (utils_init r) = None" "DeployedBytecodes (utils_init r) = None"
  "ABIMap (utils_init r) = None" "Payable (utils_init r) = None" "Libraries (utils_init r) = None"
  "accounts (utils_init r) = None" "keyToAddress (utils_init r) = Map.empty"
  "addressToKey (utils_init r) = Map.empty" "keys (utils_init r) = []"
  by (simp_all add: utils_init_def genst.defs utilst.defs)

text \<open>
  The project of the examples: one contract with a payable method \<open>mint\<close>, one library, two
  accounts, and maps visited in alphabetical order of their keys.
\<close>

definition token_code :: string where
  "token_code = ''6001'' @ ''00'' @ bzzr0 @ replicate 64 CHR ''1''"

definition token_abi :: abi where
  "token_abi = \<lparr>Constructor = \<lparr>Const = False, Inputs = [], Outputs = []\<rparr>,
     ABIMethods = [''mint'' \<mapsto> \<lparr>Const = False, Inputs = [UInt64Type], Outputs = []\<rparr>]\<rparr>"

definition token_artifact :: artifact where
  "token_artifact = \<lparr>deployedBytecode = ''0x'' @ token_code,
     astNodes = Some (''Token'', [(''contract'', ''Token''), (''library'', ''SafeMath'')]),
     artABI = Some token_abi, artPayable = Some [(''mint'', True)]\<rparr>"

definition safemath_artifact :: artifact where
  "safemath_artifact = \<lparr>deployedBytecode = ''0x6002'', astNodes = Some (''SafeMath'', [(''library'', ''SafeMath'')]),
     artABI = Some token_abi, artPayable = Some []\<rparr>"

definition example_env :: env where
  "example_env = \<lparr>readMeta = (\<lambda>_. Some \<lparr>TruffleDir = ''t'', Transactions = ''x'', AccountsFile = ''a'', ConfigFile = ''c''\<rparr>),
     readConfig = (\<lambda>_. Some [''Token'' \<mapsto> \<lparr>IgnoreAll = False, IgnoredFunctions = [], ConfigTimestamps = [1500000000]\<rparr>]),
     readBuildDir = (\<lambda>_. Some [''Token.json'', ''SafeMath.json'']),
     readArtifact = (\<lambda>f. if f = ''t/build/contracts/Token.json'' then Some token_artifact
        else if f = ''t/build/contracts/SafeMath.json'' then Some safemath_artifact else None),
     readAccounts = (\<lambda>_. Some [\<lparr>jsonKey = ''1'', jsonAmount = Some 100\<rparr>, \<lparr>jsonKey = ''2'', jsonAmount = Some 7\<rparr>]),
     HexToECDSA = (\<lambda>s. Some (int (undec s))),
     PubkeyToAddress = (\<lambda>k. word_of_int (k + 4096)),
     fmtAddress = (\<lambda>a. dec_nat (unat a)),
     rangeOrder = sorted_list_of_set\<rparr>"

lemma range_ok_example: "range_ok example_env"
  by (simp add: range_ok_def example_env_def)

lemma example_env_simps [simp]:
  "readMeta example_env m = Some \<lparr>TruffleDir = ''t'', Transactions = ''x'', AccountsFile = ''a'', ConfigFile = ''c''\<rparr>"
  "readConfig example_env c = Some [''Token'' \<mapsto> \<lparr>IgnoreAll = False, IgnoredFunctions = [], ConfigTimestamps = [1500000000]\<rparr>]"
  "readBuildDir example_env d = Some [''Token.json'', ''SafeMath.json'']"
  "readArtifact example_env ''t/build/contracts/Token.json'' = Some token_artifact"
  "readArtifact example_env ''t/build/contracts/SafeMath.json'' = Some safemath_artifact"
  "readAccounts example_env a = Some [\<lparr>jsonKey = ''1'', jsonAmount = Some 100\<rparr>, \<lparr>jsonKey = ''2'', jsonAmount = Some 7\<rparr>]"
  "HexToECDSA example_env k = Some (int (undec k))"
  "PubkeyToAddress example_env n = word_of_int (n + 4096)"
  "fmtAddress example_env ad = dec_nat (unat ad)"
  "rangeOrder example_env = sorted_list_of_set"
  by (simp_all add: example_env_def)

end
