(* ===== verification/Contracts.thy ===== *)
theory Contracts
  imports Metadata
begin

text \<open>
  \<^verbatim>\<open>utils/contracts.go\<close>, the part that reads the truffle build: the deployed byte codes, the
  table from swarm hashes to contract names, and the ABIs with their payable flags.
\<close>

section \<open>Reading the artifacts\<close>

definition contractFile :: "string \<Rightarrow> string \<Rightarrow> string" where
  "contractFile truffleDir name = truffleDir @ ''/build/contracts/'' @ name"

definition buildFiles :: "'e env_scheme \<Rightarrow> string \<Rightarrow> string list res" where
  "buildFiles env truffleDir =
     (case readBuildDir env (truffleDir @ ''/build/contracts/'') of
        None \<Rightarrow> Inl (Panic ''truffle project folder doesn't exist'')
      | Some files \<Rightarrow> Inr files)"

text \<open>
  The local variable of \<^verbatim>\<open>ReadDeployedBytecodes\<close> shadows the global one, which is tested but
  never set. A read error is ignored and leaves the byte code empty.
\<close>

definition ReadDeployedBytecodes ::
  "'e env_scheme \<Rightarrow> string \<Rightarrow> 'z utilst_scheme \<Rightarrow> ((string \<rightharpoonup> string) \<times> 'z utilst_scheme) res" where
  "ReadDeployedBytecodes env metadata st =
     (case DeployedBytecodes st of
        Some codes \<Rightarrow> Inr (codes, st)
      | None \<Rightarrow>
          bindR (getTruffleDir env metadata st) (\<lambda>(truffleDir, st).
          bindR (buildFiles env truffleDir) (\<lambda>files.
          bindR (foldR (\<lambda>f codes.
              let code = (case readArtifact env (contractFile truffleDir f) of
                            None \<Rightarrow> [] | Some a \<Rightarrow> deployedBytecode a) in
              bindR (slice 2 (int (length code)) code) (\<lambda>code.
                Inr (codes(getFilename f \<mapsto> code)))) files Map.empty) (\<lambda>codes.
          Inr (codes, st)))))"

text \<open>The body of the loop over the byte codes: contracts without a swarm hash are skipped.\<close>

definition addHash :: "(string \<rightharpoonup> string) \<Rightarrow> string \<Rightarrow> (string \<rightharpoonup> string) \<Rightarrow> (string \<rightharpoonup> string) res" where
  "addHash codes filename hashes =
     bindR (GetSwarmHash (case codes filename of None \<Rightarrow> [] | Some code \<Rightarrow> code)) (\<lambda>(hash, found).
       if \<not> found then Inr hashes else Inr (hashes(hash \<mapsto> filename)))"

definition ReadContractsHashes ::
  "'e env_scheme \<Rightarrow> string \<Rightarrow> 'z utilst_scheme \<Rightarrow> ((string \<rightharpoonup> string) \<times> 'z utilst_scheme) res" where
  "ReadContractsHashes env metadata st =
     (let all = (case ContractHashes st of None \<Rightarrow> Map.empty | Some m \<Rightarrow> m) in
      case all metadata of
        Some hashes \<Rightarrow> Inr (hashes, st\<lparr>ContractHashes := Some all\<rparr>)
      | None \<Rightarrow>
          bindR (ReadDeployedBytecodes env metadata st) (\<lambda>(deployedCodes, st).
          bindR (foldR (addHash deployedCodes) (rangeOrder env (dom deployedCodes)) Map.empty) (\<lambda>hashes.
          Inr (hashes, st\<lparr>ContractHashes := Some (all(metadata \<mapsto> hashes))\<rparr>))))"

definition GetContractNameByHash ::
  "'e env_scheme \<Rightarrow> string \<Rightarrow> string \<Rightarrow> 'z utilst_scheme \<Rightarrow> (string \<times> 'z utilst_scheme) res" where
  "GetContractNameByHash env hash metadata st =
     bindR (ReadContractsHashes env metadata st) (\<lambda>(hashes, st).
       case hashes hash of
         Some contractName \<Rightarrow> Inr (contractName, st)
       | None \<Rightarrow> Inl (Panic ''Contract with hash was not found''))"

definition GetOpcodeIndices ::
  "'e env_scheme \<Rightarrow> (bytes \<Rightarrow> 64 word list) \<Rightarrow> string \<Rightarrow> string \<Rightarrow> 'z utilst_scheme \<Rightarrow>
   (64 word list \<times> 'z utilst_scheme) res" where
  "GetOpcodeIndices env pcs metadata contract st =
     bindR (ReadDeployedBytecodes env metadata st) (\<lambda>(bytecodes, st).
     bindR (opcodeIndices pcs (case bytecodes contract of None \<Rightarrow> [] | Some code \<Rightarrow> code)) (\<lambda>is.
       Inr (is, st)))"

section \<open>The ABIs\<close>

text \<open>The two inner loops: the libraries among the nodes of an AST, the payable flags of an ABI.\<close>

definition noteLibraries :: "(string \<times> string) list \<Rightarrow> (string \<rightharpoonup> bool) \<Rightarrow> (string \<rightharpoonup> bool)" where
  "noteLibraries = fold (\<lambda>(kind, name) libs. if kind = ''library'' then libs(name \<mapsto> True) else libs)"

definition payableFlags :: "(string \<times> bool) list \<Rightarrow> (string \<rightharpoonup> bool)" where
  "payableFlags ms = fold (\<lambda>(name, payable) flags. flags(name \<mapsto> payable)) ms Map.empty"

text \<open>
  One file of the loop of \<^verbatim>\<open>GetABIMap\<close>: the libraries of its AST are noted; if the file's
  contract is a library the ABI is skipped; otherwise the ABI and the payable flags are kept under
  the file's name.
\<close>

definition addABI :: "'e env_scheme \<Rightarrow> string \<Rightarrow> string \<Rightarrow> 'z utilst_scheme \<Rightarrow> 'z utilst_scheme res" where
  "addABI env truffleDir f st =
     (case readArtifact env (contractFile truffleDir f) of
        None \<Rightarrow> Inl (Panic ''Error reading abi file'')
      | Some a \<Rightarrow>
          (case astNodes a of
             None \<Rightarrow> Inl (Panic ''Error processing contract ast'')
           | Some (name, nodes) \<Rightarrow>
               let libs = noteLibraries nodes (nil_map (Libraries st));
                   st = st\<lparr>Libraries := Some libs\<rparr> in
               if libs name \<noteq> None then Inr st
               else
                 (case artABI a of
                    None \<Rightarrow> Inl (Panic ''Error processing contract ABI'')
                  | Some evmABI \<Rightarrow>
                      let filename = getFilename f;
                          st = st\<lparr>ABIMap := Some ((nil_map (ABIMap st))(filename \<mapsto> evmABI))\<rparr> in
                      (case artPayable a of
                         None \<Rightarrow> Inl (Panic ''Unmarshal'')
                       | Some ms \<Rightarrow>
                           Inr (st\<lparr>Payable := Some ((nil_map (Payable st))(filename \<mapsto> payableFlags ms))\<rparr>)))))"

definition GetABIMap ::
  "'e env_scheme \<Rightarrow> string \<Rightarrow> 'z utilst_scheme \<Rightarrow> ((string \<rightharpoonup> abi) \<times> 'z utilst_scheme) res" where
  "GetABIMap env metadata st =
     (case ABIMap st of
        Some m \<Rightarrow> Inr (m, st)
      | None \<Rightarrow>
          bindR (getTruffleDir env metadata st) (\<lambda>(truffleDir, st).
          bindR (buildFiles env truffleDir) (\<lambda>files.
          bindR (foldR (addABI env truffleDir) files
                  (st\<lparr>ABIMap := Some Map.empty, Payable := Some Map.empty, Libraries := Some Map.empty\<rparr>)) (\<lambda>st.
          Inr (nil_map (ABIMap st), st)))))"

definition GetContractABI ::
  "'e env_scheme \<Rightarrow> string \<Rightarrow> string \<Rightarrow> 'z utilst_scheme \<Rightarrow> (abi \<times> 'z utilst_scheme) res" where
  "GetContractABI env contract metadata st =
     bindR (GetABIMap env metadata st) (\<lambda>(m, st).
       case m contract of
         None \<Rightarrow> Inl (Panic ''Contract not found'')
       | Some evmABI \<Rightarrow> Inr (evmABI, st))"

definition GetContractMethod ::
  "'e env_scheme \<Rightarrow> string \<Rightarrow> string \<Rightarrow> string \<Rightarrow> 'z utilst_scheme \<Rightarrow> (abi_Method \<times> 'z utilst_scheme) res" where
  "GetContractMethod env contract m metadata st =
     bindR (GetContractABI env contract metadata st) (\<lambda>(evmABI, st).
       if m = [] then Inr (Constructor evmABI, st)
       else (case ABIMethods evmABI m of
               Some abiMethod \<Rightarrow> Inr (abiMethod, st)
             | None \<Rightarrow> Inl (Panic ''Contract, method not found'')))"

definition IsPayable :: "string \<Rightarrow> string \<Rightarrow> 'z utilst_scheme \<Rightarrow> bool" where
  "IsPayable contract m st =
     (case nil_map (Payable st) contract of None \<Rightarrow> False | Some flags \<Rightarrow> flags m = Some True)"

definition ResetContractData :: "'z utilst_scheme \<Rightarrow> 'z utilst_scheme" where
  "ResetContractData st =
     st\<lparr>ContractHashes := None, DeployedBytecodes := None, ABIMap := None, Payable := None, Libraries := None\<rparr>"

section \<open>The caches\<close>

lemma ABIMap_fold:
  "foldR (addABI env d) files st = Inr st' \<Longrightarrow> ABIMap st \<noteq> None \<Longrightarrow> ABIMap st' \<noteq> None"
  by (erule foldR_invariant [where P = "\<lambda>s. ABIMap s \<noteq> None"])
     (auto simp: addABI_def Let_def split: option.splits if_splits prod.splits)

interpretation abimap: memo "GetABIMap env metadata" ABIMap
proof unfold_locales
  show "ABIMap s = Some v \<Longrightarrow> GetABIMap env metadata s = Inr (v, s)" for s :: "'b utilst_scheme" and v
    by (simp add: GetABIMap_def)
  show "ABIMap s' = Some v" if get: "GetABIMap env metadata s = Inr (v, s')" for s s' :: "'b utilst_scheme" and v
  proof (cases "ABIMap s")
    case None
    then obtain d files and t :: "'b utilst_scheme" where "foldR (addABI env d) files
        (t\<lparr>ABIMap := Some Map.empty, Payable := Some Map.empty, Libraries := Some Map.empty\<rparr>) = Inr s'"
      and v: "v = nil_map (ABIMap s')"
      using get by (auto simp: GetABIMap_def elim!: bindR_InrE)
    from ABIMap_fold [OF this(1)] v show ?thesis by auto
  next
    case (Some m)
    then show ?thesis using get by (simp add: GetABIMap_def)
  qed
qed

text \<open>The byte codes are computed from the files on every call: the global cache stays empty.\<close>

lemma ReadDeployedBytecodes_frame:
  "ReadDeployedBytecodes env metadata st = Inr (codes, st') \<Longrightarrow> \<exists>f. st' = st\<lparr>metadataJSONMap := f\<rparr>"
  by (auto simp: ReadDeployedBytecodes_def elim!: bindR_InrE dest!: getTruffleDir_frame split: option.splits
      intro: exI [of _ "metadataJSONMap st"])

interpretation hashes: memo "ReadContractsHashes env metadata"
  "\<lambda>st. if ContractHashes st = None then None else nil_map (ContractHashes st) metadata"
proof unfold_locales
  show "ReadContractsHashes env metadata s = Inr (v, s)"
    if "(if ContractHashes s = None then None else nil_map (ContractHashes s) metadata) = Some v"
    for s :: "'b utilst_scheme" and v
    using that by (auto simp: ReadContractsHashes_def split: if_splits)
  show "(if ContractHashes s' = None then None else nil_map (ContractHashes s') metadata) = Some v"
    if "ReadContractsHashes env metadata s = Inr (v, s')" for s s' :: "'b utilst_scheme" and v
    using that by (auto simp: ReadContractsHashes_def Let_def elim!: bindR_InrE split: option.splits)
qed

section \<open>The table of hashes\<close>

text \<open>The hash of the code of a contract, if it has one.\<close>

definition has_hash :: "(string \<rightharpoonup> string) \<Rightarrow> string \<Rightarrow> string \<Rightarrow> bool" where
  "has_hash codes name hash \<longleftrightarrow>
     (\<exists>code. codes name = Some code \<and> GetSwarmHash code = Inr (hash, True))"

lemma addHash_cases:
  assumes "addHash codes n hs = Inr hs'" and "n \<in> dom codes"
  obtains "\<And>h. \<not> has_hash codes n h" and "hs' = hs"
  | h where "has_hash codes n h" and "\<And>h'. has_hash codes n h' \<Longrightarrow> h' = h" and "hs' = hs(h \<mapsto> n)"
  using assms by (fastforce simp: addHash_def has_hash_def elim!: bindR_InrE split: if_splits)

lemma addHash_loop:
  assumes "foldR (addHash codes) ns hs = Inr hs'" and "set ns \<subseteq> dom codes"
  shows "(\<forall>h n. hs' h = Some n \<longrightarrow> hs h = Some n \<or> n \<in> set ns \<and> has_hash codes n h) \<and>
    (\<forall>h. hs' h = None \<longleftrightarrow> hs h = None \<and> (\<forall>n \<in> set ns. \<not> has_hash codes n h))"
  using assms
proof (induction ns arbitrary: hs)
  case Nil
  then show ?case by simp
next
  case (Cons n ns)
  from Cons.prems(1) obtain u where u: "addHash codes n hs = Inr u" "foldR (addHash codes) ns u = Inr hs'"
    by (auto elim: bindR_InrE)
  have n: "n \<in> dom codes" and ns: "set ns \<subseteq> dom codes" using Cons.prems(2) by auto
  note IH = Cons.IH [OF u(2) ns]
  from u(1) n show ?case
  proof (cases rule: addHash_cases)
    case 1
    then show ?thesis using IH by auto
  next
    case (2 h)
    have uk: "u k = (if k = h then Some n else hs k)" for k using 2(3) by simp
    have iff: "has_hash codes n k \<longleftrightarrow> k = h" for k using 2(1,2) by blast
    show ?thesis
    proof (intro conjI allI impI)
      fix k x assume "hs' k = Some x"
      with IH consider "u k = Some x" | "x \<in> set ns" "has_hash codes x k" by blast
      then show "hs k = Some x \<or> x \<in> set (n # ns) \<and> has_hash codes x k"
        using 2(1) by cases (simp_all add: uk split: if_splits)
    next
      fix k
      show "hs' k = None \<longleftrightarrow> hs k = None \<and> (\<forall>n \<in> set (n # ns). \<not> has_hash codes n k)"
        using IH by (simp add: uk iff)
    qed
  qed
qed

lemma addHash_total:
  assumes "\<forall>n \<in> set ns. \<exists>code r. codes n = Some code \<and> GetSwarmHash code = Inr r"
  shows "\<exists>hs'. foldR (addHash codes) ns hs = Inr hs'"
proof -
  have "\<exists>hs'. foldR (addHash codes) ns hs = Inr hs' \<and> True"
  proof (rule foldR_total)
    show "\<exists>u'. addHash codes n u = Inr u' \<and> True" if n: "n \<in> set ns" for n u
    proof -
      obtain code r where "codes n = Some code" "GetSwarmHash code = Inr r" using assms n by blast
      then show ?thesis by (cases r) (simp add: addHash_def)
    qed
  qed simp
  then show ?thesis by simp
qed

lemma foldR_map_update:
  assumes "foldR (\<lambda>f m. bindR (g f) (\<lambda>v. Inr (m(k f \<mapsto> v)))) fs m0 = Inr m'" and "finite (dom m0)"
  shows "finite (dom m')"
  using assms
proof (rule foldR_invariant [where P = "\<lambda>m. finite (dom m)"])
  show "finite (dom u')" if "finite (dom u)" "bindR (g x) (\<lambda>v. Inr (u(k x \<mapsto> v))) = Inr u'" for x u u'
    using that by (auto elim!: bindR_InrE)
qed

lemma ReadDeployedBytecodes_finite:
  assumes "ReadDeployedBytecodes env metadata st = Inr (codes, st')" and "DeployedBytecodes st = None"
  shows "finite (dom codes)"
proof -
  obtain g :: "string \<Rightarrow> string res" and files
    where "foldR (\<lambda>f m. bindR (g f) (\<lambda>v. Inr (m(getFilename f \<mapsto> v)))) files Map.empty = Inr codes"
    using assms by (auto simp: ReadDeployedBytecodes_def Let_def elim!: bindR_InrE)
  from foldR_map_update [OF this] show ?thesis by simp
qed

section \<open>The ABI map\<close>

text \<open>What an entry of the maps comes from: the artifact of that name, and not of a library.\<close>

definition abi_entry :: "'e env_scheme \<Rightarrow> string \<Rightarrow> string list \<Rightarrow> string \<Rightarrow> abi \<Rightarrow> (string \<rightharpoonup> bool) \<Rightarrow> bool" where
  "abi_entry env d files name evmABI flags \<longleftrightarrow>
     (\<exists>f a cname nodes ms. f \<in> set files \<and> name = getFilename f \<and> readArtifact env (contractFile d f) = Some a \<and>
        astNodes a = Some (cname, nodes) \<and> (''library'', cname) \<notin> set nodes \<and>
        artABI a = Some evmABI \<and> artPayable a = Some ms \<and> flags = map_of (rev ms))"

definition abi_ok :: "'e env_scheme \<Rightarrow> string \<Rightarrow> string list \<Rightarrow> 'z utilst_scheme \<Rightarrow> bool" where
  "abi_ok env d files st \<longleftrightarrow> ABIMap st \<noteq> None \<and> Payable st \<noteq> None \<and>
     dom (nil_map (ABIMap st)) = dom (nil_map (Payable st)) \<and>
     (\<forall>name m flags. nil_map (ABIMap st) name = Some m \<longrightarrow> nil_map (Payable st) name = Some flags \<longrightarrow>
        abi_entry env d files name m flags)"

lemma payableFlags_map_of: "payableFlags ms = map_of (rev ms)"
proof -
  have "fold (\<lambda>(m, p) flags. flags(m \<mapsto> p)) ms f = f ++ map_of (rev ms)" for f :: "string \<rightharpoonup> bool"
    by (induction ms arbitrary: f) (auto simp: fun_eq_iff map_add_def split: option.splits)
  then show ?thesis by (simp add: payableFlags_def)
qed

lemma noteLibraries_None:
  "noteLibraries nodes l x = None \<longleftrightarrow> l x = None \<and> (''library'', x) \<notin> set nodes"
proof (induction nodes arbitrary: l)
  case Nil
  then show ?case by (simp add: noteLibraries_def)
next
  case (Cons a nodes)
  obtain k n where "a = (k, n)" by (cases a)
  moreover have "noteLibraries ((k, n) # nodes) l =
      noteLibraries nodes (if k = ''library'' then l(n \<mapsto> True) else l)"
    by (simp add: noteLibraries_def)
  moreover have "(if k = ''library'' then l(n \<mapsto> True) else l) x = None \<longleftrightarrow>
      l x = None \<and> (''library'', x) \<noteq> (k, n)" by auto
  ultimately show ?case
    using Cons.IH [of "if k = ''library'' then l(n \<mapsto> True) else l"] by (simp del: fun_upd_apply)
qed

lemma addABI_ok:
  assumes "abi_ok env d files st" and "f \<in> set files" and "addABI env d f st = Inr st'"
  shows "abi_ok env d files st'"
proof -
  from assms(3) obtain a cname nodes where a: "readArtifact env (contractFile d f) = Some a"
      "astNodes a = Some (cname, nodes)"
    by (auto simp: addABI_def split: option.splits)
  let ?libs = "noteLibraries nodes (nil_map (Libraries st))"
  show ?thesis
  proof (cases "?libs cname = None")
    case False
    then have "st' = st\<lparr>Libraries := Some ?libs\<rparr>" using assms(3) a by (simp add: addABI_def)
    then show ?thesis using assms(1) by (simp add: abi_ok_def)
  next
    case True
    then obtain m ms where m: "artABI a = Some m" "artPayable a = Some ms"
      "st' = st\<lparr>Libraries := Some ?libs, ABIMap := Some ((nil_map (ABIMap st))(getFilename f \<mapsto> m)),
        Payable := Some ((nil_map (Payable st))(getFilename f \<mapsto> payableFlags ms))\<rparr>"
      using assms(3) a by (auto simp: addABI_def Let_def split: option.splits)
    have "(''library'', cname) \<notin> set nodes" using True by (simp add: noteLibraries_None)
    then have "abi_entry env d files (getFilename f) m (payableFlags ms)"
      unfolding abi_entry_def payableFlags_map_of using assms(2) a m(1,2) by blast
    then show ?thesis using assms(1) m(3) by (auto simp: abi_ok_def)
  qed
qed

text \<open>A complete run of \<^verbatim>\<open>GetABIMap\<close>, from its first line.\<close>

lemma GetABIMap_fresh:
  assumes "ABIMap st = None" and "GetABIMap env metadata st = Inr (m, st')"
  obtains d st1 files where "getTruffleDir env metadata st = Inr (d, st1)" and "buildFiles env d = Inr files"
    and "m = nil_map (ABIMap st')" and "abi_ok env d files st'"
proof -
  obtain d st1 files where r: "getTruffleDir env metadata st = Inr (d, st1)" "buildFiles env d = Inr files"
      "foldR (addABI env d) files
         (st1\<lparr>ABIMap := Some Map.empty, Payable := Some Map.empty, Libraries := Some Map.empty\<rparr>) = Inr st'"
      "m = nil_map (ABIMap st')"
    using assms by (auto simp: GetABIMap_def elim!: bindR_InrE)
  have "abi_ok env d files st'"
    by (rule foldR_invariant [OF r(3), where P = "abi_ok env d files"])
       (simp add: abi_ok_def, rule addABI_ok)
  with r show ?thesis using that by blast
qed

lemma ReadContractsHashes_fresh:
  assumes "range_ok env" and "ContractHashes st = None" and "DeployedBytecodes st = None"
    and "ReadDeployedBytecodes env metadata st = Inr (codes, st1)"
  shows "ReadContractsHashes env metadata st = Inr (hs, st') \<Longrightarrow>
      (\<forall>h n. hs h = Some n \<longrightarrow> has_hash codes n h) \<and> (\<forall>h. hs h = None \<longleftrightarrow> \<not> (\<exists>n. has_hash codes n h))"
    and "\<forall>n code. codes n = Some code \<longrightarrow> (\<exists>r. GetSwarmHash code = Inr r) \<Longrightarrow>
      \<exists>hs st'. ReadContractsHashes env metadata st = Inr (hs, st')"
proof -
  let ?ns = "rangeOrder env (dom codes)"
  have "finite (dom codes)" using ReadDeployedBytecodes_finite assms(3,4) by blast
  then have ns: "set ?ns = dom codes" using range_okD [OF assms(1)] by blast
  have run: "ReadContractsHashes env metadata st =
      bindR (foldR (addHash codes) ?ns Map.empty) (\<lambda>hs. Inr (hs, st1\<lparr>ContractHashes := Some [metadata \<mapsto> hs]\<rparr>))"
    using assms(2,4) by (simp add: ReadContractsHashes_def)
  show "(\<forall>h n. hs h = Some n \<longrightarrow> has_hash codes n h) \<and> (\<forall>h. hs h = None \<longleftrightarrow> \<not> (\<exists>n. has_hash codes n h))"
    if "ReadContractsHashes env metadata st = Inr (hs, st')"
  proof -
    have loop: "foldR (addHash codes) ?ns Map.empty = Inr hs"
      using that unfolding run by (auto elim!: bindR_InrE)
    have all: "has_hash codes n h \<Longrightarrow> n \<in> set ?ns" for n h using ns by (auto simp: has_hash_def)
    note res = addHash_loop [OF loop equalityD1 [OF ns]]
    show ?thesis
    proof (intro conjI allI impI)
      show "has_hash codes n h" if "hs h = Some n" for h n using res that by auto
      show "hs h = None \<longleftrightarrow> \<not> (\<exists>n. has_hash codes n h)" for h using res all by auto
    qed
  qed
  show "\<exists>hs st'. ReadContractsHashes env metadata st = Inr (hs, st')"
    if "\<forall>n code. codes n = Some code \<longrightarrow> (\<exists>r. GetSwarmHash code = Inr r)"
  proof -
    have "\<forall>n \<in> set ?ns. \<exists>code r. codes n = Some code \<and> GetSwarmHash code = Inr r"
      using that ns by (auto simp: dom_def)
    from addHash_total [OF this, of Map.empty] show ?thesis unfolding run by (elim exE) simp
  qed
qed

section \<open>Properties\<close>

text \<open>
  C30: Looking a contract up by the swarm hash of its code: when \<^verbatim>\<open>GetSwarmHash\<close> accepts every
  byte code of the build, the lookup succeeds exactly for the hashes that occur in the build, and
  the name it returns is that of a contract whose code has the hash, in whatever order the byte
  codes are visited.
\<close>

theorem contract_name_by_hash:
  assumes "range_ok env" and "ContractHashes st = None" and "DeployedBytecodes st = None"
    and "ReadDeployedBytecodes env metadata st = Inr (codes, st1)"
    and "\<forall>n code. codes n = Some code \<longrightarrow> (\<exists>r. GetSwarmHash code = Inr r)"
  shows "if \<exists>n. has_hash codes n hash
    then \<exists>name st'. GetContractNameByHash env hash metadata st = Inr (name, st') \<and> has_hash codes name hash
    else GetContractNameByHash env hash metadata st = Inl (Panic ''Contract with hash was not found'')"
proof -
  note fresh = ReadContractsHashes_fresh [OF assms(1-4)]
  obtain hs st' where r: "ReadContractsHashes env metadata st = Inr (hs, st')" using fresh(2) [OF assms(5)] by blast
  show ?thesis
  proof (cases "hs hash")
    case None
    then have "\<not> (\<exists>n. has_hash codes n hash)" using fresh(1) [OF r] by blast
    then show ?thesis using r None by (simp add: GetContractNameByHash_def)
  next
    case (Some n)
    then have "has_hash codes n hash" using fresh(1) [OF r] by blast
    then show ?thesis using r Some by (auto simp: GetContractNameByHash_def)
  qed
qed

text \<open>
  C31: Every ABI that \<^verbatim>\<open>GetABIMap\<close> collects, with its payable flags, is that of an artifact of
  the build with this file name whose contract is not a library of its own source; the flags of a
  method are those of the last ABI entry of its name; and every contract with an ABI has flags.
\<close>

theorem abi_map_from_artifacts:
  assumes "ABIMap st = None" and "GetABIMap env metadata st = Inr (m, st')" and "m contract = Some evmABI"
  shows "\<exists>d files f a cname nodes ms. buildFiles env d = Inr files \<and> f \<in> set files \<and>
    contract = getFilename f \<and> readArtifact env (contractFile d f) = Some a \<and>
    astNodes a = Some (cname, nodes) \<and> (''library'', cname) \<notin> set nodes \<and>
    artABI a = Some evmABI \<and> artPayable a = Some ms \<and>
    (\<forall>name. IsPayable contract name st' = (map_of (rev ms) name = Some True))"
proof -
  from GetABIMap_fresh [OF assms(1,2)] obtain d files where r: "buildFiles env d = Inr files"
    "m = nil_map (ABIMap st')" "abi_ok env d files st'" by metis
  obtain flags where flags: "nil_map (Payable st') contract = Some flags"
    using r(2,3) assms(3) unfolding abi_ok_def by (metis domIff not_None_eq)
  then have "abi_entry env d files contract evmABI flags" using r(2,3) assms(3) by (auto simp: abi_ok_def)
  then obtain f a cname nodes ms where e: "f \<in> set files" "contract = getFilename f"
    "readArtifact env (contractFile d f) = Some a" "astNodes a = Some (cname, nodes)"
    "(''library'', cname) \<notin> set nodes" "artABI a = Some evmABI" "artPayable a = Some ms" "flags = map_of (rev ms)"
    by (auto simp: abi_entry_def)
  have "\<forall>name. IsPayable contract name st' = (map_of (rev ms) name = Some True)"
    using flags e(8) by (simp add: IsPayable_def)
  with r(1) e(1-7) show ?thesis by blast
qed

text \<open>
  C32: The caches. The configuration is read once: after the first successful \<^verbatim>\<open>GetConfig\<close>, calls
  with the metadata of any other project return the configuration of the first. The byte codes are
  read on every call: \<^verbatim>\<open>ReadDeployedBytecodes\<close> tests a cache it never fills.
\<close>

theorem caches_first_project:
  assumes "GetConfig env metadata st = Inr (c, st1)" and "DeployedBytecodes st1 = None"
    and "ReadDeployedBytecodes env metadata st1 = Inr (codes, st2)"
  shows "GetConfig env' metadata' st2 = Inr (c, st2) \<and> DeployedBytecodes st2 = None"
proof -
  from ReadDeployedBytecodes_frame [OF assms(3)] obtain f where st2: "st2 = st1\<lparr>metadataJSONMap := f\<rparr>" by blast
  have "fuzzingConfig st1 = Some c" by (rule config.fills [OF assms(1)])
  then have "fuzzingConfig st2 = Some c" by (simp add: st2)
  from config.hit [OF this] show ?thesis using assms(2) by (simp add: st2)
qed

section \<open>Witnesses\<close>

text \<open>The example project: its byte codes, its hashes, its ABIs.\<close>

abbreviation st0 :: utilst where "st0 \<equiv> utils_init (\<lambda>n. n)"
abbreviation st1 :: utilst where
  "st1 \<equiv> st0\<lparr>metadataJSONMap :=
     [''m'' \<mapsto> \<lparr>TruffleDir = ''t'', Transactions = ''x'', AccountsFile = ''a'', ConfigFile = ''c''\<rparr>]\<rparr>"

lemma getFilename_examples:
  "getFilename ''Token.json'' = ''Token''" "getFilename ''SafeMath.json'' = ''SafeMath''"
  using getFilename_ext [of "''json''" "''Token''"] getFilename_ext [of "''json''" "''SafeMath''"] by simp_all

lemma example_codes:
  "ReadDeployedBytecodes example_env ''m'' st0 =
     Inr ([''Token'' \<mapsto> token_code, ''SafeMath'' \<mapsto> ''6002''], st1)"
  by (simp add: ReadDeployedBytecodes_def getTruffleDir_def getMeta_def buildFiles_def contractFile_def
      token_artifact_def safemath_artifact_def slice_def getFilename_examples)

lemma token_hash: "GetSwarmHash token_code = Inr (replicate 64 CHR ''1'', True)"
proof -
  have code: "token_code = ''600100'' @ bzzr0 @ replicate 64 CHR ''1''" by (simp add: token_code_def)
  have occ: "occurs_at token_code bzzr0 (length ''600100'')"
    unfolding code by (rule occurs_at_append)
  have last: "\<not> occurs_at token_code bzzr0 j" if "length ''600100'' < j" for j
    unfolding code by (rule marker_once [OF _ that]) simp
  show ?thesis using GetSwarmHash_at [OF occ last] by (simp add: code)
qed

lemma library_hash: "GetSwarmHash ''6002'' = Inr ([], False)"
  by (rule GetSwarmHash_none) (simp add: occurs_at_def bzzr0_eq)

theorem contract_name_by_hash_witness:
  "(\<exists>st'. GetContractNameByHash example_env (replicate 64 CHR ''1'') ''m'' st0 = Inr (''Token'', st')) \<and>
   GetContractNameByHash example_env ''77'' ''m'' st0 = Inl (Panic ''Contract with hash was not found'')"
proof -
  let ?codes = "[''Token'' \<mapsto> token_code, ''SafeMath'' \<mapsto> ''6002'']"
  have all: "\<forall>n code. ?codes n = Some code \<longrightarrow> (\<exists>r. GetSwarmHash code = Inr r)"
    using token_hash library_hash by (auto split: if_splits)
  have has: "has_hash ?codes n h \<longleftrightarrow> n = ''Token'' \<and> h = replicate 64 CHR ''1''" for n h
    using token_hash library_hash by (auto simp: has_hash_def)
  note r = contract_name_by_hash [OF range_ok_example utils_init_simps(3,4) example_codes all]
  have "\<exists>name st'. GetContractNameByHash example_env (replicate 64 CHR ''1'') ''m'' st0 = Inr (name, st') \<and>
      name = ''Token'' \<and> replicate 64 CHR ''1'' = replicate 64 CHR ''1''"
    using r [of "replicate 64 CHR ''1''"] unfolding has by (simp only: simp_thms if_True refl)
  moreover have "GetContractNameByHash example_env ''77'' ''m'' st0 = Inl (Panic ''Contract with hash was not found'')"
  proof -
    have "\<not> (\<exists>n. has_hash ?codes n ''77'')" unfolding has by (simp add: list_eq_iff_nth_eq)
    with r [of "''77''"] show ?thesis by (simp only: if_False)
  qed
  ultimately show ?thesis by (elim exE conjE) (simp only:, blast)
qed

theorem abi_map_from_artifacts_witness:
  "\<exists>m st'. GetABIMap example_env ''m'' st0 = Inr (m, st') \<and> m ''Token'' = Some token_abi \<and>
     IsPayable ''Token'' ''mint'' st'"
proof -
  have "\<exists>st'. GetABIMap example_env ''m'' st0 = Inr ([''Token'' \<mapsto> token_abi], st')"
    by (simp add: GetABIMap_def getTruffleDir_def getMeta_def buildFiles_def contractFile_def addABI_def
        token_artifact_def safemath_artifact_def getFilename_examples noteLibraries_def Let_def del: not_None_eq)
  then obtain st' where st': "GetABIMap example_env ''m'' st0 = Inr ([''Token'' \<mapsto> token_abi], st')" by blast
  from abi_map_from_artifacts [OF _ this, of "''Token''" token_abi]
  obtain d files f a cname nodes ms where r: "buildFiles example_env d = Inr files" "f \<in> set files"
    "''Token'' = getFilename f" "readArtifact example_env (contractFile d f) = Some a" "artPayable a = Some ms"
    "\<forall>name. IsPayable ''Token'' name st' = (map_of (rev ms) name = Some True)" by auto
  have "f = ''Token.json'' \<or> f = ''SafeMath.json''" using r(1,2) by (auto simp: buildFiles_def)
  moreover have "f \<noteq> ''SafeMath.json''" 
  proof
    assume "f = ''SafeMath.json''"
    with r(3) show False by (simp add: getFilename_examples)
  qed
  ultimately have f: "f = ''Token.json''" by blast
  have "a = token_artifact"
    using r(4) unfolding f example_env_def by (simp add: contractFile_def split: if_splits)
  then have "ms = [(''mint'', True)]" using r(5) by (simp add: token_artifact_def)
  then have "IsPayable ''Token'' ''mint'' st'" using r(6) by simp
  moreover have "[''Token'' \<mapsto> token_abi] ''Token'' = Some token_abi" by simp
  ultimately show ?thesis using st' by (intro exI conjI)
qed

theorem caches_first_project_witness:
  "\<exists>c st1 codes st2. GetConfig example_env ''m'' st0 = Inr (c, st1) \<and>
     ReadDeployedBytecodes example_env ''m'' st1 = Inr (codes, st2) \<and>
     GetConfig (example_env\<lparr>readConfig := \<lambda>_. None\<rparr>) ''other'' st2 = Inr (c, st2) \<and> c ''Token'' \<noteq> None"
proof -
  have "\<exists>c st1 codes st2. GetConfig example_env ''m'' st0 = Inr (c, st1) \<and> DeployedBytecodes st1 = None \<and>
      ReadDeployedBytecodes example_env ''m'' st1 = Inr (codes, st2) \<and> c ''Token'' \<noteq> None"
    by (simp add: GetConfig_def getMeta_def ReadDeployedBytecodes_def getTruffleDir_def buildFiles_def
        contractFile_def token_artifact_def safemath_artifact_def slice_def)
  then show ?thesis using caches_first_project by blast
qed

end
