(* ===== verification/Accounts.thy ===== *)
theory Accounts
  imports Contracts
begin

text \<open>
  \<^verbatim>\<open>utils/accounts.go\<close>: the accounts of the project, the tables between keys and addresses, and
  the random choice of an account.
\<close>

section \<open>Operations\<close>

text \<open>A pointer into the slice \<^verbatim>\<open>accounts\<close> is an index.\<close>

definition GetAddressFromKey :: "keyptr \<Rightarrow> 'z utilst_scheme \<Rightarrow> address res" where
  "GetAddressFromKey key st =
     (case keyToAddress st key of Some addr \<Rightarrow> Inr addr
      | None \<Rightarrow> Inl (Panic ''key was not found in accounts''))"

definition GetKeyFromAddress :: "address \<Rightarrow> 'z utilst_scheme \<Rightarrow> keyptr res" where
  "GetKeyFromAddress addr st =
     (case addressToKey st addr of Some key \<Rightarrow> Inr key
      | None \<Rightarrow> Inl (Panic ''address was not found in accounts''))"

fun findAccount :: "address \<Rightarrow> nat \<Rightarrow> Account list \<Rightarrow> nat res" where
  "findAccount addr i [] = Inl (Panic ''account wasn't found for address'')"
| "findAccount addr i (a # as) = (if Address a = addr then Inr i else findAccount addr (Suc i) as)"

definition account_list :: "'z utilst_scheme \<Rightarrow> Account list" where
  "account_list st = (case accounts st of None \<Rightarrow> [] | Some as \<Rightarrow> as)"

definition GetAccountFromAddress :: "address \<Rightarrow> 'z utilst_scheme \<Rightarrow> nat res" where
  "GetAccountFromAddress addr st = findAccount addr 0 (account_list st)"

text \<open>\<^verbatim>\<open>GetAccountFromAddress(address).Used = true\<close>: the account in the slice is updated.\<close>

definition markUsed :: "address \<Rightarrow> 'z utilst_scheme \<Rightarrow> 'z utilst_scheme res" where
  "markUsed addr st =
     bindR (GetAccountFromAddress addr st) (\<lambda>i.
       Inr (st\<lparr>accounts := map_option (\<lambda>as. as[i := (as ! i)\<lparr>Used := True\<rparr>]) (accounts st)\<rparr>))"

text \<open>
  The body of the loop over the accounts of the file. The amount was allocated by the decoder; the
  key is a new pointer.
\<close>

definition addAccount :: "'e env_scheme \<Rightarrow> accountJSON \<Rightarrow> 'z utilst_scheme \<Rightarrow> 'z utilst_scheme res" where
  "addAccount env account st =
     (case HexToECDSA env (jsonKey account) of
        None \<Rightarrow> Inl (Panic ''Incorrect hex key'')
      | Some secret \<Rightarrow>
          let key = length (keys st);
              (amount, h) = (case jsonAmount account of None \<Rightarrow> (0, bigs st) | Some v \<Rightarrow> big_new v (bigs st));
              acc = \<lparr>Key = key, Address = PubkeyToAddress env secret, Amount = amount, Used = False\<rparr> in
          Inr (st\<lparr>keys := keys st @ [secret], bigs := h,
                  accounts := Some (account_list st @ [acc]),
                  addressToKey := (addressToKey st)(Address acc \<mapsto> Key acc),
                  keyToAddress := (keyToAddress st)(Key acc \<mapsto> Address acc)\<rparr>))"

definition ReadAccounts ::
  "'e env_scheme \<Rightarrow> string \<Rightarrow> 'z utilst_scheme \<Rightarrow> (Account list \<times> 'z utilst_scheme) res" where
  "ReadAccounts env metadata st =
     (case accounts st of
        Some as \<Rightarrow> Inr (as, st)
      | None \<Rightarrow>
          bindR (getAccountsJSONFile env metadata st) (\<lambda>(f, st).
          case readAccounts env f of
            None \<Rightarrow> Inl (Panic ''error reading accounts file'')
          | Some p \<Rightarrow>
              bindR (foldR (addAccount env) p
                       (st\<lparr>accounts := Some [], keyToAddress := Map.empty, addressToKey := Map.empty\<rparr>)) (\<lambda>st.
              Inr (account_list st, st))))"

definition draw_Intn :: "nat \<Rightarrow> 'z genst_scheme \<Rightarrow> (nat \<times> 'z genst_scheme) res" where
  "draw_Intn n st = bindR (rand_Intn n (rnd st)) (\<lambda>(k, r). Inr (k, st\<lparr>rnd := r\<rparr>))"

definition GetRandAccount ::
  "'e env_scheme \<Rightarrow> string \<Rightarrow> 'z utilst_scheme \<Rightarrow> (Account \<times> 'z utilst_scheme) res" where
  "GetRandAccount env metadata st =
     bindR (ReadAccounts env metadata st) (\<lambda>(as, st).
     bindR (ReadAccounts env metadata st) (\<lambda>(as', st).
     bindR (draw_Intn (length as) st) (\<lambda>(k, st).
     bindR (index as' (int k)) (\<lambda>a. Inr (a, st)))))"

section \<open>The invariant\<close>

text \<open>
  The tables agree with the accounts: every account's address has a key, whose secret number makes
  this address, and the tables know nothing else.
\<close>

definition acc_inv :: "'e env_scheme \<Rightarrow> 'z utilst_scheme \<Rightarrow> bool" where
  "acc_inv env st \<longleftrightarrow>
     (\<forall>a \<in> set (account_list st). Key a < length (keys st) \<and>
        Address a = PubkeyToAddress env (keys st ! Key a) \<and> keyToAddress st (Key a) = Some (Address a)) \<and>
     distinct (map Key (account_list st)) \<and>
     dom (addressToKey st) = Address ` set (account_list st) \<and>
     (\<forall>addr k. addressToKey st addr = Some k \<longrightarrow> (\<exists>a \<in> set (account_list st). Key a = k \<and> Address a = addr))"

lemma acc_invD:
  assumes "acc_inv env st" and "addressToKey st addr = Some k"
  shows "k < length (keys st) \<and> PubkeyToAddress env (keys st ! k) = addr \<and> keyToAddress st k = Some addr"
  using assms unfolding acc_inv_def by metis

text \<open>One account: the tables stay consistent, and the account is what the file says.\<close>

definition account_of :: "'e env_scheme \<Rightarrow> int list \<Rightarrow> bigs \<Rightarrow> accountJSON \<Rightarrow> Account \<Rightarrow> bool" where
  "account_of env ks h j a \<longleftrightarrow> \<not> Used a \<and> Key a < length ks \<and>
     HexToECDSA env (jsonKey j) = Some (ks ! Key a) \<and> Address a = PubkeyToAddress env (ks ! Key a) \<and>
     (case jsonAmount j of None \<Rightarrow> Amount a = 0 | Some v \<Rightarrow> big_get h (Amount a) = Inr v)"

lemma addAccount_Some:
  assumes "HexToECDSA env (jsonKey j) = Some secret"
  obtains a h where
    "addAccount env j st = Inr (st\<lparr>keys := keys st @ [secret], bigs := bigs st @ h,
       accounts := Some (account_list st @ [a]), addressToKey := (addressToKey st)(Address a \<mapsto> Key a),
       keyToAddress := (keyToAddress st)(Key a \<mapsto> Address a)\<rparr>)"
    and "Key a = length (keys st)" and "Address a = PubkeyToAddress env secret" and "\<not> Used a"
    and "case jsonAmount j of None \<Rightarrow> Amount a = 0 | Some v \<Rightarrow> big_get (bigs st @ h) (Amount a) = Inr v"
proof (cases "jsonAmount j")
  case None
  show ?thesis
    by (rule that [where a = "\<lparr>Key = length (keys st), Address = PubkeyToAddress env secret, Amount = 0, Used = False\<rparr>" and h = "[]"])
       (simp_all add: addAccount_def assms None Let_def)
next
  case (Some v)
  show ?thesis
    by (rule that [where a = "\<lparr>Key = length (keys st), Address = PubkeyToAddress env secret,
            Amount = Suc (length (bigs st)), Used = False\<rparr>" and h = "[v]"])
       (simp_all add: addAccount_def assms Some big_new_def Let_def)
qed

lemma big_get_append: "big_get h p = Inr v \<Longrightarrow> big_get (h @ h') p = Inr v"
  by (cases p) (auto simp: nth_append split: if_splits)

lemma account_of_append:
  "account_of env ks h j a \<Longrightarrow> account_of env (ks @ ks') (h @ h') j a"
  by (auto simp: account_of_def nth_append big_get_append split: option.splits)

lemma addAccount_inv:
  assumes "acc_inv env st" and "addAccount env j st = Inr st'"
  shows "acc_inv env st' \<and> (\<exists>a h ks. account_list st' = account_list st @ [a] \<and> accounts st' \<noteq> None \<and>
    keys st' = keys st @ ks \<and> bigs st' = bigs st @ h \<and> account_of env (keys st') (bigs st') j a)"
proof -
  obtain secret where s: "HexToECDSA env (jsonKey j) = Some secret"
    using assms(2) by (auto simp: addAccount_def split: option.splits)
  from addAccount_Some [OF s, of st] obtain a h where a:
    "addAccount env j st = Inr (st\<lparr>keys := keys st @ [secret], bigs := bigs st @ h,
       accounts := Some (account_list st @ [a]), addressToKey := (addressToKey st)(Address a \<mapsto> Key a),
       keyToAddress := (keyToAddress st)(Key a \<mapsto> Address a)\<rparr>)"
    "Key a = length (keys st)" "Address a = PubkeyToAddress env secret" "\<not> Used a"
    "case jsonAmount j of None \<Rightarrow> Amount a = 0 | Some v \<Rightarrow> big_get (bigs st @ h) (Amount a) = Inr v" .
  let ?t = "st\<lparr>keys := keys st @ [secret], bigs := bigs st @ h,
       accounts := Some (account_list st @ [a]), addressToKey := (addressToKey st)(Address a \<mapsto> Key a),
       keyToAddress := (keyToAddress st)(Key a \<mapsto> Address a)\<rparr>"
  have t: "st' = ?t" using assms(2) a(1) by simp
  have al: "account_list ?t = account_list st @ [a]" by (simp add: account_list_def)
  have old: "Key b < length (keys st)" "Address b = PubkeyToAddress env (keys st ! Key b)"
    "keyToAddress st (Key b) = Some (Address b)" if "b \<in> set (account_list st)" for b
    using assms(1) that by (simp_all add: acc_inv_def)
  have ne: "Key b \<noteq> length (keys st)" if "b \<in> set (account_list st)" for b
    using old(1) [OF that] by simp
  have "acc_inv env ?t"
    unfolding acc_inv_def al
  proof (intro conjI)
    show "distinct (map Key (account_list st @ [a]))"
      using assms(1) ne a(2) by (auto simp: acc_inv_def)
    show "dom (addressToKey ?t) = Address ` set (account_list st @ [a])"
      using assms(1) by (simp add: acc_inv_def)
    show "\<forall>addr k. addressToKey ?t addr = Some k \<longrightarrow>
        (\<exists>b \<in> set (account_list st @ [a]). Key b = k \<and> Address b = addr)"
      using assms(1) by (auto simp: acc_inv_def)
    show "\<forall>b \<in> set (account_list st @ [a]). Key b < length (keys ?t) \<and>
        Address b = PubkeyToAddress env (keys ?t ! Key b) \<and> keyToAddress ?t (Key b) = Some (Address b)"
      using old ne a(2,3) by (simp add: nth_append less_Suc_eq)
  qed
  moreover have "account_of env (keys ?t) (bigs ?t) j a"
    using a(2-5) s by (simp add: account_of_def)
  ultimately show ?thesis using t al by auto
qed

lemma addAccount_loop:
  assumes "foldR (addAccount env) js st = Inr st'" and "acc_inv env st" and "accounts st \<noteq> None"
  shows "acc_inv env st' \<and> accounts st' \<noteq> None \<and> (\<exists>as h ks. account_list st' = account_list st @ as \<and>
    keys st' = keys st @ ks \<and> bigs st' = bigs st @ h \<and> list_all2 (account_of env (keys st') (bigs st')) js as)"
  using assms
proof (induction js arbitrary: st)
  case Nil
  then show ?case by simp
next
  case (Cons j js)
  from Cons.prems(1) obtain u where u: "addAccount env j st = Inr u" "foldR (addAccount env) js u = Inr st'"
    by (auto elim: bindR_InrE)
  from addAccount_inv [OF Cons.prems(2) u(1)] obtain a h ks where a: "acc_inv env u"
    "account_list u = account_list st @ [a]" "accounts u \<noteq> None" "keys u = keys st @ ks" "bigs u = bigs st @ h"
    "account_of env (keys u) (bigs u) j a" by blast
  from Cons.IH [OF u(2) a(1,3)] obtain as h' ks' where b: "acc_inv env st'" "accounts st' \<noteq> None"
    "account_list st' = account_list u @ as" "keys st' = keys u @ ks'" "bigs st' = bigs u @ h'"
    "list_all2 (account_of env (keys st') (bigs st')) js as" by blast
  have "account_of env (keys st') (bigs st') j a" unfolding b(4,5) by (rule account_of_append [OF a(6)])
  then have "list_all2 (account_of env (keys st') (bigs st')) (j # js) (a # as)" using b(6) by simp
  then show ?case using b(1,2) by (intro conjI exI [of _ "a # as"]) (auto simp: b(3,4,5) a(2,4,5))
qed

lemma acc_inv_empty:
  "acc_inv env (st\<lparr>accounts := Some [], keyToAddress := Map.empty, addressToKey := Map.empty\<rparr>)"
  by (simp add: acc_inv_def account_list_def)

interpretation acc: memo "ReadAccounts env metadata" accounts
proof unfold_locales
  show "accounts s = Some v \<Longrightarrow> ReadAccounts env metadata s = Inr (v, s)" for s :: "'b utilst_scheme" and v
    by (simp add: ReadAccounts_def)
  show "accounts s' = Some v" if run: "ReadAccounts env metadata s = Inr (v, s')" for s s' :: "'b utilst_scheme" and v
  proof (cases "accounts s")
    case (Some as)
    then show ?thesis using run by (simp add: ReadAccounts_def)
  next
    case None
    then obtain p and t :: "'b utilst_scheme" where loop: "foldR (addAccount env) p
        (t\<lparr>accounts := Some [], keyToAddress := Map.empty, addressToKey := Map.empty\<rparr>) = Inr s'"
      and v: "v = account_list s'"
      using run by (auto simp: ReadAccounts_def elim!: bindR_InrE split: option.splits)
    have "accounts s' \<noteq> None"
      using addAccount_loop [OF loop acc_inv_empty] by simp
    then show ?thesis using v by (auto simp: account_list_def)
  qed
qed

lemma ReadAccounts_fresh:
  assumes "accounts st = None" and "ReadAccounts env metadata st = Inr (as, st')"
  obtains js where "acc_inv env st'" and "account_list st' = as"
    and "list_all2 (account_of env (keys st') (bigs st')) js as"
    and "\<exists>m. (case metadataJSONMap st metadata of Some m \<Rightarrow> Some m | None \<Rightarrow> readMeta env metadata) = Some m \<and>
      readAccounts env (AccountsFile m) = Some js"
proof -
  obtain f st1 js where r: "getAccountsJSONFile env metadata st = Inr (f, st1)" "readAccounts env f = Some js"
    "foldR (addAccount env) js (st1\<lparr>accounts := Some [], keyToAddress := Map.empty, addressToKey := Map.empty\<rparr>) = Inr st'"
    "as = account_list st'"
    using assms by (auto simp: ReadAccounts_def elim!: bindR_InrE split: option.splits)
  from addAccount_loop [OF r(3) acc_inv_empty] r(4) have "acc_inv env st'"
    "list_all2 (account_of env (keys st') (bigs st')) js as" by (auto simp: account_list_def)
  moreover have "\<exists>m. (case metadataJSONMap st metadata of Some m \<Rightarrow> Some m | None \<Rightarrow> readMeta env metadata) = Some m \<and>
      readAccounts env (AccountsFile m) = Some js"
    using r(1,2) by (auto simp: getAccountsJSONFile_def getMeta_def elim!: bindR_InrE split: option.splits)
  ultimately show ?thesis using r(4) that by blast
qed

lemma findAccount_Inr:
  "findAccount addr i as = Inr j \<Longrightarrow>
     \<exists>us a vs. as = us @ a # vs \<and> Address a = addr \<and> j = i + length us \<and> (\<forall>u \<in> set us. Address u \<noteq> addr)"
proof (induction as arbitrary: i)
  case (Cons a as)
  show ?case
  proof (cases "Address a = addr")
    case True
    then show ?thesis using Cons.prems by (intro exI [of _ "[]"]) simp
  next
    case False
    with Cons.prems have "findAccount addr (Suc i) as = Inr j" by simp
    from Cons.IH [OF this] obtain us b vs where "as = us @ b # vs" "Address b = addr" "j = Suc i + length us"
      "\<forall>u \<in> set us. Address u \<noteq> addr" by blast
    then show ?thesis using False by (intro exI [of _ "a # us"] exI [of _ b] exI [of _ vs]) simp
  qed
qed simp

lemma findAccount_total: "addr \<in> Address ` set as \<Longrightarrow> \<exists>j. findAccount addr i as = Inr j"
  by (induction as arbitrary: i) auto

text \<open>The invariant speaks of keys and addresses only.\<close>

lemma acc_inv_pairs:
  "acc_inv env st \<longleftrightarrow>
     (let kas = map (\<lambda>a. (Key a, Address a)) (account_list st) in
      (\<forall>(k, addr) \<in> set kas. k < length (keys st) \<and> addr = PubkeyToAddress env (keys st ! k) \<and>
         keyToAddress st k = Some addr) \<and>
      distinct (map fst kas) \<and> dom (addressToKey st) = snd ` set kas \<and>
      (\<forall>addr k. addressToKey st addr = Some k \<longrightarrow> (k, addr) \<in> set kas))"
  by (simp add: acc_inv_def Let_def image_image comp_def) (force simp: image_iff)

text \<open>Marking an account changes its flag only: the tables stay consistent.\<close>

lemma markUsed_inv:
  assumes "acc_inv env st" and "markUsed addr st = Inr st'"
  shows "acc_inv env st' \<and> addressToKey st' = addressToKey st \<and> keys st' = keys st \<and>
    map Address (account_list st') = map Address (account_list st) \<and>
    map Key (account_list st') = map Key (account_list st) \<and>
    (\<exists>a \<in> set (account_list st'). Address a = addr \<and> Used a)"
proof -
  obtain j where j: "findAccount addr 0 (account_list st) = Inr j"
      "st' = st\<lparr>accounts := map_option (\<lambda>as. as[j := (as ! j)\<lparr>Used := True\<rparr>]) (accounts st)\<rparr>"
    using assms(2) by (auto simp: markUsed_def GetAccountFromAddress_def elim!: bindR_InrE)
  from findAccount_Inr [OF j(1)] obtain us a vs where a: "account_list st = us @ a # vs" "Address a = addr" "j = length us"
    by auto
  then have "accounts st = Some (us @ a # vs)" by (auto simp: account_list_def split: option.splits)
  then have al: "account_list st' = us @ a\<lparr>Used := True\<rparr> # vs" by (simp add: j(2) account_list_def a(3))
  have same: "addressToKey st' = addressToKey st" "keys st' = keys st" "keyToAddress st' = keyToAddress st"
    by (simp_all add: j(2))
  have maps: "map Address (account_list st') = map Address (account_list st)"
    "map Key (account_list st') = map Key (account_list st)" by (simp_all add: al a(1))
  have kas: "map (\<lambda>a. (Key a, Address a)) (account_list st') = map (\<lambda>a. (Key a, Address a)) (account_list st)"
    by (simp add: al a(1))
  have "acc_inv env st'" using assms(1) unfolding acc_inv_pairs same kas .
  moreover have "\<exists>a \<in> set (account_list st'). Address a = addr \<and> Used a"
    unfolding al using a(2) by simp
  ultimately show ?thesis using maps same by simp
qed

text \<open>The random account, once the accounts are read.\<close>

lemma GetRandAccount_cached:
  assumes "accounts st = Some as"
  shows "GetRandAccount env metadata st =
    (if as = [] then Inl (Panic ''invalid argument to Intn'')
     else Inr (as ! (rnd st 0 mod length as), st\<lparr>rnd := snd (rand_Int (rnd st))\<rparr>))"
proof -
  have read: "ReadAccounts env metadata st = Inr (as, st)" by (rule acc.hit [OF assms])
  show ?thesis
  proof (cases "as = []")
    case True
    then show ?thesis using read by (simp add: GetRandAccount_def draw_Intn_def rand_Intn_def)
  next
    case False
    then have "rnd st 0 mod length as < length as" by simp
    then show ?thesis using read False
      by (simp add: GetRandAccount_def draw_Intn_def rand_Intn_def rand_Int_def index_def del: of_nat_mod flip: of_nat_mod)
  qed
qed

section \<open>Properties\<close>

text \<open>
  C33: Reading the accounts returns exactly the entries of the accounts file that the metadata names, one account per
  entry and in the file's order: each has the key decoded from its entry, the address of that key and the amount
  given. Afterwards \<^verbatim>\<open>GetKeyFromAddress\<close>
  answers exactly for the accounts' addresses, with a key that has this address and that
  \<^verbatim>\<open>GetAddressFromKey\<close> maps back to it, also when two accounts share an address; and reading
  again returns the same accounts.
\<close>

theorem accounts_tables:
  assumes "accounts st = None" and "ReadAccounts env metadata st = Inr (as, st')"
  shows "(\<exists>meta js. (case metadataJSONMap st metadata of Some m \<Rightarrow> Some m | None \<Rightarrow> readMeta env metadata) = Some meta \<and>
       readAccounts env (AccountsFile meta) = Some js \<and> list_all2 (account_of env (keys st') (bigs st')) js as) \<and>
    (\<forall>addr. if addr \<in> Address ` set as
       then \<exists>k. GetKeyFromAddress addr st' = Inr k \<and> k \<in> Key ` set as \<and>
              PubkeyToAddress env (keys st' ! k) = addr \<and> GetAddressFromKey k st' = Inr addr
       else GetKeyFromAddress addr st' = Inl (Panic ''address was not found in accounts'')) \<and>
    ReadAccounts env' metadata' st' = Inr (as, st')"
proof -
  obtain js where r: "acc_inv env st'" "account_list st' = as"
    "list_all2 (account_of env (keys st') (bigs st')) js as"
    "\<exists>m. (case metadataJSONMap st metadata of Some m \<Rightarrow> Some m | None \<Rightarrow> readMeta env metadata) = Some m \<and>
      readAccounts env (AccountsFile m) = Some js" using ReadAccounts_fresh [OF assms] by metis
  have dom: "dom (addressToKey st') = Address ` set as" using r(1,2) by (simp add: acc_inv_def)
  have look: "if addr \<in> Address ` set as
       then \<exists>k. GetKeyFromAddress addr st' = Inr k \<and> k \<in> Key ` set as \<and>
              PubkeyToAddress env (keys st' ! k) = addr \<and> GetAddressFromKey k st' = Inr addr
       else GetKeyFromAddress addr st' = Inl (Panic ''address was not found in accounts'')" for addr
  proof (cases "addressToKey st' addr")
    case None
    then have "addr \<notin> Address ` set as" unfolding dom [symmetric] by (simp add: domIff)
    then show ?thesis using None by (simp add: GetKeyFromAddress_def)
  next
    case (Some k)
    then have "addr \<in> Address ` set as" unfolding dom [symmetric] by (rule domI)
    moreover have "k \<in> Key ` set as" using r(1,2) Some unfolding acc_inv_def by blast
    ultimately show ?thesis using acc_invD [OF r(1) Some] Some
      by (simp add: GetKeyFromAddress_def GetAddressFromKey_def)
  qed
  have again: "ReadAccounts env' metadata' st' = Inr (as, st')"
    by (rule acc.hit) (rule acc.fills [OF assms(2)])
  show ?thesis using r(3,4) look again by blast
qed

text \<open>
  A random account is one of the accounts, for every random source; only the random source
  moves. Without accounts the choice panics (\<^verbatim>\<open>rand.Intn(0)\<close>).
\<close>

lemma rand_account_member:
  assumes "accounts st = Some as"
  shows "if as = [] then GetRandAccount env metadata st = Inl (Panic ''invalid argument to Intn'')
    else \<exists>a. GetRandAccount env metadata st = Inr (a, st\<lparr>rnd := snd (rand_Int (rnd st))\<rparr>) \<and> a \<in> set as"
  using GetRandAccount_cached [OF assms, of env metadata] nth_mem [of "rnd st 0 mod length as" as]
  by (cases "as = []") auto

theorem accounts_tables_witness:
  "\<exists>as st'. ReadAccounts example_env ''m'' st0 = Inr (as, st') \<and> map Address as = [4097, 4098] \<and>
     (\<exists>k. GetKeyFromAddress 4098 st' = Inr k) \<and>
     GetKeyFromAddress 5 st' = Inl (Panic ''address was not found in accounts'')"
proof -
  have "\<exists>as st'. ReadAccounts example_env ''m'' st0 = Inr (as, st') \<and> map Address as = [4097, 4098]"
    by (simp add: ReadAccounts_def getAccountsJSONFile_def getMeta_def addAccount_def Let_def account_list_def
        undec_def big_new_def)
  then obtain as st' where r: "ReadAccounts example_env ''m'' st0 = Inr (as, st')" "map Address as = [4097, 4098]"
    by (elim exE conjE)
  have addrs: "Address ` set as = {4097, 4098}" using arg_cong [OF r(2), of set] by simp
  note look = accounts_tables [OF _ r(1), THEN conjunct2, THEN conjunct1, THEN spec]
  have "\<exists>k. GetKeyFromAddress 4098 st' = Inr k" using look [of 4098] addrs by auto
  moreover have "GetKeyFromAddress 5 st' = Inl (Panic ''address was not found in accounts'')"
    using look [of 5] addrs by simp
  ultimately show ?thesis using r by (intro exI [of _ as] exI [of _ st'] conjI)
qed

end
