(* ===== verification/TxInput.thy ===== *)
theory TxInput
  imports Accounts
begin

text \<open>
  \<^verbatim>\<open>utils/transactions.go\<close>: the deployment transactions that were extracted from the truffle
  project, decoded and signed again for the fuzzer's chain.
\<close>

section \<open>Transactions\<close>

text \<open>A line of the transactions file.\<close>

record transaction =
  AccountNonce :: "64 word"
  From :: string
  Recipient :: string
  TxAmount :: string
  GasLimit :: "64 word"
  Price :: string
  Payload :: string

text \<open>
  go-ethereum's \<^verbatim>\<open>types.Transaction\<close> by the data of its constructors: \<open>txTo\<close> is \<open>None\<close> for
  \<^verbatim>\<open>NewContractCreation\<close>. The constructors copy the amounts, so these are values. The signature
  is abstract data.
\<close>

record ethTx =
  txNonce :: "64 word"
  txTo :: "address option"
  txValue :: int
  txGas :: "64 word"
  txPrice :: int
  txData :: bytes
  txSig :: "int option"

text \<open>
  Further parameters: the lines of the transactions file (\<open>None\<close> for a line that does not decode)
  with a flag for an error of the scanner at the end, \<^verbatim>\<open>common.HexToAddress\<close>,
  \<^verbatim>\<open>types.SignTx\<close> with the secret number of the key, and \<^verbatim>\<open>types.Sender\<close> (with the Homestead
  signer).
\<close>

record txenv = env +
  readTxLines :: "string \<Rightarrow> (transaction option list \<times> bool) option"
  HexToAddress :: "string \<Rightarrow> address"
  SignTx :: "ethTx \<Rightarrow> int \<Rightarrow> ethTx option"
  Sender :: "ethTx \<Rightarrow> address option"

text \<open>What go-ethereum documents of signing: it succeeds, sets the signature only, and the sender of a signed transaction is the address of the key.\<close>

definition sign_ok :: "'e txenv_scheme \<Rightarrow> bool" where
  "sign_ok env \<longleftrightarrow> (\<forall>tx k. \<exists>s. SignTx env tx k = Some (tx\<lparr>txSig := s\<rparr>) \<and>
     Sender env (tx\<lparr>txSig := s\<rparr>) = Some (PubkeyToAddress env k))"

section \<open>Operations\<close>

definition NullAddress :: string where
  "NullAddress = replicate 40 CHR ''0''"

text \<open>\<^verbatim>\<open>%x\<close> of an address: its 20 bytes, big end first, two digits each.\<close>

definition addr_hex :: "address \<Rightarrow> string" where
  "addr_hex a = map (\<lambda>i. hex_digit (unat (drop_bit (4 * (39 - i)) a) mod 16)) [0..<40]"

definition getPayload :: "string \<Rightarrow> bytes res" where
  "getPayload data =
     bindR (index data 1) (\<lambda>c.
     bindR (if c = CHR ''x'' then slice 2 (int (length data)) data else Inr data) (\<lambda>data_str.
       case hex_decode data_str of
         (payload, None) \<Rightarrow> Inr payload
       | (_, Some err) \<Rightarrow> Inl (Panic ''error decoding payload'')))"

definition isContractCreation :: "'e txenv_scheme \<Rightarrow> transaction \<Rightarrow> bool" where
  "isContractCreation env t \<longleftrightarrow>
     Recipient t = [] \<or> NullAddress = addr_hex (HexToAddress env (Recipient t))"

text \<open>
  \<^verbatim>\<open>strconv.ParseInt(s, 10, 64)\<close>: an optional sign and digits; \<open>None\<close> is a syntax or range
  error.
\<close>

definition digits_value :: "string \<Rightarrow> nat option" where
  "digits_value s =
     (if s = [] \<or> \<not> list_all (\<lambda>c. CHR ''0'' \<le> c \<and> c \<le> CHR ''9'') s then None
      else Some (undec s))"

definition parseInt :: "string \<Rightarrow> int option" where
  "parseInt s =
     (case (case s of
              CHR ''-'' # ds \<Rightarrow> map_option (\<lambda>n. - int n) (digits_value ds)
            | CHR ''+'' # ds \<Rightarrow> map_option int (digits_value ds)
            | ds \<Rightarrow> map_option int (digits_value ds)) of
        None \<Rightarrow> None
      | Some v \<Rightarrow> if - (2 ^ 63) \<le> v \<and> v < 2 ^ 63 then Some v else None)"

definition maxGasPool :: "64 word" where
  "maxGasPool = 8000000"

definition convertAndSign :: "'e txenv_scheme \<Rightarrow> transaction \<Rightarrow> 'z utilst_scheme \<Rightarrow> (ethTx \<times> 'z utilst_scheme) res" where
  "convertAndSign env t st =
     (let amount = (case parseInt (TxAmount t) of None \<Rightarrow> 0 | Some v \<Rightarrow> v);
          price = (case parseInt (Price t) of None \<Rightarrow> 0 | Some v \<Rightarrow> v) in
      bindR (getPayload (Payload t)) (\<lambda>payload.
      let t = (if GasLimit t > maxGasPool then t\<lparr>GasLimit := maxGasPool\<rparr> else t);
          to = (if isContractCreation env t then None else Some (HexToAddress env (Recipient t)));
          tx = \<lparr>txNonce = AccountNonce t, txTo = to, txValue = amount, txGas = GasLimit t, txPrice = price,
                txData = payload, txSig = None\<rparr>;
          sender = HexToAddress env (From t) in
      bindR (markUsed sender st) (\<lambda>st.
      bindR (GetKeyFromAddress sender st) (\<lambda>key.
      case SignTx env tx (keys st ! key) of
        None \<Rightarrow> Inl (Panic ''error signing contract'')
      | Some stx \<Rightarrow> Inr (stx, st)))))"

definition ReadTransactions ::
  "'e txenv_scheme \<Rightarrow> string \<Rightarrow> 'z utilst_scheme \<Rightarrow> (ethTx list \<times> 'z utilst_scheme) res" where
  "ReadTransactions env txFile st =
     (case readTxLines env txFile of
        None \<Rightarrow> Inl (Panic ''error opening transactions file'')
      | Some (lines, err) \<Rightarrow>
          bindR (foldR (\<lambda>line (txs, st).
              case line of
                None \<Rightarrow> Inl (Panic ''error unmarshalling transaction'')
              | Some t \<Rightarrow> bindR (convertAndSign env t st) (\<lambda>(tx, st). Inr (txs @ [tx], st))) lines ([], st)) (\<lambda>r.
          if err then Inl (Panic ''scanner'') else Inr r))"

section \<open>Lemmas\<close>

text \<open>The text of an address has the 40 zeros of \<^verbatim>\<open>NullAddress\<close> only for the zero address.\<close>

lemma hex_digit_zero: "hex_digit 0 = CHR ''0''"
  by code_simp

lemma hex_digit_0: "n < 16 \<Longrightarrow> hex_digit n = CHR ''0'' \<longleftrightarrow> n = 0"
proof
  assume n: "n < 16" "hex_digit n = CHR ''0''"
  then have "from_hex_char (hex_digit n) = from_hex_char CHR ''0''" by simp
  then show "n = 0" using from_hex_char_digit [OF n(1)] by (simp add: from_hex_char_def)
next
  show "n = 0 \<Longrightarrow> hex_digit n = CHR ''0''" by (simp add: hex_digit_zero)
qed

lemma nibbles_zero:
  fixes a :: "160 word"
  assumes "\<And>q. q < 40 \<Longrightarrow> unat (drop_bit (4 * q) a) mod 16 = 0"
  shows "a = 0"
proof (rule bit_eqI)
  fix n assume "possible_bit TYPE(160 word) n"
  then have n: "n < 160" by (simp add: possible_bit_word)
  let ?q = "n div 4"
  have "take_bit 4 (unat (drop_bit (4 * ?q) a)) = 0"
    using assms [of ?q] n by (simp add: take_bit_eq_mod)
  moreover have "bit (take_bit 4 (unat (drop_bit (4 * ?q) a))) (n mod 4) \<longleftrightarrow> bit a n"
    using n by (simp add: bit_take_bit_iff bit_unsigned_iff bit_drop_bit_eq)
  ultimately show "bit a n \<longleftrightarrow> bit (0 :: 160 word) n" by simp
qed

lemma addr_hex_null: "addr_hex a = NullAddress \<longleftrightarrow> a = 0"
proof
  assume h: "addr_hex a = NullAddress"
  have "unat (drop_bit (4 * q) a) mod 16 = 0" if q: "q < 40" for q
  proof -
    have "addr_hex a ! (39 - q) = CHR ''0''" using q h by (simp add: NullAddress_def)
    then have "hex_digit (unat (drop_bit (4 * q) a) mod 16) = CHR ''0''" using q nth_upt [of 0 "39 - q" 40] by (simp add: addr_hex_def)
    then show ?thesis using hex_digit_0 [of "unat (drop_bit (4 * q) a) mod 16"] by simp
  qed
  then show "a = 0" by (rule nibbles_zero)
next
  show "a = 0 \<Longrightarrow> addr_hex a = NullAddress"
    by (simp add: addr_hex_def NullAddress_def map_replicate_const hex_digit_zero)
qed

lemma digits_value_dec_nat: "digits_value (dec_nat n) = Some n"
proof -
  have "CHR ''0'' \<le> c \<and> c \<le> CHR ''9''" if c: "c \<in> set (dec_nat n)" for c
  proof -
    obtain d where "d < 10" "c = dec_digit d" using dec_nat_digits [OF c] by blast
    then show ?thesis by (auto simp: less_eq_char_def of_char_dec_digit)
  qed
  moreover have "dec_nat n \<noteq> []" by (subst dec_nat.simps) simp
  ultimately show ?thesis by (simp add: digits_value_def undec_dec_nat list_all_iff)
qed

lemma dec_nat_sign: "dec_nat n = CHR ''-'' # ds \<Longrightarrow> False" "dec_nat n = CHR ''+'' # ds \<Longrightarrow> False"
proof -
  show "dec_nat n = CHR ''-'' # ds \<Longrightarrow> False" using minus_notin_dec_nat [of n] by simp
  show "dec_nat n = CHR ''+'' # ds \<Longrightarrow> False"
  proof -
    assume "dec_nat n = CHR ''+'' # ds"
    then have "CHR ''+'' \<in> set (dec_nat n)" by simp
    then obtain d where "d < 10" "CHR ''+'' = dec_digit d" using dec_nat_digits by blast
    then have "(of_char (CHR ''+'') :: nat) = 48 + d" using of_char_dec_digit by metis
    then show False by simp
  qed
qed

text \<open>Parsing a printed integer: exactly the 64-bit ones are read, as themselves.\<close>

lemma parseInt_dec: "parseInt (dec_int v) = (if - (2 ^ 63) \<le> v \<and> v < 2 ^ 63 then Some v else None)"
proof (cases "v < 0")
  case True
  then have "dec_int v = CHR ''-'' # dec_nat (nat (- v))" by (simp add: dec_int_def)
  then show ?thesis using True by (simp add: parseInt_def digits_value_dec_nat)
next
  case False
  then have d: "dec_int v = dec_nat (nat v)" by (simp add: dec_int_def)
  have "parseInt (dec_nat (nat v)) =
      (case map_option int (digits_value (dec_nat (nat v))) of None \<Rightarrow> None
       | Some v \<Rightarrow> if - (2 ^ 63) \<le> v \<and> v < 2 ^ 63 then Some v else None)"
  proof (cases "dec_nat (nat v)")
    case (Cons c cs)
    have "c \<noteq> CHR ''-''" "c \<noteq> CHR ''+''" using dec_nat_sign [of "nat v" cs] Cons by auto
    then show ?thesis unfolding Cons parseInt_def by (auto split: char.splits bool.splits)
  qed (simp add: parseInt_def)
  then show ?thesis using False by (simp add: d digits_value_dec_nat)
qed

lemma parseInt_hex: "parseInt (''0x'' @ ds) = None"
proof -
  have "\<not> CHR ''x'' \<le> CHR ''9''" by (simp add: less_eq_char_def)
  then show ?thesis by (simp add: parseInt_def digits_value_def)
qed

lemma getPayload_hex: "getPayload (hex_encode (b # bs)) = Inr (b # bs)"
proof -
  have "from_hex_char CHR ''x'' = None" by (simp add: from_hex_char_def)
  then have "hex_digit (unat b mod 16) \<noteq> CHR ''x''"
    using from_hex_char_digit [of "unat b mod 16"] by auto
  then show ?thesis
    using hex_decode_encode [of "b # bs"]
    by (simp add: getPayload_def index_def hex_encode_Cons)
qed

text \<open>The transaction before signing, and \<^verbatim>\<open>convertAndSign\<close> in terms of it.\<close>

definition unsigned_tx :: "'e txenv_scheme \<Rightarrow> transaction \<Rightarrow> bytes \<Rightarrow> ethTx" where
  "unsigned_tx env t p =
     \<lparr>txNonce = AccountNonce t, txTo = if isContractCreation env t then None else Some (HexToAddress env (Recipient t)),
      txValue = (case parseInt (TxAmount t) of None \<Rightarrow> 0 | Some v \<Rightarrow> v), txGas = min (GasLimit t) maxGasPool,
      txPrice = (case parseInt (Price t) of None \<Rightarrow> 0 | Some v \<Rightarrow> v), txData = p, txSig = None\<rparr>"

lemma payload_code: "getPayload (''0x'' @ hex_encode bs) = Inr bs"
  using hex_decode_encode [of bs] by (simp add: getPayload_def index_def slice_def)

lemma convertAndSign_unsigned:
  "convertAndSign env t st =
     bindR (getPayload (Payload t)) (\<lambda>p.
     bindR (markUsed (HexToAddress env (From t)) st) (\<lambda>st.
     bindR (GetKeyFromAddress (HexToAddress env (From t)) st) (\<lambda>key.
     case SignTx env (unsigned_tx env t p) (keys st ! key) of
       None \<Rightarrow> Inl (Panic ''error signing contract'') | Some stx \<Rightarrow> Inr (stx, st))))"
proof -
  have cc: "isContractCreation env (t\<lparr>GasLimit := maxGasPool\<rparr>) = isContractCreation env t"
    by (simp add: isContractCreation_def)
  have m: "min (GasLimit t) maxGasPool = (if GasLimit t > maxGasPool then maxGasPool else GasLimit t)"
    by (auto simp: min_def)
  show ?thesis
    by (cases "GasLimit t > maxGasPool") (simp_all add: convertAndSign_def unsigned_tx_def Let_def cc m)
qed

lemma convertAndSign_eq:
  assumes "sign_ok env" and "convertAndSign env t st = Inr (tx, st')"
  obtains p k s where "getPayload (Payload t) = Inr p" and "markUsed (HexToAddress env (From t)) st = Inr st'"
    and "addressToKey st' (HexToAddress env (From t)) = Some k"
    and "tx = (unsigned_tx env t p)\<lparr>txSig := s\<rparr>"
    and "Sender env tx = Some (PubkeyToAddress env (keys st' ! k))"
proof -
  from assms(2) obtain p u k where r: "getPayload (Payload t) = Inr p"
    "markUsed (HexToAddress env (From t)) st = Inr u" "GetKeyFromAddress (HexToAddress env (From t)) u = Inr k"
    by (auto simp: convertAndSign_unsigned elim!: bindR_InrE)
  have look: "addressToKey u (HexToAddress env (From t)) = Some k"
    using r(3) by (simp add: GetKeyFromAddress_def split: option.splits)
  let ?tx = "unsigned_tx env t p"
  obtain s where s: "SignTx env ?tx (keys u ! k) = Some (?tx\<lparr>txSig := s\<rparr>)"
    "Sender env (?tx\<lparr>txSig := s\<rparr>) = Some (PubkeyToAddress env (keys u ! k))"
    using assms(1) unfolding sign_ok_def by blast
  have "tx = ?tx\<lparr>txSig := s\<rparr>" "u = st'"
    using assms(2) r s(1) by (simp_all add: convertAndSign_unsigned)
  then show ?thesis using that [of p k s] r(1,2) look s(2) by simp
qed

section \<open>Properties\<close>

text \<open>
  C36: Decoding undoes the encoding of a payload, with and without the prefix \<^verbatim>\<open>0x\<close>; a text
  shorter than two characters (such as the empty text) makes \<^verbatim>\<open>getPayload\<close> panic on an index.
\<close>

theorem payload_roundtrip:
  "getPayload (''0x'' @ hex_encode bs) = Inr bs \<and> getPayload (hex_encode (b # bs)) = Inr (b # bs) \<and>
   (getPayload s = Inl IndexOutOfRange) = (length s < 2)"
proof (intro conjI getPayload_hex payload_code)
  show "(getPayload s = Inl IndexOutOfRange) = (length s < 2)"
    by (auto simp: getPayload_def index_def slice_def split: prod.splits option.splits if_splits)
qed

text \<open>
  C37: A deployment transaction from a known account with a decodable payload is converted: it keeps
  nonce and payload, its gas is capped at the 8000000 of the gas pool, it creates a contract exactly
  if the recipient is absent or the zero address, its recovered sender is the account it came from,
  and that account is marked as used, all tables staying consistent.
\<close>

theorem deployment_tx_signed:
  assumes "sign_ok env" and "acc_inv env st" and "getPayload (Payload t) = Inr p"
    and "HexToAddress env (From t) \<in> Address ` set (account_list st)"
  shows "\<exists>tx st'. convertAndSign env t st = Inr (tx, st') \<and> txNonce tx = AccountNonce t \<and> txData tx = p \<and>
    txGas tx \<le> 8000000 \<and> txGas tx \<le> GasLimit t \<and>
    (txTo tx = None) = (Recipient t = [] \<or> HexToAddress env (Recipient t) = 0) \<and>
    Sender env tx = Some (HexToAddress env (From t)) \<and> acc_inv env st' \<and>
    (\<exists>a \<in> set (account_list st'). Address a = HexToAddress env (From t) \<and> Used a)"
proof -
  let ?sender = "HexToAddress env (From t)"
  obtain i where "findAccount ?sender 0 (account_list st) = Inr i" using findAccount_total [OF assms(4)] by blast
  then obtain u where u: "markUsed ?sender st = Inr u" by (simp add: markUsed_def GetAccountFromAddress_def)
  note inv = markUsed_inv [OF assms(2) u]
  have "?sender \<in> dom (addressToKey u)" using inv assms(2,4) by (simp add: acc_inv_def)
  then obtain k where k: "GetKeyFromAddress ?sender u = Inr k" by (auto simp: GetKeyFromAddress_def)
  obtain s where "SignTx env (unsigned_tx env t p) (keys u ! k) = Some ((unsigned_tx env t p)\<lparr>txSig := s\<rparr>)"
    using assms(1) unfolding sign_ok_def by blast
  then obtain tx where tx: "convertAndSign env t st = Inr (tx, u)"
    using assms(3) u k by (simp add: convertAndSign_unsigned)
  from convertAndSign_eq [OF assms(1) tx] obtain p' k' s where eq: "getPayload (Payload t) = Inr p'"
    "addressToKey u ?sender = Some k'" "tx = (unsigned_tx env t p')\<lparr>txSig := s\<rparr>"
    "Sender env tx = Some (PubkeyToAddress env (keys u ! k'))" .
  have "p' = p" using eq(1) assms(3) by simp
  have "Sender env tx = Some ?sender" using eq(4) acc_invD [OF conjunct1 [OF inv] eq(2)] inv by simp
  moreover have "isContractCreation env t \<longleftrightarrow> Recipient t = [] \<or> HexToAddress env (Recipient t) = 0"
    using addr_hex_null [of "HexToAddress env (Recipient t)"] by (auto simp: isContractCreation_def)
  moreover have "min (GasLimit t) maxGasPool \<le> 8000000" "min (GasLimit t) maxGasPool \<le> GasLimit t"
    by (auto simp: maxGasPool_def min_def not_le)
  ultimately show ?thesis using tx inv
    by (intro exI [of _ tx] exI [of _ u]) (simp add: eq(3) unsigned_tx_def \<open>p' = p\<close>)
qed

text \<open>
  C38: The value of a deployment transaction: a decimal amount is kept if it fits in 64 bits signed
  (about 9.2 ether) and becomes 0 otherwise, and a hexadecimal amount always becomes 0.
\<close>

theorem deployment_tx_value:
  assumes "sign_ok env" and "convertAndSign env t st = Inr (tx, st')"
  shows "(TxAmount t = dec_int v \<longrightarrow> txValue tx = (if - (2 ^ 63) \<le> v \<and> v < 2 ^ 63 then v else 0)) \<and>
    (TxAmount t = ''0x'' @ ds \<longrightarrow> txValue tx = 0)"
proof -
  from convertAndSign_eq [OF assms] obtain p s where "tx = (unsigned_tx env t p)\<lparr>txSig := s\<rparr>" by metis
  then have "txValue tx = (case parseInt (TxAmount t) of None \<Rightarrow> 0 | Some v \<Rightarrow> v)" by (simp add: unsigned_tx_def)
  then show ?thesis using parseInt_dec [of v] parseInt_hex [of ds] by simp
qed

section \<open>Witnesses\<close>

text \<open>The example project's chain: a signature is the secret number, and its sender is recovered from it.\<close>

definition example_txenv :: txenv where
  "example_txenv = env.extend example_env (txenv.fields (\<lambda>_. Some ([], False))
     (\<lambda>s. word_of_nat (undec s)) (\<lambda>tx k. Some (tx\<lparr>txSig := Some k\<rparr>))
     (\<lambda>tx. map_option (\<lambda>k. word_of_int (k + 4096)) (txSig tx)))"

lemma example_txenv_simps [simp]:
  "HexToAddress example_txenv a = word_of_nat (undec a)"
  "SignTx example_txenv tx k = Some (tx\<lparr>txSig := Some k\<rparr>)"
  "Sender example_txenv tx = map_option (\<lambda>k. word_of_int (k + 4096)) (txSig tx)"
  "PubkeyToAddress example_txenv k = word_of_int (k + 4096)"
  by (simp_all add: example_txenv_def env.defs txenv.defs example_env_def)

lemma sign_ok_example: "sign_ok example_txenv"
  unfolding sign_ok_def by (intro allI exI [of _ "Some k" for k]) simp

text \<open>A state with one account, of address 4097 and secret number 1.\<close>

definition one_account :: utilst where
  "one_account = st0\<lparr>accounts := Some [\<lparr>Key = 0, Address = 4097, Amount = 0, Used = False\<rparr>], keys := [1],
     addressToKey := [4097 \<mapsto> 0], keyToAddress := [0 \<mapsto> 4097]\<rparr>"

lemma one_account_inv: "acc_inv example_txenv one_account" "account_list one_account = [\<lparr>Key = 0, Address = 4097, Amount = 0, Used = False\<rparr>]"
  by (auto simp: acc_inv_def account_list_def one_account_def)

definition example_tx :: transaction where
  "example_tx = \<lparr>AccountNonce = 3, From = ''4097'', Recipient = [], TxAmount = ''10000000000000000000'',
     GasLimit = 9000000, Price = ''1'', Payload = ''0x6001''\<rparr>"

lemma undec_4097: "undec ''4097'' = 4097"
  by (simp add: undec_def)

lemma example_payload: "getPayload (Payload example_tx) = Inr [0x60, 1]"
proof -
  have "''0x'' @ hex_encode [0x60, 1] = ''0x6001''" by code_simp
  with payload_code [of "[0x60, 1]"] show ?thesis by (simp add: example_tx_def)
qed

theorem deployment_tx_signed_witness:
  "\<exists>tx st'. convertAndSign example_txenv example_tx one_account = Inr (tx, st') \<and> txGas tx \<le> 8000000 \<and>
     txTo tx = None \<and> Sender example_txenv tx = Some 4097"
proof -
  have "HexToAddress example_txenv (From example_tx) \<in> Address ` set (account_list one_account)"
    by (simp add: one_account_inv example_tx_def undec_4097)
  from deployment_tx_signed [OF sign_ok_example one_account_inv(1) example_payload this]
  show ?thesis by (auto simp: example_tx_def undec_4097)
qed

theorem deployment_tx_value_witness:
  "\<exists>tx st'. convertAndSign example_txenv example_tx one_account = Inr (tx, st') \<and> txValue tx = 0 \<and>
     TxAmount example_tx = dec_int (10 ^ 19)"
proof -
  have amount: "TxAmount example_tx = dec_int (10 ^ 19)"
  proof -
    have "char_of (48 :: nat) = CHR ''0''" "char_of (49 :: nat) = CHR ''1''" by code_simp+
    then show ?thesis by (simp add: example_tx_def dec_int_def dec_nat.simps dec_digit_def)
  qed
  have "\<exists>tx st'. convertAndSign example_txenv example_tx one_account = Inr (tx, st')"
    unfolding convertAndSign_unsigned example_payload
    by (simp add: markUsed_def GetAccountFromAddress_def one_account_inv example_tx_def undec_4097)
       (simp add: GetKeyFromAddress_def one_account_def)
  then obtain tx st' where r: "convertAndSign example_txenv example_tx one_account = Inr (tx, st')" by blast
  from deployment_tx_value [OF sign_ok_example r, of "10 ^ 19"] amount have "txValue tx = 0" by simp
  with r amount show ?thesis by blast
qed

end
