(* ===== verification/Statistics.thy ===== *)
theory Statistics
  imports GoLib
begin

text \<open>
  \<^verbatim>\<open>utils/statistics.go\<close>: per contract and method the number of failed and of all transactions, and
  the number of transactions since the block timestamp last advanced. The counters are Go
  \<^verbatim>\<open>int\<close>s, 64-bit words that wrap.
\<close>

section \<open>The record and its operations\<close>

text \<open>
  A nil map is \<open>None\<close>; inside, a missing key and a key bound to nil read alike. The slice
  \<^verbatim>\<open>[]int{0, 0}\<close> of a method is held by the map only, so it is a list value here.
\<close>

type_synonym ContractStatsMap = "string \<rightharpoonup> 64 word list"
type_synonym StatsMap = "string \<rightharpoonup> ContractStatsMap"

record Stats =
  statsMap :: "StatsMap option"
  txCntAfterRevert :: "64 word"

definition stats_zero :: Stats where
  "stats_zero = \<lparr>statsMap = None, txCntAfterRevert = 0\<rparr>"

text \<open>The slice \<^verbatim>\<open>s.statsMap[contract][method]\<close>, nil (the empty list) when absent.\<close>

definition cell :: "Stats \<Rightarrow> string \<Rightarrow> string \<Rightarrow> 64 word list option" where
  "cell s contract m =
     (case statsMap s of None \<Rightarrow> None | Some M \<Rightarrow>
        (case M contract of None \<Rightarrow> None | Some cm \<Rightarrow> cm m))"

definition setIfNil :: "string \<Rightarrow> string \<Rightarrow> Stats \<Rightarrow> Stats" where
  "setIfNil contract m s =
     (let M = (case statsMap s of None \<Rightarrow> Map.empty | Some M \<Rightarrow> M);
          M = (if M contract = None then M(contract \<mapsto> Map.empty) else M);
          cm = the (M contract);
          cm = (if cm m = None then cm(m \<mapsto> [0, 0]) else cm)
      in s\<lparr>statsMap := Some (M(contract \<mapsto> cm))\<rparr>)"

text \<open>\<^verbatim>\<open>s.statsMap[contract][method][i] = s.statsMap[contract][method][i] + 1\<close>.\<close>

definition incCell :: "string \<Rightarrow> string \<Rightarrow> nat \<Rightarrow> Stats \<Rightarrow> Stats res" where
  "incCell contract m i s =
     (case statsMap s of None \<Rightarrow> Inl IndexOutOfRange | Some M \<Rightarrow>
        (case M contract of None \<Rightarrow> Inl IndexOutOfRange | Some cm \<Rightarrow>
           (case cm m of None \<Rightarrow> Inl IndexOutOfRange | Some p \<Rightarrow>
              bindR (index p (int i)) (\<lambda>x.
                Inr (s\<lparr>statsMap := Some (M(contract \<mapsto> cm(m \<mapsto> p[i := x + 1])))\<rparr>)))))"

definition AddFailedTx :: "string \<Rightarrow> string \<Rightarrow> Stats \<Rightarrow> Stats res" where
  "AddFailedTx contract m s =
     bindR (incCell contract m 0 (setIfNil contract m s)) (incCell contract m 1)"

definition AddSuccessfulTx :: "string \<Rightarrow> string \<Rightarrow> Stats \<Rightarrow> Stats res" where
  "AddSuccessfulTx contract m s = incCell contract m 1 (setIfNil contract m s)"

definition IncTxCnt :: "Stats \<Rightarrow> Stats" where
  "IncTxCnt s = s\<lparr>txCntAfterRevert := txCntAfterRevert s + 1\<rparr>"

definition AddTx :: "string \<Rightarrow> string \<Rightarrow> bool \<Rightarrow> Stats \<Rightarrow> Stats res" where
  "AddTx contract m failed s =
     (let s = IncTxCnt s in
      if failed then AddFailedTx contract m s else AddSuccessfulTx contract m s)"

definition ResetCounter :: "Stats \<Rightarrow> Stats" where
  "ResetCounter s = s\<lparr>txCntAfterRevert := 0\<rparr>"

definition GetCount :: "Stats \<Rightarrow> 64 word" where
  "GetCount s = txCntAfterRevert s"

definition GetTotalOf :: "string \<Rightarrow> string \<Rightarrow> Stats \<Rightarrow> (64 word \<times> Stats) res" where
  "GetTotalOf contract m s =
     (let s = setIfNil contract m s in
      case cell s contract m of
        None \<Rightarrow> Inl IndexOutOfRange
      | Some p \<Rightarrow> bindR (index p 1) (\<lambda>x. Inr (x, s)))"

text \<open>
  \<^verbatim>\<open>GetStats\<close>, one entry of the map it returns: \<open>rate a b\<close> is the text of
  \<^verbatim>\<open>%.2f\<close> for the float \<open>100 * a / b\<close>.
\<close>

definition GetStats ::
  "(64 word \<Rightarrow> 64 word \<Rightarrow> string) \<Rightarrow> Stats \<Rightarrow> string \<Rightarrow> string \<Rightarrow> string res option" where
  "GetStats rate s contract m =
     map_option (\<lambda>pair. bindR (index pair 0) (\<lambda>a. bindR (index pair 1) (\<lambda>b.
       Inr (''Failed: '' @ dec_int (sint a) @ ''/'' @ dec_int (sint b) @
            ''. (failure rate: '' @ rate a b @ ''%)'')))) (cell s contract m)"

section \<open>The counter of transactions\<close>

text \<open>
  What the choice of the block timestamp relies on: a counter that every transaction increments
  and that a reset returns to zero.
\<close>

locale tx_counter =
  fixes inc :: "'s \<Rightarrow> 's" and reset :: "'s \<Rightarrow> 's" and count :: "'s \<Rightarrow> 'n :: len word"
  assumes count_inc: "count (inc s) = count s + 1"
    and count_reset: "count (reset s) = 0"
begin

lemma count_incs: "count ((inc ^^ n) s) = count s + of_nat n"
  by (induction n) (simp_all add: count_inc)

lemma count_after_reset: "count ((inc ^^ n) (reset s)) = of_nat n"
  by (simp add: count_incs count_reset)

end

interpretation stats: tx_counter IncTxCnt ResetCounter GetCount
  by unfold_locales (simp_all add: IncTxCnt_def ResetCounter_def GetCount_def)

section \<open>What the operations do to the cells\<close>

text \<open>The contract: a cell counts (failed, total), absent cells are (0, 0).\<close>

definition counts :: "Stats \<Rightarrow> string \<Rightarrow> string \<Rightarrow> 64 word \<times> 64 word" where
  "counts s contract m = (case cell s contract m of None \<Rightarrow> (0, 0) | Some p \<Rightarrow> (p ! 0, p ! 1))"

definition stats_inv :: "Stats \<Rightarrow> bool" where
  "stats_inv s \<longleftrightarrow> (\<forall>c m p. cell s c m = Some p \<longrightarrow> length p = 2)"

lemma cell_zero [simp]: "cell stats_zero c m = None"
  by (simp add: cell_def stats_zero_def)

lemma cell_setIfNil:
  "cell (setIfNil c m s) d n =
     (if d = c \<and> n = m \<and> cell s c m = None then Some [0, 0] else cell s d n)"
  by (auto simp: cell_def setIfNil_def Let_def split: option.splits)

lemma txCnt_setIfNil [simp]: "txCntAfterRevert (setIfNil c m s) = txCntAfterRevert s"
  by (simp add: setIfNil_def Let_def)

lemma incCell_Some:
  assumes "cell s c m = Some p" and "i < length p"
  shows "\<exists>s'. incCell c m i s = Inr s' \<and> txCntAfterRevert s' = txCntAfterRevert s \<and>
    (\<forall>d n. cell s' d n = (if d = c \<and> n = m then Some (p[i := p ! i + 1]) else cell s d n))"
  using assms by (auto simp: incCell_def cell_def index_def split: option.splits)

lemma cell_IncTxCnt [simp]: "cell (IncTxCnt s) c m = cell s c m"
  by (simp add: cell_def IncTxCnt_def)

text \<open>One recorded transaction: the counter and the method's cell move, nothing else.\<close>

lemma AddTx_cell:
  assumes "cell (setIfNil c m s) c m = Some [a, b]"
  shows "\<exists>s'. AddTx c m failed s = Inr s' \<and> txCntAfterRevert s' = txCntAfterRevert s + 1 \<and>
    (\<forall>d n. cell s' d n =
       (if d = c \<and> n = m then Some [if failed then a + 1 else a, b + 1] else cell s d n))"
proof -
  let ?s = "setIfNil c m (IncTxCnt s)"
  have p: "cell ?s c m = Some [a, b]" using assms by (simp add: cell_setIfNil split: if_splits)
  have cnt: "txCntAfterRevert ?s = txCntAfterRevert s + 1" by (simp add: IncTxCnt_def)
  have other: "cell ?s d n = cell s d n" if "\<not> (d = c \<and> n = m)" for d n
    using that by (auto simp: cell_setIfNil)
  show ?thesis
  proof (cases failed)
    case False
    obtain t where t: "incCell c m 1 ?s = Inr t" "txCntAfterRevert t = txCntAfterRevert ?s"
        "\<forall>d n. cell t d n = (if d = c \<and> n = m then Some [a, b + 1] else cell ?s d n)"
      using incCell_Some [OF p, of 1] by auto
    show ?thesis
      by (intro exI [of _ t]) (use False t cnt other in \<open>simp add: AddTx_def AddSuccessfulTx_def\<close>)
  next
    case True
    obtain t where t: "incCell c m 0 ?s = Inr t" "txCntAfterRevert t = txCntAfterRevert ?s"
        "\<forall>d n. cell t d n = (if d = c \<and> n = m then Some [a + 1, b] else cell ?s d n)"
      using incCell_Some [OF p, of 0] by auto
    obtain u where u: "incCell c m 1 t = Inr u" "txCntAfterRevert u = txCntAfterRevert t"
        "\<forall>d n. cell u d n = (if d = c \<and> n = m then Some [a + 1, b + 1] else cell t d n)"
      using incCell_Some [of t c m "[a + 1, b]" 1] t(3) by auto
    show ?thesis
      by (intro exI [of _ u]) (use True t u cnt other in \<open>simp add: AddTx_def AddFailedTx_def\<close>)
  qed
qed

lemma AddTx_effect:
  assumes "stats_inv s"
  shows "\<exists>s'. AddTx c m failed s = Inr s' \<and> stats_inv s' \<and> GetCount s' = GetCount s + 1 \<and>
    (\<forall>d n. cell s' d n = None \<longleftrightarrow> cell s d n = None \<and> (d, n) \<noteq> (c, m)) \<and>
    (\<forall>d n. counts s' d n =
       (if (d, n) = (c, m) then (fst (counts s c m) + (if failed then 1 else 0), snd (counts s c m) + 1)
        else counts s d n))"
proof -
  obtain a b where ab: "cell (setIfNil c m s) c m = Some [a, b]" "counts s c m = (a, b)"
  proof (cases "cell s c m")
    case None
    then show ?thesis using that [of 0 0] by (simp add: cell_setIfNil counts_def)
  next
    case (Some p)
    then have "length p = 2" using assms by (simp add: stats_inv_def)
    then have "p = [p ! 0, p ! 1]" by (intro nth_equalityI) (auto simp: less_2_cases_iff)
    then show ?thesis using that [of "p ! 0" "p ! 1"] Some by (simp add: cell_setIfNil counts_def)
  qed
  from AddTx_cell [OF ab(1), of failed] obtain t where t: "AddTx c m failed s = Inr t"
    "txCntAfterRevert t = txCntAfterRevert s + 1"
    "\<forall>d n. cell t d n = (if d = c \<and> n = m then Some [if failed then a + 1 else a, b + 1] else cell s d n)"
    by blast
  have "stats_inv t" using assms t(3) by (auto simp: stats_inv_def)
  moreover have "counts t d n = (if (d, n) = (c, m) then (a + (if failed then 1 else 0), b + 1) else counts s d n)"
    for d n by (simp add: counts_def t(3))
  ultimately show ?thesis using t by (intro exI [of _ t]) (simp add: GetCount_def ab(2))
qed

lemma sint_count: "k < 2 ^ 63 \<Longrightarrow> sint (of_nat k :: 64 word) = int k"
  by (simp add: signed_of_nat signed_take_bit_int_eq_self_iff)

section \<open>Properties\<close>

text \<open>A recorded transaction: contract, method, whether it was reverted.\<close>

type_synonym txevent = "string \<times> string \<times> bool"

abbreviation AddTxs :: "txevent list \<Rightarrow> Stats \<Rightarrow> Stats res" where
  "AddTxs \<equiv> foldR (\<lambda>(c, m, failed). AddTx c m failed)"

lemma AddTxs_effect:
  assumes "stats_inv s"
  shows "\<exists>s'. AddTxs evs s = Inr s' \<and> stats_inv s' \<and> GetCount s' = GetCount s + of_nat (length evs) \<and>
    (\<forall>c m. counts s' c m =
       (fst (counts s c m) + of_nat (length (filter (\<lambda>e. e = (c, m, True)) evs)),
        snd (counts s c m) + of_nat (length (filter (\<lambda>(d, n, _). (d, n) = (c, m)) evs)))) \<and>
    (\<forall>c m. cell s' c m = None \<longleftrightarrow> cell s c m = None \<and> (\<forall>f. (c, m, f) \<notin> set evs))"
  using assms
proof (induction evs arbitrary: s)
  case Nil
  then show ?case by simp
next
  case (Cons e evs)
  obtain d n f where e: "e = (d, n, f)" by (cases e)
  from AddTx_effect [OF Cons.prems, of d n f] obtain t where t: "AddTx d n f s = Inr t" "stats_inv t"
    "GetCount t = GetCount s + 1"
    "\<forall>c m. cell t c m = None \<longleftrightarrow> cell s c m = None \<and> (c, m) \<noteq> (d, n)"
    "\<forall>c m. counts t c m = (if (c, m) = (d, n) then (fst (counts s d n) + (if f then 1 else 0), snd (counts s d n) + 1)
        else counts s c m)" by blast
  from Cons.IH [OF t(2)] obtain u where u: "AddTxs evs t = Inr u" "stats_inv u"
    "GetCount u = GetCount t + of_nat (length evs)"
    "\<forall>c m. counts u c m =
       (fst (counts t c m) + of_nat (length (filter (\<lambda>e. e = (c, m, True)) evs)),
        snd (counts t c m) + of_nat (length (filter (\<lambda>(d, n, _). (d, n) = (c, m)) evs)))"
    "\<forall>c m. cell u c m = None \<longleftrightarrow> cell t c m = None \<and> (\<forall>f. (c, m, f) \<notin> set evs)" by blast
  have run: "AddTxs (e # evs) s = Inr u" using e t(1) u(1) by simp
  show ?case
  proof (intro exI [of _ u] conjI run u(2))
    show "GetCount u = GetCount s + of_nat (length (e # evs))" using u(3) t(3) by simp
  qed (auto simp: u(4,5) t(4,5) e)
qed

lemma stats_inv_zero: "stats_inv stats_zero"
  by (simp add: stats_inv_def)

text \<open>
  C27: The statistics are exact: from an empty record, recording any sequence of transactions never
  panics, and afterwards every method's entry holds the number of its failed and of all its
  transactions, entries exist for exactly the methods recorded, and the counter is the number of
  transactions (all modulo \<open>2 ^ 64\<close>, the width of \<^verbatim>\<open>int\<close>).
\<close>

theorem stats_count_events:
  "\<exists>s. AddTxs evs stats_zero = Inr s \<and> GetCount s = of_nat (length evs) \<and>
    (\<forall>c m. (cell s c m = None) = (\<forall>f. (c, m, f) \<notin> set evs)) \<and>
    (\<forall>c m. counts s c m =
       (of_nat (count_list evs (c, m, True)), of_nat (count_list (map (\<lambda>(d, n, _). (d, n)) evs) (c, m))))"
proof -
  have failed: "length (filter (\<lambda>e. e = x) evs) = count_list evs x" for x
    by (induction evs) auto
  have all: "length (filter (\<lambda>(d, n, _). (d, n) = (c, m)) evs) = count_list (map (\<lambda>(d, n, _). (d, n)) evs) (c, m)"
    for c m by (induction evs) auto
  have zero: "counts stats_zero c m = (0, 0)" "GetCount stats_zero = 0" for c m
    by (simp_all add: counts_def) (simp add: GetCount_def stats_zero_def)
  from AddTxs_effect [OF stats_inv_zero, of evs] obtain s where "AddTxs evs stats_zero = Inr s"
    "GetCount s = of_nat (length evs)"
    "\<forall>c m. counts s c m = (of_nat (length (filter (\<lambda>e. e = (c, m, True)) evs)),
        of_nat (length (filter (\<lambda>(d, n, _). (d, n) = (c, m)) evs)))"
    "\<forall>c m. cell s c m = None \<longleftrightarrow> (\<forall>f. (c, m, f) \<notin> set evs)"
    by (auto simp: zero)
  then show ?thesis unfolding failed all by blast
qed

text \<open>
  In the statistics of fewer than \<open>2 ^ 63\<close> recorded transactions no method has more failed
  than total transactions, and the total of a listed method is positive, so the failure rate
  printed for it is a number between 0 and 100.
\<close>

lemma stats_failed_le_total:
  assumes "AddTxs evs stats_zero = Inr s" and "length evs < 2 ^ 63" and "cell s c m = Some p"
  shows "0 \<le> sint (p ! 0) \<and> sint (p ! 0) \<le> sint (p ! 1) \<and> 0 < sint (p ! 1)"
proof -
  let ?F = "length (filter (\<lambda>e. e = (c, m, True)) evs)"
  let ?T = "length (filter (\<lambda>(d, n, _). (d, n) = (c, m)) evs)"
  have zero: "counts stats_zero c m = (0, 0)" by (simp add: counts_def)
  obtain t where t: "AddTxs evs stats_zero = Inr t" "\<forall>c m. counts t c m =
       (fst (counts stats_zero c m) + of_nat (length (filter (\<lambda>e. e = (c, m, True)) evs)),
        snd (counts stats_zero c m) + of_nat (length (filter (\<lambda>(d, n, _). (d, n) = (c, m)) evs)))"
    "\<forall>c m. cell t c m = None \<longleftrightarrow> cell stats_zero c m = None \<and> (\<forall>f. (c, m, f) \<notin> set evs)"
    using AddTxs_effect [OF stats_inv_zero, of evs] by (elim exE conjE)
  then have "s = t" using assms(1) by simp
  then have ex: "\<exists>f. (c, m, f) \<in> set evs" using t(3) assms(3) cell_zero by (metis option.distinct(1))
  have "counts s c m = (of_nat ?F, of_nat ?T)" using t(2) \<open>s = t\<close> by (simp add: zero del: split_paired_All)
  then have p: "p ! 0 = of_nat ?F" "p ! 1 = of_nat ?T" using assms(3) by (simp_all add: counts_def)
  have FT: "?F \<le> ?T" by (induction evs) auto
  have T: "?T < 2 ^ 63" using assms(2) by (rule le_less_trans [OF length_filter_le])
  have pos: "0 < ?T" using ex by (auto simp: filter_empty_conv)
  have F: "?F < 2 ^ 63" using FT T by (rule le_less_trans)
  show ?thesis unfolding p sint_count [OF F] sint_count [OF T] using FT pos by simp
qed

end
