(* ===== verification/Backend.thy ===== *)
theory Backend
  imports TxInput Statistics
begin

text \<open>
  The \<^verbatim>\<open>Backend\<close> of \<^verbatim>\<open>utils/backend.go\<close> (the state of the fuzzed chain and of the last
  transaction) and the operations of \<^verbatim>\<open>utils/contracts.go\<close> that work on it: choosing a contract
  or a method at random, ignoring them, applying the configuration, removing libraries.
\<close>

section \<open>State\<close>

record Contract =
  Addresses :: "address list"
  Methods :: "string list"

record LastTxInput =
  liContract :: string
  liMethod :: string
  liConst :: bool
  liEther :: bigptr
  liInput :: "gval list"
  liOutArgs :: "gtype list"
  liSender :: address

text \<open>
  A step of the EVM's trace (go-ethereum's \<^verbatim>\<open>vm.StructLog\<close>): program counter, opcode, call depth,
  the stack before the step (its top at the end, as the Go slice has it) and the memory.
\<close>

record structLog =
  Pc :: "64 word"
  Op :: "8 word"
  Depth :: int
  Stack :: "int list"
  Memory :: bytes

text \<open>The tracer after a transaction: the output and the steps. The receipt is its logs only.\<close>

record structLogger =
  slOutput :: bytes
  slLogs :: "structLog list"

record LastTxResult =
  Output :: bytes
  RevertAtDepth :: int
  AssertionAtDepth :: int
  Receipt :: "bytes list option"
  Overflow :: string
  StructLogger :: "structLogger option"

text \<open>
  The backend, over the package state. \<open>StateDB\<close> is the world state of go-ethereum, of a type
  that the model leaves open. \<open>OpcodeIndices\<close> holds, per address, the set of program counters that
  the source keeps as keys of a map to \<^verbatim>\<open>true\<close>.
\<close>

record 'db backst = utilst +
  StateDB :: 'db
  DeployedContracts :: "string \<rightharpoonup> Contract"
  ContractsList :: "string list"
  backMetadata :: string
  LastTxIn :: "LastTxInput option"
  LastTxRes :: LastTxResult
  OpcodeIndices :: "address \<rightharpoonup> 64 word set"
  backStats :: Stats
  TxCount :: int

text \<open>The backend \<^verbatim>\<open>NewBackend\<close> builds, over the package state \<open>u\<close>.\<close>

definition lastRes_zero :: LastTxResult where
  "lastRes_zero = \<lparr>Output = [], RevertAtDepth = 0, AssertionAtDepth = 0, Receipt = None, Overflow = [],
     StructLogger = None\<rparr>"

definition new_backend :: "'db \<Rightarrow> string \<Rightarrow> utilst \<Rightarrow> 'db backst" where
  "new_backend db metadata u = utilst.extend u
     (backst.fields db Map.empty [] metadata None lastRes_zero Map.empty stats_zero 0)"

lemma new_backend_simps [simp]:
  "StateDB (new_backend db m u) = db" "DeployedContracts (new_backend db m u) = Map.empty"
  "ContractsList (new_backend db m u) = []" "backMetadata (new_backend db m u) = m"
  "LastTxIn (new_backend db m u) = None" "LastTxRes (new_backend db m u) = lastRes_zero"
  "OpcodeIndices (new_backend db m u) = Map.empty" "backStats (new_backend db m u) = stats_zero"
  "TxCount (new_backend db m u) = 0" "utilst.truncate (new_backend db m u) = u"
  by (simp_all add: new_backend_def utilst.defs backst.defs)

section \<open>Random contracts and methods\<close>

text \<open>\<^verbatim>\<open>xs[rand.Int()%len(xs)]\<close>: the remainder panics for an empty slice, before the index.\<close>

definition rand_element :: "'a list \<Rightarrow> 'z genst_scheme \<Rightarrow> ('a \<times> 'z genst_scheme) res" where
  "rand_element xs st =
     (let (x, st) = draw_Int st in
      if length xs = 0 then Inl DivideByZero
      else bindR (index xs (int (x mod length xs))) (\<lambda>a. Inr (a, st)))"

definition GetRandomContract :: "('db, 'z) backst_scheme \<Rightarrow> (string \<times> ('db, 'z) backst_scheme) res" where
  "GetRandomContract backend = rand_element (ContractsList backend) backend"

text \<open>\<^verbatim>\<open>backend.DeployedContracts[contract].Methods\<close> panics for a contract that is not deployed (nil).\<close>

definition GetRandomMethod :: "string \<Rightarrow> ('db, 'z) backst_scheme \<Rightarrow> (string \<times> ('db, 'z) backst_scheme) res" where
  "GetRandomMethod contract backend =
     (case DeployedContracts backend contract of
        None \<Rightarrow> Inl NilDeref
      | Some c \<Rightarrow> rand_element (Methods c) backend)"

section \<open>Ignored contracts and methods\<close>

definition IgnoreContract :: "string \<Rightarrow> ('db, 'z) backst_scheme \<Rightarrow> ('db, 'z) backst_scheme" where
  "IgnoreContract contract backend =
     (if DeployedContracts backend contract \<noteq> None
      then backend\<lparr>DeployedContracts := (DeployedContracts backend)(contract := None),
             ContractsList := deleteFromSlice contract (ContractsList backend)\<rparr>
      else backend)"

definition IgnoreContractMethod :: "string \<Rightarrow> string \<Rightarrow> ('db, 'z) backst_scheme \<Rightarrow> ('db, 'z) backst_scheme" where
  "IgnoreContractMethod contract m backend =
     (case DeployedContracts backend contract of
        None \<Rightarrow> backend
      | Some c \<Rightarrow> backend\<lparr>DeployedContracts :=
          (DeployedContracts backend)(contract \<mapsto> c\<lparr>Methods := deleteFromSlice m (Methods c)\<rparr>)\<rparr>)"

definition applyConfig :: "string \<Rightarrow> ContractConfig \<Rightarrow> ('db, 'z) backst_scheme \<Rightarrow> ('db, 'z) backst_scheme" where
  "applyConfig contract config backend =
     (let backend = fold ArgPool_AddTimestamp (ConfigTimestamps config) backend in
      if IgnoreAll config then IgnoreContract contract backend
      else fold (IgnoreContractMethod contract) (IgnoredFunctions config) backend)"

definition ProcessConfig ::
  "'e env_scheme \<Rightarrow> string \<Rightarrow> ('db, 'z) backst_scheme \<Rightarrow> ('db, 'z) backst_scheme res" where
  "ProcessConfig env metadata backend =
     bindR (GetConfig env metadata backend) (\<lambda>(fuzzingConf, backend).
       Inr (fold (\<lambda>contract backend.
              case fuzzingConf contract of None \<Rightarrow> backend | Some config \<Rightarrow> applyConfig contract config backend)
            (rangeOrder env (dom fuzzingConf)) backend))"

text \<open>\<^verbatim>\<open>RemoveLibraries\<close> does not touch \<^verbatim>\<open>ContractsList\<close>; a range over a nil map is empty.\<close>

definition RemoveLibraries :: "'e env_scheme \<Rightarrow> ('db, 'z) backst_scheme \<Rightarrow> ('db, 'z) backst_scheme" where
  "RemoveLibraries env backend =
     fold (\<lambda>contract backend.
         if DeployedContracts backend contract \<noteq> None
         then backend\<lparr>DeployedContracts := (DeployedContracts backend)(contract := None)\<rparr>
         else backend)
       (rangeOrder env (dom (nil_map (Libraries backend)))) backend"

section \<open>Lemmas\<close>

text \<open>Adding timestamps changes the argument pool only.\<close>

lemma AddTimestamps_frame:
  fixes b :: "('db, 'z) backst_scheme"
  shows "DeployedContracts (fold ArgPool_AddTimestamp ts b) = DeployedContracts b"
    and "ContractsList (fold ArgPool_AddTimestamp ts b) = ContractsList b"
  by (induction ts arbitrary: b) (simp_all add: ArgPool_AddTimestamp_def)

lemma IgnoreMethod_deployed:
  "DeployedContracts (IgnoreContractMethod c m b) =
     (DeployedContracts b)(c := map_option (\<lambda>k. k\<lparr>Methods := deleteFromSlice m (Methods k)\<rparr>) (DeployedContracts b c))"
  by (cases "DeployedContracts b c") (auto simp: IgnoreContractMethod_def)

lemma IgnoreMethods_deployed:
  "DeployedContracts (fold (IgnoreContractMethod c) ms b) =
     (DeployedContracts b)(c := map_option (\<lambda>k. k\<lparr>Methods := fold deleteFromSlice ms (Methods k)\<rparr>) (DeployedContracts b c))"
  by (induction ms arbitrary: b)
     (simp_all add: IgnoreMethod_deployed option.map_comp comp_def option.map_ident_strong)

lemma IgnoreMethods_list: "ContractsList (fold (IgnoreContractMethod c) ms b) = ContractsList b"
  by (induction ms arbitrary: b) (simp_all add: IgnoreContractMethod_def split: option.splits)

lemma fold_delete_mset: "mset (fold deleteFromSlice ms a) = mset a - mset ms"
  by (induction ms arbitrary: a) (simp_all add: deleteFromSlice_mset)

text \<open>What the configuration of a contract makes of it.\<close>

definition configured :: "ContractConfig \<Rightarrow> Contract option \<Rightarrow> Contract option" where
  "configured config k =
     (if IgnoreAll config then None
      else map_option (\<lambda>k. k\<lparr>Methods := fold deleteFromSlice (IgnoredFunctions config) (Methods k)\<rparr>) k)"

lemma applyConfig_effect:
  "DeployedContracts (applyConfig c config b) = (DeployedContracts b)(c := configured config (DeployedContracts b c))"
  "mset (ContractsList (applyConfig c config b)) = mset (ContractsList b) -
     (if IgnoreAll config \<and> DeployedContracts b c \<noteq> None then {#c#} else {#})"
  by (auto simp: applyConfig_def Let_def configured_def IgnoreContract_def AddTimestamps_frame
      IgnoreMethods_deployed IgnoreMethods_list deleteFromSlice_mset fun_upd_idem)

abbreviation configStep ::
  "(string \<rightharpoonup> ContractConfig) \<Rightarrow> string \<Rightarrow> ('db, 'z) backst_scheme \<Rightarrow> ('db, 'z) backst_scheme" where
  "configStep conf c b \<equiv> case conf c of None \<Rightarrow> b | Some config \<Rightarrow> applyConfig c config b"

text \<open>The contracts an iteration over \<open>cs\<close> takes off the list.\<close>

definition ignored :: "(string \<rightharpoonup> ContractConfig) \<Rightarrow> ('db, 'z) backst_scheme \<Rightarrow> string \<Rightarrow> bool" where
  "ignored conf b c \<longleftrightarrow> (\<exists>config. conf c = Some config \<and> IgnoreAll config) \<and> DeployedContracts b c \<noteq> None"

lemma configSteps_effect:
  assumes "distinct cs"
  shows "DeployedContracts (fold (configStep conf) cs b) c =
      (if c \<in> set cs then (case conf c of None \<Rightarrow> DeployedContracts b c
         | Some config \<Rightarrow> configured config (DeployedContracts b c)) else DeployedContracts b c)"
    and "mset (ContractsList (fold (configStep conf) cs b)) =
      mset (ContractsList b) - mset (filter (ignored conf b) cs)"
proof -
  have "DeployedContracts (fold (configStep conf) cs b) c =
      (if c \<in> set cs then (case conf c of None \<Rightarrow> DeployedContracts b c
         | Some config \<Rightarrow> configured config (DeployedContracts b c)) else DeployedContracts b c) \<and>
      mset (ContractsList (fold (configStep conf) cs b)) =
      mset (ContractsList b) - mset (filter (ignored conf b) cs)"
    using assms
  proof (induction cs arbitrary: b)
    case Nil
    then show ?case by simp
  next
    case (Cons d cs)
    let ?u = "configStep conf d b"
    have d: "d \<notin> set cs" "distinct cs" using Cons.prems by simp_all
    have dep: "DeployedContracts ?u e = (if e = d then (case conf d of None \<Rightarrow> DeployedContracts b d
        | Some config \<Rightarrow> configured config (DeployedContracts b d)) else DeployedContracts b e)" for e
      by (simp add: applyConfig_effect split: option.splits)
    have "filter (ignored conf ?u) cs = filter (ignored conf b) cs"
      using d(1) by (intro filter_cong) (auto simp: ignored_def dep)
    moreover have "mset (ContractsList ?u) = mset (ContractsList b) - (if ignored conf b d then {#d#} else {#})"
      by (auto simp: applyConfig_effect ignored_def split: option.splits)
    ultimately have "mset (ContractsList (fold (configStep conf) (d # cs) b)) =
        mset (ContractsList b) - mset (filter (ignored conf b) (d # cs))"
      using Cons.IH [OF d(2), of ?u] by simp
    moreover have "DeployedContracts (fold (configStep conf) (d # cs) b) c =
      (if c \<in> set (d # cs) then (case conf c of None \<Rightarrow> DeployedContracts b c
         | Some config \<Rightarrow> configured config (DeployedContracts b c)) else DeployedContracts b c)"
      using Cons.IH [OF d(2), of ?u] d(1) dep [of c] by (cases "c = d") (auto split: option.splits)
    ultimately show ?case by blast
  qed
  then show "DeployedContracts (fold (configStep conf) cs b) c =
      (if c \<in> set cs then (case conf c of None \<Rightarrow> DeployedContracts b c
         | Some config \<Rightarrow> configured config (DeployedContracts b c)) else DeployedContracts b c)"
    and "mset (ContractsList (fold (configStep conf) cs b)) =
      mset (ContractsList b) - mset (filter (ignored conf b) cs)" by blast+
qed

lemma GetConfig_frame:
  fixes b :: "('db, 'z) backst_scheme"
  assumes "GetConfig env metadata b = Inr (conf, u)"
  shows "DeployedContracts u = DeployedContracts b \<and> ContractsList u = ContractsList b"
  using assms by (auto simp: GetConfig_def elim!: bindR_InrE split: option.splits dest!: getMeta_frame)

section \<open>Properties\<close>

text \<open>
  C35: Applying the configuration: in whatever order the contracts are visited, a contract whose
  configuration ignores all is no longer deployed, every other configured contract keeps its
  addresses and loses one occurrence of each method listed, contracts without configuration stay,
  and the list for random choices loses exactly the ignored contracts that were deployed.
\<close>

theorem process_config_effect:
  assumes "range_ok env" and "GetConfig env metadata b = Inr (conf, u)" and "finite (dom conf)"
  shows "\<exists>b'. ProcessConfig env metadata b = Inr b' \<and>
    mset (ContractsList b') = mset (ContractsList b) - mset_set {c \<in> dom conf. ignored conf b c} \<and>
    (\<forall>c. case conf c of
       None \<Rightarrow> DeployedContracts b' c = DeployedContracts b c
     | Some config \<Rightarrow>
         if IgnoreAll config \<or> DeployedContracts b c = None then DeployedContracts b' c = None
         else \<exists>k k'. DeployedContracts b c = Some k \<and> DeployedContracts b' c = Some k' \<and>
           Addresses k' = Addresses k \<and> mset (Methods k') = mset (Methods k) - mset (IgnoredFunctions config))"
proof -
  let ?cs = "rangeOrder env (dom conf)"
  have cs: "distinct ?cs" "set ?cs = dom conf" using range_okD [OF assms(1,3)] by simp_all
  note frame = GetConfig_frame [OF assms(2)]
  note eff = configSteps_effect [OF cs(1), of conf u]
  have "mset (filter (ignored conf b) ?cs) = mset_set {c \<in> dom conf. ignored conf b c}"
    using cs by (metis distinct_filter mset_set_set set_filter)
  moreover have "ignored conf u = ignored conf b" using frame by (simp add: ignored_def fun_eq_iff)
  moreover have "ProcessConfig env metadata b = Inr (fold (configStep conf) ?cs u)"
    using assms(2) by (simp add: ProcessConfig_def)
  moreover have "case conf c of
       None \<Rightarrow> DeployedContracts (fold (configStep conf) ?cs u) c = DeployedContracts b c
     | Some config \<Rightarrow>
         if IgnoreAll config \<or> DeployedContracts b c = None then DeployedContracts (fold (configStep conf) ?cs u) c = None
         else \<exists>k k'. DeployedContracts b c = Some k \<and> DeployedContracts (fold (configStep conf) ?cs u) c = Some k' \<and>
           Addresses k' = Addresses k \<and> mset (Methods k') = mset (Methods k) - mset (IgnoredFunctions config)" for c
    using eff(1) [of c] frame cs(2)
    by (cases "conf c"; cases "DeployedContracts b c") (auto simp: configured_def fold_delete_mset)
  ultimately show ?thesis using eff(2) frame by auto
qed

theorem process_config_effect_witness:
  "\<exists>b'. ProcessConfig (example_env\<lparr>readConfig := \<lambda>_. Some [''Token'' \<mapsto> \<lparr>IgnoreAll = False, IgnoredFunctions = [''burn''],
       ConfigTimestamps = []\<rparr>]\<rparr>) ''m''
     ((new_backend () ''m'' st0)\<lparr>DeployedContracts := [''Token'' \<mapsto> \<lparr>Addresses = [9], Methods = [''burn'', ''mint'']\<rparr>],
        ContractsList := [''Token'']\<rparr>) = Inr b' \<and> (\<exists>k. DeployedContracts b' ''Token'' = Some k \<and> mset (Methods k) = {#''mint''#})"
proof -
  let ?conf = "[''Token'' \<mapsto> \<lparr>IgnoreAll = False, IgnoredFunctions = [''burn''], ConfigTimestamps = []\<rparr>]"
  let ?env = "example_env\<lparr>readConfig := \<lambda>_. Some ?conf\<rparr>"
  let ?b = "(new_backend () ''m'' st0)\<lparr>DeployedContracts := [''Token'' \<mapsto> \<lparr>Addresses = [9], Methods = [''burn'', ''mint'']\<rparr>],
        ContractsList := [''Token'']\<rparr>"
  have ok: "range_ok ?env" using range_ok_example by (simp add: range_ok_def)
  have "\<exists>u. GetConfig ?env ''m'' ?b = Inr (?conf, u)"
    by (simp add: GetConfig_def getMeta_def new_backend_def utilst.defs)
  then obtain u where conf: "GetConfig ?env ''m'' ?b = Inr (?conf, u)" by blast
  have fin: "finite (dom ?conf)" by simp
  have dep: "DeployedContracts ?b ''Token'' = Some \<lparr>Addresses = [9], Methods = [''burn'', ''mint'']\<rparr>" by simp
  from process_config_effect [OF ok conf fin] show ?thesis
  proof (elim exE conjE)
    fix b'
    assume run: "ProcessConfig ?env ''m'' ?b = Inr b'" and all: "\<forall>c. case ?conf c of
       None \<Rightarrow> DeployedContracts b' c = DeployedContracts ?b c
     | Some config \<Rightarrow>
         if IgnoreAll config \<or> DeployedContracts ?b c = None then DeployedContracts b' c = None
         else \<exists>k k'. DeployedContracts ?b c = Some k \<and> DeployedContracts b' c = Some k' \<and>
           Addresses k' = Addresses k \<and> mset (Methods k') = mset (Methods k) - mset (IgnoredFunctions config)"
    have "\<exists>k. DeployedContracts b' ''Token'' = Some k \<and> mset (Methods k) = {#''mint''#}"
      using spec [OF all, of "''Token''"] by (auto simp: dep)
    with run show ?thesis by (intro exI [of _ b'] conjI)
  qed
qed

end
