(* ===== verification/Processor.thy ===== *)
theory Processor
  imports Backend
begin

text \<open>
  \<^verbatim>\<open>utils/processor.go\<close>: the scan of a transaction's EVM trace. It collects timestamps from the
  stacks, reports the first arithmetic overflow, the least call depth of a failed assertion and of
  a revert, the coverage per contract (with a stack of the addresses being executed), and the
  contracts a deployment transaction creates.
\<close>

section \<open>Data\<close>

record Options =
  UpdateCoverage :: bool
  CheckDeployedContract :: bool
  UpdateArgPool :: bool
  ExtractTimestamps :: bool

text \<open>
  Further parameters, all of go-ethereum: \<^verbatim>\<open>Arguments.UnpackValues\<close>, the name of an opcode,
  \<^verbatim>\<open>common.BigToAddress\<close> and \<^verbatim>\<open>crypto.CreateAddress\<close>.
\<close>

record procenv = txenv +
  UnpackValues :: "gtype list \<Rightarrow> bytes \<Rightarrow> bigs \<Rightarrow> (gval list \<times> string option) \<times> bigs"
  opString :: "8 word \<Rightarrow> string"
  BigToAddress :: "int \<Rightarrow> address"
  CreateAddress :: "address \<Rightarrow> 64 word \<Rightarrow> address"

text \<open>Opcodes of the EVM (\<^verbatim>\<open>assertOp\<close> is the undefined instruction that compilers emit).\<close>

definition op_ADD :: "8 word" where "op_ADD = 0x01"
definition op_MUL :: "8 word" where "op_MUL = 0x02"
definition op_SUB :: "8 word" where "op_SUB = 0x03"
definition op_EXP :: "8 word" where "op_EXP = 0x0a"
definition op_RETURN :: "8 word" where "op_RETURN = 0xf3"
definition op_REVERT :: "8 word" where "op_REVERT = 0xfd"
definition assertOp :: "8 word" where "assertOp = 0xfe"

lemmas op_defs = op_ADD_def op_MUL_def op_SUB_def op_EXP_def op_RETURN_def op_REVERT_def assertOp_def

text \<open>\<^verbatim>\<open>big.Int.Exp(a, b, nil)\<close> is 1 for \<open>b \<le> 0\<close>.\<close>

definition big_Exp :: "int \<Rightarrow> int \<Rightarrow> int" where
  "big_Exp a b = (if b \<le> 0 then 1 else a ^ nat b)"

definition operators :: "8 word \<rightharpoonup> (int \<Rightarrow> int \<Rightarrow> int)" where
  "operators =
     [op_SUB \<mapsto> (\<lambda>a b. a + (- b)), op_ADD \<mapsto> (\<lambda>a b. a + b), op_MUL \<mapsto> (\<lambda>a b. a * b), op_EXP \<mapsto> big_Exp]"

definition earliestTime :: "64 word" where "earliestTime = 1420070400"
definition latestTime :: "64 word" where "latestTime = 1735689600"

definition getDeployedContractAddress :: "'e procenv_scheme \<Rightarrow> ethTx \<Rightarrow> address res" where
  "getDeployedContractAddress env tx =
     (case Sender env tx of
        None \<Rightarrow> Inl (Panic ''invalid sender'')
      | Some from \<Rightarrow> Inr (CreateAddress env from (txNonce tx)))"

section \<open>The call stack\<close>

text \<open>
  A slice of address pointers, \<open>None\<close> for nil, its top at the end. \<^verbatim>\<open>Pop\<close> of an empty stack is a
  slice out of bounds, \<^verbatim>\<open>Top\<close> an index out of range.
\<close>

type_synonym callStack = "address option list"

definition callStack_Push :: "address option \<Rightarrow> callStack \<Rightarrow> callStack" where
  "callStack_Push a c = c @ [a]"

definition callStack_Top :: "callStack \<Rightarrow> address option res" where
  "callStack_Top c = index c (int (length c) - 1)"

definition callStack_Pop :: "callStack \<Rightarrow> callStack res" where
  "callStack_Pop c = slice 0 (int (length c) - 1) c"

section \<open>The parts of the loop\<close>

definition extractTimestamps :: "int list \<Rightarrow> 'z ArgPool_scheme \<Rightarrow> 'z ArgPool_scheme" where
  "extractTimestamps = fold (\<lambda>val st.
     if \<not> (0 \<le> val \<and> val < 2 ^ 64) then st
     else let v = (word_of_int val :: 64 word) in
       if v > earliestTime \<and> v < latestTime then ArgPool_AddTimestamp v st else st)"

definition overflowReport :: "'e procenv_scheme \<Rightarrow> 8 word \<Rightarrow> int \<Rightarrow> int \<Rightarrow> int \<Rightarrow> int \<Rightarrow> string" where
  "overflowReport env opc operandA operandB result expected =
     ''('' @ dec_int operandA @ '' '' @ opString env opc @ '' '' @ dec_int operandB @ ''='' @ dec_int result @
     ''), expected:'' @ dec_int expected"

definition checkOverflow ::
  "'e procenv_scheme \<Rightarrow> structLog list \<Rightarrow> nat \<Rightarrow> LastTxResult \<Rightarrow> LastTxResult res" where
  "checkOverflow env logs idx r =
     (if Overflow r \<noteq> [] then Inr r
      else case operators (Op (logs ! idx)) of
        None \<Rightarrow> Inr r
      | Some fn \<Rightarrow>
          let st = Stack (logs ! idx); stLen = int (length st) in
          bindR (index st (stLen - 1)) (\<lambda>operandA.
          bindR (index st (stLen - 2)) (\<lambda>operandB.
          if idx + 1 < length logs then
            let nextSt = Stack (logs ! (idx + 1)) in
            bindR (index nextSt (int (length nextSt) - 1)) (\<lambda>result.
            let expected = fn operandA operandB in
            if result \<noteq> expected
            then Inr (r\<lparr>Overflow := overflowReport env (Op (logs ! idx)) operandA operandB result expected\<rparr>)
            else Inr r)
          else Inr r)))"

definition checkAssertion :: "structLog \<Rightarrow> LastTxResult \<Rightarrow> LastTxResult" where
  "checkAssertion log r =
     (if Op log = assertOp \<and> (AssertionAtDepth r = -1 \<or> AssertionAtDepth r > Depth log)
      then r\<lparr>AssertionAtDepth := Depth log\<rparr> else r)"

definition checkRevert :: "structLog \<Rightarrow> LastTxResult \<Rightarrow> LastTxResult" where
  "checkRevert log r =
     (if Op log = op_REVERT \<and> (RevertAtDepth r = -1 \<or> RevertAtDepth r > Depth log)
      then r\<lparr>RevertAtDepth := Depth log\<rparr> else r)"

text \<open>Entering a call pushes the second word from the top of the caller's stack, as an address.\<close>

definition moveCallStack :: "'e procenv_scheme \<Rightarrow> structLog list \<Rightarrow> nat \<Rightarrow> callStack \<Rightarrow> callStack res" where
  "moveCallStack env logs idx callSt =
     (if idx > 0 then
        bindR (if Depth (logs ! idx) > Depth (logs ! (idx - 1)) then
                 let prevStack = Stack (logs ! (idx - 1)) in
                 bindR (index prevStack (int (length prevStack) - 2)) (\<lambda>w.
                   Inr (callStack_Push (Some (BigToAddress env w)) callSt))
               else Inr callSt) (\<lambda>callSt.
        if Depth (logs ! idx) < Depth (logs ! (idx - 1)) then callStack_Pop callSt else Inr callSt)
      else Inr callSt)"

definition cover :: "address \<Rightarrow> 64 word \<Rightarrow> (address \<rightharpoonup> 64 word set) \<Rightarrow> (address \<rightharpoonup> 64 word set)" where
  "cover a pc m = m(a \<mapsto> insert pc (case m a of None \<Rightarrow> {} | Some S \<Rightarrow> S))"

definition coverLog ::
  "'e procenv_scheme \<Rightarrow> structLog list \<Rightarrow> nat \<Rightarrow> callStack \<times> (address \<rightharpoonup> 64 word set) \<Rightarrow>
   (callStack \<times> (address \<rightharpoonup> 64 word set)) res" where
  "coverLog env logs idx = (\<lambda>(callSt, m).
     bindR (moveCallStack env logs idx callSt) (\<lambda>callSt.
     bindR (callStack_Top callSt) (\<lambda>top.
       case top of
         None \<Rightarrow> Inl NilDeref
       | Some a \<Rightarrow> Inr (callSt, cover a (Pc (logs ! idx)) m))))"

definition recordDeployment ::
  "'e procenv_scheme \<Rightarrow> ethTx \<Rightarrow> structLog \<Rightarrow> ('db, 'z) backst_scheme \<Rightarrow> ('db, 'z) backst_scheme res" where
  "recordDeployment env tx log b =
     bindR (GetSwarmHash (hex_encode (Memory log))) (\<lambda>(hash, found).
       if \<not> found then Inr b
       else
         bindR (GetContractNameByHash env hash (backMetadata b) b) (\<lambda>(name, b).
         bindR (getDeployedContractAddress env tx) (\<lambda>addr.
         let c = (case DeployedContracts b name of None \<Rightarrow> \<lparr>Addresses = [], Methods = []\<rparr> | Some c \<Rightarrow> c) in
         Inr (b\<lparr>DeployedContracts := (DeployedContracts b)(name \<mapsto> c\<lparr>Addresses := Addresses c @ [addr]\<rparr>)\<rparr>))))"

section \<open>processLogs\<close>

text \<open>
  One round of the loop. \<^verbatim>\<open>options\<close> may be nil: the function allows for it before the loop, the
  loop dereferences it.
\<close>

definition processLog ::
  "'e procenv_scheme \<Rightarrow> ethTx \<Rightarrow> Options option \<Rightarrow> structLog list \<Rightarrow> nat \<Rightarrow>
   callStack \<times> ('db, 'z) backst_scheme \<Rightarrow> (callStack \<times> ('db, 'z) backst_scheme) res" where
  "processLog env tx options logs idx = (\<lambda>(callSt, b).
     case options of
       None \<Rightarrow> Inl NilDeref
     | Some opt \<Rightarrow>
         let log = logs ! idx;
             b = (if ExtractTimestamps opt then extractTimestamps (Stack log) b else b) in
         bindR (checkOverflow env logs idx (LastTxRes b)) (\<lambda>r.
         let b = b\<lparr>LastTxRes := checkRevert log (checkAssertion log r)\<rparr> in
         bindR (if UpdateCoverage opt \<and> txTo tx \<noteq> None
                then bindR (coverLog env logs idx (callSt, OpcodeIndices b)) (\<lambda>(callSt, m).
                  Inr (callSt, b\<lparr>OpcodeIndices := m\<rparr>))
                else Inr (callSt, b)) (\<lambda>(callSt, b).
         if \<not> CheckDeployedContract opt \<or> Op log \<noteq> op_RETURN then Inr (callSt, b)
         else bindR (recordDeployment env tx log b) (\<lambda>b. Inr (callSt, b)))))"

text \<open>The pool is updated with the output of the transaction, if there is any.\<close>

definition updateFromOutput ::
  "'e procenv_scheme \<Rightarrow> Options option \<Rightarrow> bytes \<Rightarrow> ('db, 'z) backst_scheme \<Rightarrow> ('db, 'z) backst_scheme res" where
  "updateFromOutput env options output b =
     (case options of
        None \<Rightarrow> Inr b
      | Some opt \<Rightarrow>
          if UpdateArgPool opt \<and> length output > 0 then
            (case LastTxIn b of
               None \<Rightarrow> Inl NilDeref
             | Some input \<Rightarrow> UpdatePool (fmtAddress env) (UnpackValues env (liOutArgs input)) output b)
          else Inr b)"

definition processLogs ::
  "'e procenv_scheme \<Rightarrow> bytes list \<Rightarrow> ethTx \<Rightarrow> Options option \<Rightarrow> ('db, 'z) backst_scheme \<Rightarrow>
   ('db, 'z) backst_scheme res" where
  "processLogs env receipt tx options b =
     (case StructLogger (LastTxRes b) of
        None \<Rightarrow> Inl NilDeref
      | Some tracer \<Rightarrow>
          let b = b\<lparr>LastTxRes := (LastTxRes b)\<lparr>Output := slOutput tracer, Receipt := Some receipt\<rparr>\<rparr> in
          bindR (updateFromOutput env options (slOutput tracer) b) (\<lambda>b.
          let b = b\<lparr>LastTxRes := (LastTxRes b)\<lparr>AssertionAtDepth := -1, RevertAtDepth := -1, Overflow := []\<rparr>\<rparr>;
              logs = slLogs tracer in
          bindR (foldR (processLog env tx options logs) [0..<length logs] (callStack_Push (txTo tx) [], b)) (\<lambda>(callSt, b).
          Inr b)))"

end
