(* ===== verification/ProcessorParts.thy ===== *)
theory ProcessorParts
  imports Processor
begin

text \<open>
  What each part of a round of \<^verbatim>\<open>processLogs\<close> changes and leaves alone, so that each property of
  the loop is an induction over its own part only.
\<close>

section \<open>Frames\<close>

lemma extractTimestamps_frame:
  fixes b :: "'z ArgPool_scheme"
  shows "extractTimestamps vs b = b\<lparr>TimestampPool := TimestampPool (extractTimestamps vs b)\<rparr>"
proof (induction vs arbitrary: b)
  case Nil
  then show ?case by (simp add: extractTimestamps_def)
next
  case (Cons v vs)
  obtain u p where u: "extractTimestamps (v # vs) b = extractTimestamps vs u" "u = b\<lparr>TimestampPool := p\<rparr>"
  proof -
    have "\<exists>p. (if \<not> (0 \<le> v \<and> v < 2 ^ 64) then b
        else let w = (word_of_int v :: 64 word) in
          if w > earliestTime \<and> w < latestTime then ArgPool_AddTimestamp w b else b) = b\<lparr>TimestampPool := p\<rparr>"
      by (cases b) (auto simp: ArgPool_AddTimestamp_def Let_def)
    then show ?thesis using that by (auto simp: extractTimestamps_def)
  qed
  show ?case unfolding u(1) by (subst Cons.IH) (simp add: u(2))
qed

lemma ReadContractsHashes_frame:
  assumes "ReadContractsHashes env metadata st = Inr (hs, st')"
  shows "\<exists>f g. st' = st\<lparr>metadataJSONMap := f, ContractHashes := g\<rparr>"
proof -
  have same: "st\<lparr>ContractHashes := g\<rparr> = st\<lparr>metadataJSONMap := metadataJSONMap st, ContractHashes := g\<rparr>" for g
    by simp
  show ?thesis
    using assms
    by (auto simp: ReadContractsHashes_def Let_def elim!: bindR_InrE split: option.splits
        dest!: ReadDeployedBytecodes_frame) (metis same)+
qed

lemma GetContractNameByHash_frame:
  assumes "GetContractNameByHash env hash metadata st = Inr (name, st')"
  shows "\<exists>f g. st' = st\<lparr>metadataJSONMap := f, ContractHashes := g\<rparr>"
proof -
  obtain hs where "ReadContractsHashes env metadata st = Inr (hs, st')"
    using assms by (auto simp: GetContractNameByHash_def elim!: bindR_InrE split: option.splits)
  then show ?thesis by (rule ReadContractsHashes_frame)
qed

lemma recordDeployment_frame:
  assumes "recordDeployment env tx log b = Inr b'"
  shows "\<exists>f g d. b' = b\<lparr>metadataJSONMap := f, ContractHashes := g, DeployedContracts := d\<rparr>"
proof -
  have same: "b = b\<lparr>metadataJSONMap := metadataJSONMap b, ContractHashes := ContractHashes b, DeployedContracts := DeployedContracts b\<rparr>"
    by simp
  obtain hash found where h: "GetSwarmHash (hex_encode (Memory log)) = Inr (hash, found)"
    using assms by (auto simp: recordDeployment_def elim!: bindR_InrE)
  show ?thesis
  proof (cases found)
    case False
    then have "b' = b" using assms h by (simp add: recordDeployment_def)
    then show ?thesis by (simp only:) (intro exI, rule same)
  next
    case True
    then obtain name u addr where u: "GetContractNameByHash env hash (backMetadata b) b = Inr (name, u)"
      "b' = u\<lparr>DeployedContracts := (DeployedContracts u)(name \<mapsto>
         (case DeployedContracts u name of None \<Rightarrow> \<lparr>Addresses = [], Methods = []\<rparr> | Some c \<Rightarrow> c)\<lparr>Addresses :=
           Addresses (case DeployedContracts u name of None \<Rightarrow> \<lparr>Addresses = [], Methods = []\<rparr> | Some c \<Rightarrow> c) @ [addr]\<rparr>)\<rparr>"
      using assms h by (auto simp: recordDeployment_def Let_def elim!: bindR_InrE)
    from GetContractNameByHash_frame [OF u(1)] obtain f g where "u = b\<lparr>metadataJSONMap := f, ContractHashes := g\<rparr>" by blast
    with u(2) show ?thesis by (intro exI) simp
  qed
qed

lemma checkOverflow_frame:
  "checkOverflow env logs i r = Inr r' \<Longrightarrow> r' = r\<lparr>Overflow := Overflow r'\<rparr>"
  by (auto simp: checkOverflow_def Let_def elim!: bindR_InrE split: option.splits if_splits)

section \<open>One round\<close>

text \<open>The components of the state after a round, each by the part of the round that makes it.\<close>

lemma processLog_parts:
  assumes "processLog env tx (Some opt) logs i (cs, b) = Inr (cs', b')"
  shows "\<exists>r. checkOverflow env logs i (LastTxRes b) = Inr r \<and>
      LastTxRes b' = checkRevert (logs ! i) (checkAssertion (logs ! i) r)"
    and "if UpdateCoverage opt \<and> txTo tx \<noteq> None
      then coverLog env logs i (cs, OpcodeIndices b) = Inr (cs', OpcodeIndices b')
      else cs' = cs \<and> OpcodeIndices b' = OpcodeIndices b"
    and "TimestampPool b' =
      (if ExtractTimestamps opt then TimestampPool (extractTimestamps (Stack (logs ! i)) b) else TimestampPool b)"
proof -
  define u where "u = (if ExtractTimestamps opt then extractTimestamps (Stack (logs ! i)) b else b)"
  have u: "u = b\<lparr>TimestampPool := TimestampPool u\<rparr>"
    unfolding u_def using extractTimestamps_frame [of "Stack (logs ! i)" b] by simp
  obtain r where r: "checkOverflow env logs i (LastTxRes u) = Inr r"
    using assms by (auto simp: processLog_def Let_def u_def elim!: bindR_InrE)
  define v where "v = u\<lparr>LastTxRes := checkRevert (logs ! i) (checkAssertion (logs ! i) r)\<rparr>"
  obtain w where cov: "(if UpdateCoverage opt \<and> txTo tx \<noteq> None
                then bindR (coverLog env logs i (cs, OpcodeIndices v)) (\<lambda>(callSt, m). Inr (callSt, v\<lparr>OpcodeIndices := m\<rparr>))
                else Inr (cs, v)) = Inr (cs', w)"
    and dep: "if \<not> CheckDeployedContract opt \<or> Op (logs ! i) \<noteq> op_RETURN then b' = w
        else recordDeployment env tx (logs ! i) w = Inr b'"
    using assms r by (auto simp: processLog_def Let_def u_def [symmetric] v_def [symmetric] elim!: bindR_InrE split: if_splits)
  have b': "LastTxRes b' = LastTxRes w \<and> OpcodeIndices b' = OpcodeIndices w \<and> TimestampPool b' = TimestampPool w"
    using dep by (auto split: if_splits dest!: recordDeployment_frame)
  have w: "LastTxRes w = LastTxRes v \<and> TimestampPool w = TimestampPool v"
    using cov by (auto split: if_splits elim!: bindR_InrE)
  have res: "LastTxRes u = LastTxRes b" by (subst u) simp
  show "\<exists>r. checkOverflow env logs i (LastTxRes b) = Inr r \<and>
      LastTxRes b' = checkRevert (logs ! i) (checkAssertion (logs ! i) r)"
    using r res b' w by (intro exI [of _ r]) (simp add: v_def)
  have ops: "OpcodeIndices v = OpcodeIndices b" by (simp add: v_def) (subst u, simp)
  show "if UpdateCoverage opt \<and> txTo tx \<noteq> None
      then coverLog env logs i (cs, OpcodeIndices b) = Inr (cs', OpcodeIndices b')
      else cs' = cs \<and> OpcodeIndices b' = OpcodeIndices b"
    using cov b' ops by (auto split: if_splits elim!: bindR_InrE)
  show "TimestampPool b' =
      (if ExtractTimestamps opt then TimestampPool (extractTimestamps (Stack (logs ! i)) b) else TimestampPool b)"
    using b' w by (simp add: v_def u_def)
qed

text \<open>The whole function: the state before the loop, and the loop.\<close>

lemma processLogs_loop:
  assumes "processLogs env receipt tx options b = Inr b'" and "StructLogger (LastTxRes b) = Some tracer"
  obtains u cs where
    "updateFromOutput env options (slOutput tracer)
       (b\<lparr>LastTxRes := (LastTxRes b)\<lparr>Output := slOutput tracer, Receipt := Some receipt\<rparr>\<rparr>) = Inr u"
    and "foldR (processLog env tx options (slLogs tracer)) [0..<length (slLogs tracer)]
       ([txTo tx], u\<lparr>LastTxRes := (LastTxRes u)\<lparr>AssertionAtDepth := -1, RevertAtDepth := -1, Overflow := []\<rparr>\<rparr>) = Inr (cs, b')"
  using assms by (auto simp: processLogs_def Let_def callStack_Push_def elim!: bindR_InrE)

end
