(* ===== verification/ProcessorResults.thy ===== *)
theory ProcessorResults
  imports ProcessorParts
begin

text \<open>
  What \<^verbatim>\<open>processLogs\<close> reports of a transaction: the depths of assertion failures and reverts, the
  first overflow, and the timestamps it collects; and its behaviour without options.
\<close>

section \<open>Depths\<close>

text \<open>The specification: the least depth at which an opcode occurs in a trace, \<open>-1\<close> if it does not.\<close>

definition min_depth :: "8 word \<Rightarrow> structLog list \<Rightarrow> int" where
  "min_depth opc logs =
     (let ds = {Depth l | l. l \<in> set logs \<and> Op l = opc} in if ds = {} then -1 else Min ds)"

lemma depths_finite: "finite {Depth l | l. l \<in> set logs \<and> P l}"
  by (rule finite_subset [of _ "Depth ` set logs"]) auto

lemma min_depth_Nil [simp]: "min_depth opc [] = -1"
  by (simp add: min_depth_def)

lemma min_depth_snoc:
  assumes "\<forall>l \<in> set logs. 0 \<le> Depth l"
  shows "min_depth opc (logs @ [log]) =
    (if Op log = opc \<and> (min_depth opc logs = -1 \<or> min_depth opc logs > Depth log) then Depth log
     else min_depth opc logs)"
proof -
  let ?ds = "{Depth l | l. l \<in> set logs \<and> Op l = opc}"
  have fin: "finite ?ds" by (rule depths_finite)
  have nonneg: "\<forall>d \<in> ?ds. 0 \<le> d" using assms by auto
  have ds: "{Depth l | l. l \<in> set (logs @ [log]) \<and> Op l = opc} =
      (if Op log = opc then insert (Depth log) ?ds else ?ds)" by auto
  show ?thesis
  proof (cases "?ds = {}")
    case True
    show ?thesis unfolding min_depth_def ds Let_def True by simp
  next
    case False
    define m where "m = Min ?ds"
    have "m \<in> ?ds" unfolding m_def by (rule Min_in [OF fin False])
    then have "0 \<le> m" using nonneg by blast
    moreover have "min_depth opc logs = m" using False unfolding min_depth_def Let_def m_def by (rule if_not_P)
    moreover have "min_depth opc (logs @ [log]) = (if Op log = opc then min (Depth log) m else m)"
      unfolding min_depth_def Let_def ds m_def using Min_insert [OF fin False, of "Depth log"] False
      by (cases "Op log = opc") (simp_all only: insert_not_empty if_False if_True simp_thms)
    ultimately show ?thesis by auto
  qed
qed

lemma loop_depths:
  assumes "foldR (processLog env tx (Some opt) logs) [0..<length logs] (cs, u) = Inr (cs', b')"
    and "AssertionAtDepth (LastTxRes u) = -1" and "RevertAtDepth (LastTxRes u) = -1"
    and "\<forall>l \<in> set logs. 0 \<le> Depth l"
  shows "AssertionAtDepth (LastTxRes b') = min_depth assertOp logs \<and>
    RevertAtDepth (LastTxRes b') = min_depth op_REVERT logs"
proof -
  let ?P = "\<lambda>i (cs :: callStack, b). AssertionAtDepth (LastTxRes b) = min_depth assertOp (take i logs) \<and>
    RevertAtDepth (LastTxRes b) = min_depth op_REVERT (take i logs)"
  have "?P (length logs) (cs', b')"
  proof (rule foldR_upt_invariant [OF assms(1)])
    show "?P 0 (cs, u)" using assms(2,3) by simp
    fix i s s' assume i: "i < length logs" and P: "?P i s" and step: "processLog env tx (Some opt) logs i s = Inr s'"
    obtain c b c' d where s: "s = (c, b)" "s' = (c', d)" by (metis surj_pair)
    obtain r where r: "checkOverflow env logs i (LastTxRes b) = Inr r"
      "LastTxRes d = checkRevert (logs ! i) (checkAssertion (logs ! i) r)"
      using processLog_parts(1) [OF step [unfolded s]] by blast
    have "\<forall>l \<in> set (take i logs). 0 \<le> Depth l" using assms(4) by (auto dest: in_set_takeD)
    note snoc = min_depth_snoc [OF this, of _ "logs ! i"]
    have "r = (LastTxRes b)\<lparr>Overflow := Overflow r\<rparr>" by (rule checkOverflow_frame [OF r(1)])
    then have "AssertionAtDepth r = AssertionAtDepth ((LastTxRes b)\<lparr>Overflow := Overflow r\<rparr>)"
      "RevertAtDepth r = RevertAtDepth ((LastTxRes b)\<lparr>Overflow := Overflow r\<rparr>)" by (rule arg_cong)+
    then show "?P (Suc i) s'"
      using P i by (auto simp: s r(2) take_Suc_conv_app_nth snoc checkAssertion_def checkRevert_def)
  qed
  then show ?thesis by simp
qed

section \<open>Overflows\<close>

text \<open>The operands of a step: the word on top of the stack and the one below.\<close>

definition operandA :: "structLog \<Rightarrow> int" where "operandA l = Stack l ! (length (Stack l) - 1)"
definition operandB :: "structLog \<Rightarrow> int" where "operandB l = Stack l ! (length (Stack l) - 2)"

text \<open>The exact result of an arithmetic step.\<close>

definition exact_result :: "structLog list \<Rightarrow> nat \<Rightarrow> int" where
  "exact_result logs i =
     (case operators (Op (logs ! i)) of None \<Rightarrow> 0 | Some fn \<Rightarrow> fn (operandA (logs ! i)) (operandB (logs ! i)))"

text \<open>
  The tracer of go-ethereum logs a step before it is executed, also one that then fails. So an arithmetic step may have
  fewer than two words on its stack (it underflows), and the step after it may belong to the caller (it ran out of gas). The words
  that the code reads are there or not:
\<close>

definition operands_missing :: "structLog list \<Rightarrow> nat \<Rightarrow> bool" where
  "operands_missing logs i \<longleftrightarrow> operators (Op (logs ! i)) \<noteq> None \<and>
     (length (Stack (logs ! i)) < 2 \<or> i + 1 < length logs \<and> Stack (logs ! (i + 1)) = [])"

text \<open>An arithmetic step followed by a step with another word on top than its exact result.\<close>

definition mismatch_at :: "structLog list \<Rightarrow> nat \<Rightarrow> bool" where
  "mismatch_at logs i \<longleftrightarrow> operators (Op (logs ! i)) \<noteq> None \<and> \<not> operands_missing logs i \<and> i + 1 < length logs \<and>
     last (Stack (logs ! (i + 1))) \<noteq> exact_result logs i"

text \<open>
  A step that the EVM executed leaves its result modulo \<open>2 ^ 256\<close> in place of its operands. One that failed is followed
  by a step of the caller, at a lower depth, with the zero of the failed call on top.
\<close>

definition executed_at :: "structLog list \<Rightarrow> nat \<Rightarrow> bool" where
  "executed_at logs i \<longleftrightarrow> operators (Op (logs ! i)) \<noteq> None \<and> i + 1 < length logs \<and> 2 \<le> length (Stack (logs ! i)) \<and>
     Depth (logs ! (i + 1)) = Depth (logs ! i) \<and>
     Stack (logs ! (i + 1)) = take (length (Stack (logs ! i)) - 2) (Stack (logs ! i)) @ [exact_result logs i mod 2 ^ 256]"

definition failed_at :: "structLog list \<Rightarrow> nat \<Rightarrow> bool" where
  "failed_at logs i \<longleftrightarrow> operators (Op (logs ! i)) \<noteq> None \<and> i + 1 < length logs \<and> 2 \<le> length (Stack (logs ! i)) \<and>
     Depth (logs ! (i + 1)) < Depth (logs ! i) \<and> (\<exists>st. Stack (logs ! (i + 1)) = st @ [0])"

text \<open>The specification of an overflow: the exact result does not fit in 256 bits.\<close>

definition overflow_at :: "structLog list \<Rightarrow> nat \<Rightarrow> bool" where
  "overflow_at logs i \<longleftrightarrow> \<not> (0 \<le> exact_result logs i \<and> exact_result logs i < 2 ^ 256)"

definition overflow_text :: "'e procenv_scheme \<Rightarrow> structLog list \<Rightarrow> nat \<Rightarrow> string" where
  "overflow_text env logs i =
     overflowReport env (Op (logs ! i)) (operandA (logs ! i)) (operandB (logs ! i)) (last (Stack (logs ! (i + 1))))
       (exact_result logs i)"

lemma mod_in_range: "(e :: int) mod 2 ^ 256 = e \<longleftrightarrow> 0 \<le> e \<and> e < 2 ^ 256"
  by (metis mod_pos_pos_trivial pos_mod_bound pos_mod_sign zero_less_numeral zero_less_power)

text \<open>On steps that were executed a mismatch is an overflow; on steps that failed it is any result but zero.\<close>

lemma mismatch_executed: "executed_at logs i \<Longrightarrow> mismatch_at logs i \<longleftrightarrow> overflow_at logs i"
  using mod_in_range [of "exact_result logs i"] by (auto simp: executed_at_def mismatch_at_def operands_missing_def overflow_at_def)

lemma mismatch_failed: "failed_at logs i \<Longrightarrow> mismatch_at logs i \<longleftrightarrow> exact_result logs i \<noteq> 0"
  by (auto simp: failed_at_def mismatch_at_def operands_missing_def)

text \<open>One round, while nothing is reported.\<close>

lemma index_last: "xs \<noteq> [] \<Longrightarrow> index xs (int (length xs) - 1) = Inr (last xs)"
  by (cases xs rule: rev_cases) (auto simp: index_def nat_diff_distrib)

lemma checkOverflow_round:
  assumes "i < length logs" and "Overflow r = []"
  shows "checkOverflow env logs i r =
    (if operands_missing logs i then Inl IndexOutOfRange
     else Inr (if mismatch_at logs i then r\<lparr>Overflow := overflow_text env logs i\<rparr> else r))"
proof (cases "operators (Op (logs ! i))")
  case None
  then show ?thesis using assms(2) by (simp add: checkOverflow_def operands_missing_def mismatch_at_def)
next
  case (Some fn)
  let ?st = "Stack (logs ! i)" and ?nx = "Stack (logs ! (i + 1))"
  have ex: "exact_result logs i = fn (operandA (logs ! i)) (operandB (logs ! i))" using Some by (simp add: exact_result_def)
  show ?thesis
  proof (cases "2 \<le> length ?st")
    case False
    then have "bindR (index ?st (int (length ?st) - 1)) (\<lambda>a. bindR (index ?st (int (length ?st) - 2)) (f a)) = Inl IndexOutOfRange" for f :: "int \<Rightarrow> int \<Rightarrow> LastTxResult res"
      by (cases "index ?st (int (length ?st) - 1)") (auto simp: index_def split: if_splits)
    then show ?thesis using Some assms(2) False by (simp add: checkOverflow_def operands_missing_def)
  next
    case len: True
    then have ops: "index ?st (int (length ?st) - 1) = Inr (operandA (logs ! i))"
      "index ?st (int (length ?st) - 2) = Inr (operandB (logs ! i))"
      by (auto simp: index_def operandA_def operandB_def nat_diff_distrib)
    show ?thesis
    proof (cases "i + 1 < length logs \<and> ?nx \<noteq> []")
      case True
      then have res: "index ?nx (int (length ?nx) - 1) = Inr (last ?nx)" by (intro index_last) simp
      show ?thesis using Some assms(2) ops res True len
        by (simp add: checkOverflow_def operands_missing_def mismatch_at_def overflow_text_def Let_def ex)
    next
      case False
      then show ?thesis using Some assms(2) ops len
        by (auto simp: checkOverflow_def operands_missing_def mismatch_at_def Let_def index_def)
    qed
  qed
qed

lemma overflow_text_ne: "overflow_text env logs i \<noteq> []"
  by (simp add: overflow_text_def overflowReport_def)

text \<open>What is reported after \<open>n\<close> rounds.\<close>

definition first_report :: "'e procenv_scheme \<Rightarrow> structLog list \<Rightarrow> nat \<Rightarrow> string" where
  "first_report env logs n = (case filter (mismatch_at logs) [0..<n] of [] \<Rightarrow> [] | i # _ \<Rightarrow> overflow_text env logs i)"

lemma first_report_empty: "first_report env logs n = [] \<longleftrightarrow> (\<forall>i < n. \<not> mismatch_at logs i)"
proof -
  have "first_report env logs n = [] \<longleftrightarrow> filter (mismatch_at logs) [0..<n] = []"
    by (simp add: first_report_def overflow_text_ne split: list.split)
  then show ?thesis by (auto simp: filter_empty_conv)
qed

lemma first_report_Suc:
  "first_report env logs (Suc n) =
     (if first_report env logs n \<noteq> [] then first_report env logs n
      else if mismatch_at logs n then overflow_text env logs n else [])"
  by (cases "filter (mismatch_at logs) [0..<n]") (simp_all add: first_report_def overflow_text_ne)

lemma loop_overflow:
  assumes "foldR (processLog env tx (Some opt) logs) [0..<length logs] (cs, u) = Inr (cs', b')"
    and "Overflow (LastTxRes u) = []"
  shows "Overflow (LastTxRes b') = first_report env logs (length logs)"
proof -
  let ?P = "\<lambda>i (cs :: callStack, b). Overflow (LastTxRes b) = first_report env logs i"
  have "?P (length logs) (cs', b')"
  proof (rule foldR_upt_invariant [OF assms(1)])
    show "?P 0 (cs, u)" using assms(2) by (simp add: first_report_def)
    fix i s s' assume i: "i < length logs" and P: "?P i s" and step: "processLog env tx (Some opt) logs i s = Inr s'"
    obtain c b c' d where s: "s = (c, b)" "s' = (c', d)" by (metis surj_pair)
    obtain r where r: "checkOverflow env logs i (LastTxRes b) = Inr r"
      "LastTxRes d = checkRevert (logs ! i) (checkAssertion (logs ! i) r)"
      using processLog_parts(1) [OF step [unfolded s]] by blast
    have "Overflow (LastTxRes d) = Overflow r" by (simp add: r(2) checkRevert_def checkAssertion_def)
    moreover have "Overflow r = first_report env logs (Suc i)"
    proof (cases "Overflow (LastTxRes b) = []")
      case True
      then show ?thesis using checkOverflow_round [OF i True, of env] r(1) P
        by (auto simp: s first_report_Suc split: if_splits)
    next
      case False
      then show ?thesis using r(1) P by (simp add: s checkOverflow_def first_report_Suc)
    qed
    ultimately show "?P (Suc i) s'" by (simp add: s)
  qed
  then show ?thesis by simp
qed

text \<open>The traces whose scan panics: an arithmetic step lacks a word that is read, and nothing was reported before.\<close>

definition scan_panics :: "structLog list \<Rightarrow> bool" where
  "scan_panics logs \<longleftrightarrow> (\<exists>i < length logs. operands_missing logs i \<and> (\<forall>j < i. \<not> mismatch_at logs j))"

section \<open>Timestamps\<close>

text \<open>The specification: a stack word that is a time between 2015 and 2025.\<close>

definition is_time :: "int \<Rightarrow> bool" where
  "is_time v \<longleftrightarrow> 1420070400 < v \<and> v < 1735689600"

lemma contains_AddTimestamp:
  "timestamppool_Contains t (TimestampPool (ArgPool_AddTimestamp x b)) \<longleftrightarrow>
     t = x \<or> timestamppool_Contains t (TimestampPool b)"
  by (auto simp: ArgPool_AddTimestamp_def timestamppool_Contains_def timestamppool_Sort_def timestamppool_Add_def)

lemma contains_extract:
  "timestamppool_Contains t (TimestampPool (extractTimestamps vs b)) \<longleftrightarrow>
     (is_time (uint t) \<and> uint t \<in> set vs) \<or> timestamppool_Contains t (TimestampPool b)"
proof (induction vs arbitrary: b)
  case Nil
  then show ?case by (simp add: extractTimestamps_def)
next
  case (Cons v vs)
  let ?u = "if \<not> (0 \<le> v \<and> v < 2 ^ 64) then b
        else let w = (word_of_int v :: 64 word) in
          if w > earliestTime \<and> w < latestTime then ArgPool_AddTimestamp w b else b"
  have step: "extractTimestamps (v # vs) b = extractTimestamps vs ?u" by (simp add: extractTimestamps_def)
  have "timestamppool_Contains t (TimestampPool ?u) \<longleftrightarrow> is_time (uint t) \<and> uint t = v \<or> timestamppool_Contains t (TimestampPool b)"
  proof (cases "0 \<le> v \<and> v < 2 ^ 64")
    case True
    then have v: "uint (word_of_int v :: 64 word) = v" by (simp add: uint_word_of_int)
    have win: "(word_of_int v :: 64 word) > earliestTime \<and> (word_of_int v :: 64 word) < latestTime \<longleftrightarrow> is_time v"
      unfolding word_less_def v is_time_def earliestTime_def latestTime_def by simp
    have eq: "t = word_of_int v \<longleftrightarrow> uint t = v" using v by (metis word_of_int_uint)
    show ?thesis using True win eq by (auto simp: contains_AddTimestamp)
  next
    case False
    moreover have "0 \<le> uint t \<and> uint t < 2 ^ 64" using uint_bounded [of t] by simp
    ultimately show ?thesis by auto
  qed
  then show ?case unfolding step Cons.IH by auto
qed

lemma loop_timestamps:
  assumes "foldR (processLog env tx (Some opt) logs) [0..<length logs] (cs, u) = Inr (cs', b')"
  shows "timestamppool_Contains t (TimestampPool b') \<longleftrightarrow>
    (ExtractTimestamps opt \<and> is_time (uint t) \<and> (\<exists>l \<in> set logs. uint t \<in> set (Stack l))) \<or>
    timestamppool_Contains t (TimestampPool u)"
proof -
  let ?P = "\<lambda>i (cs :: callStack, b). timestamppool_Contains t (TimestampPool b) \<longleftrightarrow>
    (ExtractTimestamps opt \<and> is_time (uint t) \<and> (\<exists>l \<in> set (take i logs). uint t \<in> set (Stack l))) \<or>
    timestamppool_Contains t (TimestampPool u)"
  have "?P (length logs) (cs', b')"
  proof (rule foldR_upt_invariant [OF assms])
    show "?P 0 (cs, u)" by simp
    fix i s s' assume i: "i < length logs" and P: "?P i s" and step: "processLog env tx (Some opt) logs i s = Inr s'"
    obtain c b c' d where s: "s = (c, b)" "s' = (c', d)" by (metis surj_pair)
    show "?P (Suc i) s'"
      using P i processLog_parts(3) [OF step [unfolded s]]
      by (auto simp: s take_Suc_conv_app_nth contains_extract)
  qed
  then show ?thesis by simp
qed

text \<open>The pool update before the loop touches neither the timestamps nor anything that is not pool.\<close>

definition same_rest :: "'z argst_scheme \<Rightarrow> 'z argst_scheme \<Rightarrow> bool" where
  "same_rest A B \<longleftrightarrow> TimestampPool B = TimestampPool A \<and> argst.more B = argst.more A"

lemma same_rest_refl [simp]: "same_rest A A"
  by (simp add: same_rest_def)

lemma same_rest_trans: "same_rest A B \<Longrightarrow> same_rest B C \<Longrightarrow> same_rest A C"
  by (simp add: same_rest_def)

lemma same_rest_adds:
  fixes A :: "'z argst_scheme"
  shows "same_rest A (A\<lparr>Int16Pool := p16\<rparr>)" "same_rest A (A\<lparr>Int32Pool := p32\<rparr>)" "same_rest A (A\<lparr>Int64Pool := p64\<rparr>)"
    "same_rest A (A\<lparr>StringPool := ps\<rparr>)" "same_rest A (A\<lparr>Bytes32Pool := pb\<rparr>)" "same_rest A (A\<lparr>pools := f\<rparr>)"
    "same_rest A (A\<lparr>bigs := h\<rparr>)"
  by (cases A; simp add: same_rest_def)+

lemma learn_same_rest: "learn fa l st = Inr st' \<Longrightarrow> same_rest st st'"
  by (cases l) (auto simp: ArgPool_AddInt16_def ArgPool_AddInt32_def ArgPool_AddInt64_def ArgPool_AddString_def
       ArgPool_AddBytes32_def ArgPool_AddBigInt_def ArgPool_AddAddress_def set_pool_def Let_def same_rest_adds
       elim!: bindR_InrE split: if_splits)

lemma updateRecursively_same_rest: "updateRecursively fa v st = Inr st' \<Longrightarrow> same_rest st st'"
  unfolding update_leaves
  by (erule foldR_invariant [where P = "same_rest st"]) (auto intro: same_rest_trans learn_same_rest)

lemma UpdatePool_same_rest:
  assumes "UpdatePool fa unpack output st = Inr st'"
  shows "same_rest st st'"
proof -
  obtain vs err h where v: "unpack output (bigs st) = ((vs, err), h)" by (metis surj_pair)
  then have "foldR (updateRecursively fa) vs (st\<lparr>bigs := h\<rparr>) = Inr st'" using assms by (simp add: UpdatePool_def)
  then have "same_rest (st\<lparr>bigs := h\<rparr>) st'"
    by (rule foldR_invariant) (auto intro: same_rest_trans updateRecursively_same_rest)
  with same_rest_adds(7) show ?thesis by (rule same_rest_trans)
qed

lemma same_rest_backst:
  fixes A :: "('db, 'z) backst_scheme"
  assumes "same_rest A B"
  shows "TimestampPool B = TimestampPool A" "OpcodeIndices B = OpcodeIndices A" "LastTxRes B = LastTxRes A"
    "StateDB B = StateDB A" "DeployedContracts B = DeployedContracts A" "ContractsList B = ContractsList A"
    "TxCount B = TxCount A" "backStats B = backStats A" "LastTxIn B = LastTxIn A"
  using assms by (cases A; cases B; simp add: same_rest_def)+

lemma updateFromOutput_rest: "updateFromOutput env options output b = Inr u \<Longrightarrow> same_rest b u"
  by (auto simp: updateFromOutput_def split: option.splits if_splits dest: UpdatePool_same_rest)

text \<open>It does not panic on a pool of the invariant, once a transaction was generated.\<close>

lemma updateFromOutput_total:
  assumes "arg_inv (fmtAddress env) b" and "LastTxIn b \<noteq> None"
  shows "\<exists>u. updateFromOutput env options output b = Inr u \<and> arg_inv (fmtAddress env) u"
proof -
  have "\<exists>u. UpdatePool (fmtAddress env) unpack output b = Inr u \<and> arg_inv (fmtAddress env) u" for unpack
  proof -
    obtain vs err h where v: "unpack output (bigs b) = ((vs, err), h)" by (metis surj_pair)
    have "\<exists>u. foldR (updateRecursively (fmtAddress env)) vs (b\<lparr>bigs := h\<rparr>) = Inr u \<and> arg_inv (fmtAddress env) u"
    proof (rule foldR_total)
      show "arg_inv (fmtAddress env) (b\<lparr>bigs := h\<rparr>)" using assms(1) by simp
    qed (metis update_leaves learns_known)
    then show ?thesis using v by (simp add: UpdatePool_def)
  qed
  then show ?thesis using assms by (auto simp: updateFromOutput_def split: option.splits)
qed

section \<open>Properties\<close>

text \<open>
  C12: After the scan of a trace with depths from 1 on, the assertion depth is the least depth of the
  undefined instruction and the revert depth that of \<^verbatim>\<open>REVERT\<close> (\<open>-1\<close> without one). So the
  transaction counts as reverted (depth 1) exactly if it executes a \<^verbatim>\<open>REVERT\<close> at depth 1, whatever
  other way it may have failed.
\<close>

theorem trace_depths:
  assumes "processLogs env receipt tx (Some opt) b = Inr b'" and "StructLogger (LastTxRes b) = Some tracer"
    and "\<forall>l \<in> set (slLogs tracer). 1 \<le> Depth l"
  shows "AssertionAtDepth (LastTxRes b') = min_depth assertOp (slLogs tracer) \<and>
    RevertAtDepth (LastTxRes b') = min_depth op_REVERT (slLogs tracer) \<and>
    (RevertAtDepth (LastTxRes b') = 1) = (\<exists>l \<in> set (slLogs tracer). Op l = op_REVERT \<and> Depth l = 1)"
proof -
  from processLogs_loop [OF assms(1,2)] obtain u cs where
    "foldR (processLog env tx (Some opt) (slLogs tracer)) [0..<length (slLogs tracer)]
       ([txTo tx], u\<lparr>LastTxRes := (LastTxRes u)\<lparr>AssertionAtDepth := -1, RevertAtDepth := -1, Overflow := []\<rparr>\<rparr>) = Inr (cs, b')"
    by blast
  moreover have "\<forall>l \<in> set (slLogs tracer). 0 \<le> Depth l" using assms(3) by force
  ultimately have d: "AssertionAtDepth (LastTxRes b') = min_depth assertOp (slLogs tracer)"
    "RevertAtDepth (LastTxRes b') = min_depth op_REVERT (slLogs tracer)" using loop_depths by force+
  let ?ds = "{Depth l | l. l \<in> set (slLogs tracer) \<and> Op l = op_REVERT}"
  have "min_depth op_REVERT (slLogs tracer) = 1 \<longleftrightarrow> 1 \<in> ?ds"
  proof (cases "?ds = {}")
    case True
    then show ?thesis unfolding min_depth_def Let_def by (simp only:) simp
  next
    case False
    have "finite ?ds" by (rule depths_finite)
    moreover have "\<forall>d \<in> ?ds. 1 \<le> d" using assms(3) by auto
    ultimately show ?thesis using False unfolding min_depth_def Let_def
      by (metis (mono_tags, lifting) Min_eqI Min_in if_False)
  qed
  then show ?thesis using d by auto
qed


text \<open>
  C34: With timestamp extraction, the timestamp pool afterwards holds exactly what it held before and
  the words of the trace's stacks that are times strictly between the starts of 2015 and 2025;
  without it, exactly what it held before.
\<close>

theorem trace_timestamps:
  assumes "processLogs env receipt tx (Some opt) b = Inr b'" and "StructLogger (LastTxRes b) = Some tracer"
  shows "timestamppool_Contains t (TimestampPool b') \<longleftrightarrow> timestamppool_Contains t (TimestampPool b) \<or>
    (ExtractTimestamps opt \<and> is_time (uint t) \<and> (\<exists>l \<in> set (slLogs tracer). uint t \<in> set (Stack l)))"
proof -
  from processLogs_loop [OF assms] obtain u cs where u:
    "updateFromOutput env (Some opt) (slOutput tracer)
       (b\<lparr>LastTxRes := (LastTxRes b)\<lparr>Output := slOutput tracer, Receipt := Some receipt\<rparr>\<rparr>) = Inr u"
    "foldR (processLog env tx (Some opt) (slLogs tracer)) [0..<length (slLogs tracer)]
       ([txTo tx], u\<lparr>LastTxRes := (LastTxRes u)\<lparr>AssertionAtDepth := -1, RevertAtDepth := -1, Overflow := []\<rparr>\<rparr>) = Inr (cs, b')" .
  have "TimestampPool u = TimestampPool b" using same_rest_backst(1) [OF updateFromOutput_rest [OF u(1)]] by simp
  with loop_timestamps [OF u(2), of t] show ?thesis by auto
qed

text \<open>
  \<^verbatim>\<open>processLogs\<close> provides for nil options before its loop, but with a step in the trace it
  panics on them.
\<close>

lemma nil_options_panic:
  assumes "StructLogger (LastTxRes b) = Some tracer"
  shows "(\<exists>b'. processLogs env receipt tx None b = Inr b') = (slLogs tracer = []) \<and>
    (slLogs tracer = [] \<or> processLogs env receipt tx None b = Inl NilDeref)"
proof (cases "slLogs tracer")
  case Nil
  then show ?thesis using assms by (simp add: processLogs_def updateFromOutput_def Let_def)
next
  case (Cons l ls)
  then have "[0..<length (slLogs tracer)] = 0 # [Suc 0..<length (slLogs tracer)]" by (intro upt_conv_Cons) simp
  then show ?thesis using assms Cons unfolding processLogs_def
    by (simp only: foldR.simps) (simp add: updateFromOutput_def processLog_def Let_def del: upt_Suc)
qed

end
