(* ===== verification/CoverageTrace.thy ===== *)
theory CoverageTrace
  imports ProcessorResults
begin

text \<open>
  The coverage that \<^verbatim>\<open>processLogs\<close> keeps with its call stack, against a description of the trace
  that has no stack; and the traces on which the function does not panic. The theory ends with
  concrete traces for the properties of both processor theories.
\<close>

section \<open>Traces of calls\<close>

text \<open>
  What the trace of an EVM satisfies: the depth changes by at most one from a step to the next,
  never falls below that of the first step, and rises after a step with two words on its stack.
\<close>

definition evm_calls :: "structLog list \<Rightarrow> bool" where
  "evm_calls logs \<longleftrightarrow>
     (\<forall>i < length logs. Depth (logs ! 0) \<le> Depth (logs ! i)) \<and>
     (\<forall>i. i + 1 < length logs \<longrightarrow>
        Depth (logs ! (i + 1)) - Depth (logs ! i) \<in> {-1, 0, 1} \<and>
        (Depth (logs ! (i + 1)) > Depth (logs ! i) \<longrightarrow> 2 \<le> length (Stack (logs ! i))))"

lemma evm_callsD:
  assumes "evm_calls logs" and "Suc i < length logs"
  shows "Depth (logs ! Suc i) - Depth (logs ! i) \<in> {-1, 0, 1}"
    and "Depth (logs ! Suc i) > Depth (logs ! i) \<longrightarrow> 2 \<le> length (Stack (logs ! i))"
  using assms(1) [unfolded evm_calls_def, THEN conjunct2, THEN spec, of i, THEN mp] assms(2)
  by (simp_all del: insert_iff)

lemma evm_calls_depth: "evm_calls logs \<Longrightarrow> i < length logs \<Longrightarrow> Depth (logs ! 0) \<le> Depth (logs ! i)"
  by (simp add: evm_calls_def)

text \<open>
  The step that entered the code at depth \<open>d\<close>: the last one before step \<open>i\<close> at a lower depth. Without one it is the code
  first called.
\<close>

definition entry :: "structLog list \<Rightarrow> int \<Rightarrow> nat \<Rightarrow> nat option" where
  "entry logs d i = (case filter (\<lambda>j. Depth (logs ! j) < d) [0..<i] of [] \<Rightarrow> None | js \<Rightarrow> Some (last js))"

text \<open>
  The specification of the code that executes at a step. The second word of a call is the address of the code that
  it runs. A creation runs the code of a contract that is still to be made; its second word is an offset into memory.
\<close>

definition call_ops :: "8 word list" where
  "call_ops = [0xf1, 0xf2, 0xf4, 0xfa]"

definition code_at :: "'e procenv_scheme \<Rightarrow> address \<Rightarrow> structLog list \<Rightarrow> nat \<Rightarrow> address option" where
  "code_at env to logs i =
     (case entry logs (Depth (logs ! i)) i of
        None \<Rightarrow> Some to
      | Some j \<Rightarrow> if Op (logs ! j) \<in> set call_ops then Some (BigToAddress env (operandB (logs ! j))) else None)"

text \<open>The address under which the code records a step: the second word of the entering step, whatever its opcode.\<close>

definition frame_addr :: "'e procenv_scheme \<Rightarrow> address \<Rightarrow> structLog list \<Rightarrow> int \<Rightarrow> nat \<Rightarrow> address" where
  "frame_addr env to logs d i =
     (case entry logs d i of None \<Rightarrow> to | Some j \<Rightarrow> BigToAddress env (operandB (logs ! j)))"

definition executing :: "'e procenv_scheme \<Rightarrow> address \<Rightarrow> structLog list \<Rightarrow> nat \<Rightarrow> address" where
  "executing env to logs i = frame_addr env to logs (Depth (logs ! i)) i"

text \<open>The program counters recorded for an address by the first \<open>n\<close> steps.\<close>

definition covered :: "'e procenv_scheme \<Rightarrow> address \<Rightarrow> structLog list \<Rightarrow> nat \<Rightarrow> address \<Rightarrow> 64 word set" where
  "covered env to logs n a = {Pc (logs ! i) | i. i < n \<and> executing env to logs i = a}"

definition pcs :: "(address \<rightharpoonup> 64 word set) \<Rightarrow> address \<Rightarrow> 64 word set" where
  "pcs m a = (case m a of None \<Rightarrow> {} | Some S \<Rightarrow> S)"

lemma pcs_cover: "pcs (cover a pc m) b = (if b = a then insert pc (pcs m a) else pcs m b)"
  by (auto simp: pcs_def cover_def split: option.splits)

lemma dom_cover: "dom (cover a pc m) = insert a (dom m)"
  by (simp add: cover_def)

lemma covered_Suc:
  "covered env to logs (Suc n) a =
     (if executing env to logs n = a then insert (Pc (logs ! n)) (covered env to logs n a) else covered env to logs n a)"
  by (auto simp: covered_def less_Suc_eq)

section \<open>The call stack\<close>

text \<open>The stack after step \<open>i\<close>: one entry for each depth from the first step's to the current.\<close>

definition stack_at :: "'e procenv_scheme \<Rightarrow> address \<Rightarrow> structLog list \<Rightarrow> nat \<Rightarrow> callStack" where
  "stack_at env to logs i =
     map (\<lambda>k. Some (frame_addr env to logs (Depth (logs ! 0) + int k) i))
       [0..<nat (Depth (logs ! i) - Depth (logs ! 0)) + 1]"

lemma frame_addr_0 [simp]: "frame_addr env to logs d 0 = to"
  by (simp add: frame_addr_def entry_def)

lemma frame_addr_Suc:
  "frame_addr env to logs d (Suc i) =
     (if Depth (logs ! i) < d then BigToAddress env (operandB (logs ! i)) else frame_addr env to logs d i)"
  by (auto simp: frame_addr_def entry_def split: list.splits) (metis last.simps last_snoc)+

lemma stack_at_0: "stack_at env to logs 0 = [Some to]"
  by (simp add: stack_at_def)

lemma stack_at_top:
  "stack_at env to logs i \<noteq> [] \<and>
   (Depth (logs ! 0) \<le> Depth (logs ! i) \<longrightarrow> last (stack_at env to logs i) = Some (executing env to logs i))"
  by (simp add: stack_at_def executing_def)

lemma callStack_Top_last: "c \<noteq> [] \<Longrightarrow> callStack_Top c = Inr (last c)"
  by (cases c rule: rev_cases) (auto simp: callStack_Top_def index_def nat_diff_distrib)

lemma callStack_Pop_butlast: "c \<noteq> [] \<Longrightarrow> callStack_Pop c = Inr (butlast c)"
  by (cases c rule: rev_cases) (auto simp: callStack_Pop_def slice_def nat_diff_distrib)

text \<open>Each step moves the code's stack to the specification's.\<close>

lemma moveCallStack_step:
  assumes "evm_calls logs" and "Suc i < length logs"
  shows "moveCallStack env logs (Suc i) (stack_at env to logs i) = Inr (stack_at env to logs (Suc i))"
proof -
  let ?base = "Depth (logs ! 0)" and ?d = "Depth (logs ! i)" and ?e = "Depth (logs ! Suc i)"
  let ?f = "\<lambda>n k. Some (frame_addr env to logs (?base + int k) n)"
  have d: "?base \<le> ?d" "?base \<le> ?e" by (rule evm_calls_depth [OF assms(1)], use assms(2) in simp)+
  have step: "?e - ?d \<in> {-1, 0, 1}" "?e > ?d \<longrightarrow> 2 \<le> length (Stack (logs ! i))"
    using evm_callsD [OF assms] by simp_all
  define n where "n = nat (?d - ?base)"
  have dn: "?d = ?base + int n" using d(1) by (simp add: n_def)
  have same: "map (?f i) [0..<Suc n] = map (?f (Suc i)) [0..<Suc n]"
    by (rule map_cong) (auto simp: frame_addr_Suc dn)
  have at: "stack_at env to logs i = map (?f (Suc i)) [0..<Suc n]"
    unfolding stack_at_def n_def [symmetric] Suc_eq_plus1 [symmetric] by (rule same)
  consider (up) "?e = ?d + 1" | (level) "?e = ?d" | (down) "?e = ?d - 1" using step(1) by auto
  then show ?thesis
  proof cases
    case up
    have op: "index (Stack (logs ! i)) (int (length (Stack (logs ! i))) - 2) = Inr (operandB (logs ! i))"
      using step(2) up by (auto simp: index_def operandB_def nat_diff_distrib)
    have "nat (?e - ?base) = Suc n" using up dn by simp
    then have "stack_at env to logs (Suc i) = map (?f (Suc i)) [0..<Suc n] @ [?f (Suc i) (Suc n)]"
      by (simp add: stack_at_def)
    moreover have "?f (Suc i) (Suc n) = Some (BigToAddress env (operandB (logs ! i)))"
      by (simp add: frame_addr_Suc dn)
    ultimately show ?thesis using up op by (simp add: moveCallStack_def at callStack_Push_def)
  next
    case level
    then have "nat (?e - ?base) = n" using dn by simp
    then have "stack_at env to logs (Suc i) = map (?f (Suc i)) [0..<Suc n]" by (simp add: stack_at_def)
    then show ?thesis using level by (simp add: moveCallStack_def at)
  next
    case down
    then obtain m where m: "n = Suc m" using d(2) dn by (cases n) auto
    then have "nat (?e - ?base) = m" using down dn by simp
    then have "stack_at env to logs (Suc i) = butlast (map (?f (Suc i)) [0..<Suc n])"
      by (simp add: stack_at_def m butlast_append)
    moreover have "stack_at env to logs i \<noteq> []" using stack_at_top by blast
    ultimately show ?thesis using down callStack_Pop_butlast [of "stack_at env to logs i"]
      by (simp add: moveCallStack_def at)
  qed
qed

text \<open>The loop's view: after \<open>i\<close> rounds the stack is the one of the last step.\<close>

lemma coverLog_step:
  assumes "evm_calls logs" and "i < length logs"
  shows "coverLog env logs i (stack_at env to logs (i - 1), m) =
    Inr (stack_at env to logs i, cover (executing env to logs i) (Pc (logs ! i)) m)"
proof -
  have mv: "moveCallStack env logs i (stack_at env to logs (i - 1)) = Inr (stack_at env to logs i)"
  proof (cases i)
    case 0
    then show ?thesis by (simp add: moveCallStack_def)
  next
    case (Suc k)
    then show ?thesis using moveCallStack_step [OF assms(1), of k env to] assms(2) by simp
  qed
  have "Depth (logs ! 0) \<le> Depth (logs ! i)" using assms by (simp add: evm_calls_def)
  then have "callStack_Top (stack_at env to logs i) = Inr (Some (executing env to logs i))"
    using stack_at_top [of env to logs i] callStack_Top_last by metis
  then show ?thesis using mv by (simp add: coverLog_def)
qed

lemma loop_coverage:
  assumes "foldR (processLog env tx (Some opt) logs) [0..<length logs] ([txTo tx], u) = Inr (cs', b')"
    and "evm_calls logs" and "UpdateCoverage opt" and "txTo tx = Some to"
  shows "pcs (OpcodeIndices b') a = pcs (OpcodeIndices u) a \<union> covered env to logs (length logs) a"
proof -
  let ?P = "\<lambda>i (cs, b). cs = stack_at env to logs (i - 1) \<and>
    (\<forall>a. pcs (OpcodeIndices b) a = pcs (OpcodeIndices u) a \<union> covered env to logs i a)"
  have "?P (length logs) (cs', b')"
  proof (rule foldR_upt_invariant [OF assms(1)])
    show "?P 0 ([txTo tx], u)" using assms(4) by (simp add: stack_at_0 covered_def)
    fix i s s' assume i: "i < length logs" and P: "?P i s" and step: "processLog env tx (Some opt) logs i s = Inr s'"
    obtain c b c' d where s: "s = (c, b)" "s' = (c', d)" by (metis surj_pair)
    have "coverLog env logs i (c, OpcodeIndices b) = Inr (c', OpcodeIndices d)"
      using processLog_parts(2) [OF step [unfolded s]] assms(3,4) by simp
    then have "c' = stack_at env to logs i" "OpcodeIndices d = cover (executing env to logs i) (Pc (logs ! i)) (OpcodeIndices b)"
      using P coverLog_step [OF assms(2) i, of env to "OpcodeIndices b"] by (simp_all add: s)
    then show "?P (Suc i) s'" using P by (auto simp: s pcs_cover covered_Suc)
  qed
  then show ?thesis by simp
qed

text \<open>
  Without the search for deployed contracts, the rounds before the first one that lacks a word, and after the first report,
  do not panic.
\<close>

lemma loop_prefix:
  fixes u :: "('db, 'z) backst_scheme"
  assumes "evm_calls logs" and "\<not> CheckDeployedContract opt \<or> (\<forall>l \<in> set logs. Op l \<noteq> op_RETURN)"
    and "Overflow (LastTxRes u) = []" and "n \<le> length logs"
    and "\<forall>i < n. operands_missing logs i \<longrightarrow> (\<exists>j < i. mismatch_at logs j)"
  shows "\<exists>cs' b'. foldR (processLog env tx (Some opt) logs) [0..<n] ([txTo tx], u) = Inr (cs', b') \<and>
    Overflow (LastTxRes b') = first_report env logs n"
proof -
  let ?P = "\<lambda>i (cs, b). (\<forall>to. txTo tx = Some to \<longrightarrow> UpdateCoverage opt \<longrightarrow> cs = stack_at env to logs (i - 1)) \<and>
    Overflow (LastTxRes b) = first_report env logs i"
  have "\<exists>s'. foldR (processLog env tx (Some opt) logs) [0..<n] ([txTo tx], u) = Inr s' \<and> ?P n s'"
  proof (rule foldR_upt_total)
    show "?P 0 ([txTo tx], u)" using assms(3) by (simp add: stack_at_0 first_report_def)
    fix i and s :: "callStack \<times> ('db, 'z) backst_scheme"
    assume n: "i < n" and P: "?P i s"
    have i: "i < length logs" using n assms(4) by simp
    obtain c b where s: "s = (c, b)" by (cases s)
    define v where "v = (if ExtractTimestamps opt then extractTimestamps (Stack (logs ! i)) b else b)"
    have "LastTxRes (extractTimestamps (Stack (logs ! i)) b) = LastTxRes b" by (subst extractTimestamps_frame) simp
    then have ov: "Overflow (LastTxRes v) = first_report env logs i" using P by (simp add: v_def s)
    have "\<exists>r. checkOverflow env logs i (LastTxRes v) = Inr r \<and> Overflow r = first_report env logs (Suc i)"
    proof (cases "Overflow (LastTxRes v) = []")
      case True
      then have "\<not> operands_missing logs i" using assms(5) n ov first_report_empty [of env logs i] by auto
      then show ?thesis using checkOverflow_round [OF i True, of env] ov True by (simp add: first_report_Suc)
    next
      case False
      then show ?thesis using ov by (simp add: checkOverflow_def first_report_Suc)
    qed
    then obtain r where r: "checkOverflow env logs i (LastTxRes v) = Inr r" "Overflow r = first_report env logs (Suc i)" by blast
    have ret: "\<not> CheckDeployedContract opt \<or> Op (logs ! i) \<noteq> op_RETURN" using assms(2) i by auto
    define w where "w = v\<lparr>LastTxRes := checkRevert (logs ! i) (checkAssertion (logs ! i) r)\<rparr>"
    have w: "Overflow (LastTxRes w) = first_report env logs (Suc i)" by (simp add: w_def r(2) checkRevert_def checkAssertion_def)
    have run: "processLog env tx (Some opt) logs i s =
        (if UpdateCoverage opt \<and> txTo tx \<noteq> None
         then bindR (coverLog env logs i (c, OpcodeIndices w)) (\<lambda>(callSt, m). Inr (callSt, w\<lparr>OpcodeIndices := m\<rparr>))
         else Inr (c, w))"
      using r(1) ret by (auto simp: processLog_def s Let_def v_def [symmetric] w_def [symmetric] bindR_def split: sum.splits prod.splits)
    show "\<exists>s'. processLog env tx (Some opt) logs i s = Inr s' \<and> ?P (Suc i) s'"
    proof (cases "UpdateCoverage opt \<and> txTo tx \<noteq> None")
      case False
      then show ?thesis unfolding run using w by auto
    next
      case True
      then obtain to where to: "txTo tx = Some to" "UpdateCoverage opt" by auto
      then show ?thesis unfolding run using P w coverLog_step [OF assms(1) i, of env to "OpcodeIndices w"]
        by (auto simp: s)
    qed
  qed
  then show ?thesis by auto
qed

text \<open>The whole loop panics or returns, as the trace says.\<close>

lemma loop_outcome:
  fixes u :: "('db, 'z) backst_scheme"
  assumes "evm_calls logs" and "\<not> CheckDeployedContract opt \<or> (\<forall>l \<in> set logs. Op l \<noteq> op_RETURN)"
    and "Overflow (LastTxRes u) = []"
  shows "if scan_panics logs
    then foldR (processLog env tx (Some opt) logs) [0..<length logs] ([txTo tx], u) = Inl IndexOutOfRange
    else \<exists>cs' b'. foldR (processLog env tx (Some opt) logs) [0..<length logs] ([txTo tx], u) = Inr (cs', b')"
proof (cases "scan_panics logs")
  case False
  then have "\<forall>i < length logs. operands_missing logs i \<longrightarrow> (\<exists>j < i. mismatch_at logs j)" by (auto simp: scan_panics_def)
  then show ?thesis using loop_prefix [OF assms order_refl, of env tx] False by auto
next
  case True
  define m where "m = (LEAST i. operands_missing logs i)"
  from True obtain i where i: "i < length logs" "operands_missing logs i" "\<forall>j < i. \<not> mismatch_at logs j"
    by (auto simp: scan_panics_def)
  have m: "operands_missing logs m" "m \<le> i" unfolding m_def using i(2) by (rule LeastI, rule Least_le)
  have "\<not> operands_missing logs k" if "k < m" for k using that unfolding m_def by (rule not_less_Least)
  then have "\<forall>k < m. operands_missing logs k \<longrightarrow> (\<exists>j < k. mismatch_at logs j)" by blast
  from loop_prefix [OF assms _ this, of env tx] m(2) i(1) obtain cs b where
    b: "foldR (processLog env tx (Some opt) logs) [0..<m] ([txTo tx], u) = Inr (cs, b)" "Overflow (LastTxRes b) = first_report env logs m"
    by auto
  have ml: "m < length logs" using m(2) i(1) by simp
  have empty: "first_report env logs m = []" using first_report_empty [of env logs m] i(3) m(2) by auto
  have upt: "[0..<length logs] = [0..<m] @ m # [Suc m..<length logs]" using ml
    by (metis upt_add_eq_append upt_conv_Cons le0 le_add_diff_inverse less_imp_le)
  let ?v = "if ExtractTimestamps opt then extractTimestamps (Stack (logs ! m)) b else b"
  have "LastTxRes (extractTimestamps (Stack (logs ! m)) b) = LastTxRes b" by (subst extractTimestamps_frame) simp
  then have "Overflow (LastTxRes ?v) = []" using b(2) empty by simp
  from checkOverflow_round [OF ml this, of env] m(1)
  have "processLog env tx (Some opt) logs m (cs, b) = Inl IndexOutOfRange" by (simp add: processLog_def Let_def)
  then show ?thesis using True b(1) unfolding upt by (simp add: foldR_append)
qed

section \<open>Properties\<close>

text \<open>
  C1: Which code a step is counted for. On a trace whose depth rises and falls by one, the program counters recorded for
  an address are those recorded before, those of the steps that execute the code of this address (the recipient's, or that of a callee,
  whatever contract called it), and nothing else, but for one case: the steps of the code that creates a
  contract are recorded as well, for the address that the memory offset of the creation happens to spell.
\<close>

theorem coverage_exact:
  assumes "processLogs env receipt tx (Some opt) b = Inr b'" and "StructLogger (LastTxRes b) = Some tracer"
    and "evm_calls (slLogs tracer)" and "UpdateCoverage opt" and "txTo tx = Some to"
  shows "pcs (OpcodeIndices b') a = pcs (OpcodeIndices b) a \<union>
    {Pc (slLogs tracer ! i) | i. i < length (slLogs tracer) \<and> code_at env to (slLogs tracer) i = Some a} \<union>
    {Pc (slLogs tracer ! i) | i j. i < length (slLogs tracer) \<and> entry (slLogs tracer) (Depth (slLogs tracer ! i)) i = Some j \<and>
       Op (slLogs tracer ! j) \<notin> {0xf1, 0xf2, 0xf4, 0xfa} \<and> BigToAddress env (operandB (slLogs tracer ! j)) = a}"
proof -
  from processLogs_loop [OF assms(1,2)] obtain u cs where u:
    "updateFromOutput env (Some opt) (slOutput tracer)
       (b\<lparr>LastTxRes := (LastTxRes b)\<lparr>Output := slOutput tracer, Receipt := Some receipt\<rparr>\<rparr>) = Inr u"
    "foldR (processLog env tx (Some opt) (slLogs tracer)) [0..<length (slLogs tracer)]
       ([txTo tx], u\<lparr>LastTxRes := (LastTxRes u)\<lparr>AssertionAtDepth := -1, RevertAtDepth := -1, Overflow := []\<rparr>\<rparr>) = Inr (cs, b')" .
  have "OpcodeIndices u = OpcodeIndices b" using same_rest_backst(2) [OF updateFromOutput_rest [OF u(1)]] by simp
  then have "pcs (OpcodeIndices b') a = pcs (OpcodeIndices b) a \<union> covered env to (slLogs tracer) (length (slLogs tracer)) a"
    using loop_coverage [OF u(2) assms(3,4,5), of a] by simp
  moreover have "executing env to logs i = a \<longleftrightarrow> code_at env to logs i = Some a \<or>
      (\<exists>j. entry logs (Depth (logs ! i)) i = Some j \<and> Op (logs ! j) \<notin> {0xf1, 0xf2, 0xf4, 0xfa} \<and>
         BigToAddress env (operandB (logs ! j)) = a)" for logs i
    by (auto simp: executing_def frame_addr_def code_at_def call_ops_def split: option.splits)
  ultimately show ?thesis unfolding covered_def by (simp only:) blast
qed

text \<open>
  C9: When the scan panics. On a trace of nested calls, and without the search for deployed contracts (as in fuzzing) or
  without a \<^verbatim>\<open>RETURN\<close> in the trace, the scan returns, unless an arithmetic step has fewer than two words on its
  stack (the contract underflows it; go-ethereum logs the step before it fails), or the next step has none, and no
  step before was reported as an overflow: then, and only then, the process panics with an index out of range.
\<close>

theorem trace_scan_total:
  assumes "StructLogger (LastTxRes b) = Some tracer" and "evm_calls (slLogs tracer)"
    and "\<not> CheckDeployedContract opt \<or> (\<forall>l \<in> set (slLogs tracer). Op l \<noteq> op_RETURN)"
    and "arg_inv (fmtAddress env) b" and "LastTxIn b \<noteq> None"
  shows "if \<exists>i < length (slLogs tracer). operands_missing (slLogs tracer) i \<and> (\<forall>j < i. \<not> mismatch_at (slLogs tracer) j)
    then processLogs env receipt tx (Some opt) b = Inl IndexOutOfRange
    else \<exists>b'. processLogs env receipt tx (Some opt) b = Inr b'"
proof -
  let ?b = "b\<lparr>LastTxRes := (LastTxRes b)\<lparr>Output := slOutput tracer, Receipt := Some receipt\<rparr>\<rparr>"
  have inv: "arg_inv (fmtAddress env) ?b" using assms(4) by (rule arg_inv_cong [THEN iffD1, rotated -1]) simp_all
  obtain u where u: "updateFromOutput env (Some opt) (slOutput tracer) ?b = Inr u"
    using updateFromOutput_total [OF inv] assms(5) by auto
  from loop_outcome [OF assms(2,3), of "u\<lparr>LastTxRes := (LastTxRes u)\<lparr>AssertionAtDepth := -1, RevertAtDepth := -1, Overflow := []\<rparr>\<rparr>" env tx]
  show ?thesis unfolding scan_panics_def [symmetric] using u assms(1)
    by (auto simp: processLogs_def Let_def callStack_Push_def split: if_splits)
qed

section \<open>Witnesses\<close>

text \<open>
  Three traces. In the first an addition wraps, a call reverts, and a creation runs code of its own; a timestamp is on the
  stack. In the second an addition runs out of gas in a call. In the third one underflows the stack.
\<close>

definition example_procenv :: procenv where
  "example_procenv = txenv.extend example_txenv (procenv.fields (\<lambda>_ _ h. (([], None), h)) (\<lambda>_. ''op'')
     word_of_int (\<lambda>a n. a + ucast n))"

definition example_logs :: "structLog list" where
  "example_logs =
     [\<lparr>Pc = 0, Op = op_ADD, Depth = 1, Stack = [9, 1, 2 ^ 256 - 1], Memory = []\<rparr>,
      \<lparr>Pc = 1, Op = 0xf1, Depth = 1, Stack = [9, 0], Memory = []\<rparr>,
      \<lparr>Pc = 0, Op = op_REVERT, Depth = 2, Stack = [0, 0], Memory = []\<rparr>,
      \<lparr>Pc = 2, Op = 0xf0, Depth = 1, Stack = [1500000000, 32, 64, 0], Memory = []\<rparr>,
      \<lparr>Pc = 0, Op = 0, Depth = 2, Stack = [], Memory = []\<rparr>,
      \<lparr>Pc = 3, Op = 0, Depth = 1, Stack = [1500000000], Memory = []\<rparr>]"

definition failing_logs :: "structLog list" where
  "failing_logs =
     [\<lparr>Pc = 0, Op = 0xf1, Depth = 1, Stack = [9, 0], Memory = []\<rparr>,
      \<lparr>Pc = 0, Op = op_ADD, Depth = 2, Stack = [2, 3], Memory = []\<rparr>,
      \<lparr>Pc = 1, Op = 0, Depth = 1, Stack = [0], Memory = []\<rparr>]"

definition underflow_logs :: "structLog list" where
  "underflow_logs = [\<lparr>Pc = 0, Op = op_ADD, Depth = 1, Stack = [3], Memory = []\<rparr>]"

abbreviation tracer_of :: "structLog list \<Rightarrow> structLogger" where
  "tracer_of logs \<equiv> \<lparr>slOutput = [], slLogs = logs\<rparr>"

definition traced_backend :: "structLog list \<Rightarrow> unit backst" where
  "traced_backend logs = (new_backend () ''m'' st0)\<lparr>LastTxRes := lastRes_zero\<lparr>StructLogger := Some (tracer_of logs)\<rparr>\<rparr>"

abbreviation example_backend :: "unit backst" where
  "example_backend \<equiv> traced_backend example_logs"

definition example_call :: ethTx where
  "example_call = \<lparr>txNonce = 0, txTo = Some 5, txValue = 0, txGas = 8000000, txPrice = 0, txData = [], txSig = None\<rparr>"

definition replay_options :: Options where
  "replay_options = \<lparr>UpdateCoverage = True, CheckDeployedContract = True, UpdateArgPool = False, ExtractTimestamps = True\<rparr>"

lemma traced: "StructLogger (LastTxRes (traced_backend logs)) = Some (tracer_of logs)"
  by (simp add: traced_backend_def)

lemma example_operators:
  "operators op_ADD = Some (\<lambda>a b. a + b)" "operators 0xf1 = None" "operators 0xf0 = None" "operators op_REVERT = None"
  "operators 0 = None"
  by (simp_all add: operators_def op_defs)

lemma less_6: "i < 6 \<longleftrightarrow> i = 0 \<or> i = 1 \<or> i = 2 \<or> i = 3 \<or> i = 4 \<or> i = (5 :: nat)"
  by auto

lemma example_wf: "evm_calls example_logs" "\<not> scan_panics example_logs" "\<forall>l \<in> set example_logs. Op l \<noteq> op_RETURN"
proof -
  have len: "length example_logs = 6" "i + 1 < 6 \<longleftrightarrow> i = 0 \<or> i = 1 \<or> i = 2 \<or> i = 3 \<or> i = (4 :: nat)" for i
    by (auto simp: example_logs_def)
  show "evm_calls example_logs" unfolding evm_calls_def len less_6 by (auto simp: example_logs_def)
  show "\<not> scan_panics example_logs" unfolding scan_panics_def operands_missing_def len less_6
    by (auto simp: example_logs_def example_operators)
  show "\<forall>l \<in> set example_logs. Op l \<noteq> op_RETURN" by (simp add: example_logs_def op_defs)
qed

lemma failing_wf: "evm_calls failing_logs" "\<not> scan_panics failing_logs" "\<forall>l \<in> set failing_logs. Op l \<noteq> op_RETURN"
proof -
  have len: "length failing_logs = 3" "i < 3 \<longleftrightarrow> i = 0 \<or> i = 1 \<or> i = (2 :: nat)" "i + 1 < 3 \<longleftrightarrow> i = 0 \<or> i = (1 :: nat)" for i
    by (auto simp: failing_logs_def)
  show "evm_calls failing_logs" unfolding evm_calls_def len by (auto simp: failing_logs_def)
  show "\<not> scan_panics failing_logs" unfolding scan_panics_def operands_missing_def len
    by (auto simp: failing_logs_def example_operators)
  show "\<forall>l \<in> set failing_logs. Op l \<noteq> op_RETURN" by (simp add: failing_logs_def op_defs)
qed

lemma traced_run:
  assumes "evm_calls logs" and "\<not> scan_panics logs" and "\<forall>l \<in> set logs. Op l \<noteq> op_RETURN"
  shows "\<exists>b'. processLogs example_procenv [] example_call (Some replay_options) (traced_backend logs) = Inr b'"
proof -
  let ?u = "(traced_backend logs)\<lparr>LastTxRes := (LastTxRes (traced_backend logs))\<lparr>Output := [], Receipt := Some [],
    AssertionAtDepth := -1, RevertAtDepth := -1, Overflow := []\<rparr>\<rparr>"
  obtain cs b' where "foldR (processLog example_procenv example_call (Some replay_options) logs)
      [0..<length logs] ([txTo example_call], ?u) = Inr (cs, b')"
    using loop_outcome [OF assms(1) disjI2 [OF assms(3)], of ?u example_procenv example_call replay_options] assms(2) by auto
  then show ?thesis
    unfolding processLogs_def traced by (simp add: updateFromOutput_def replay_options_def callStack_Push_def)
qed

lemmas example_run = traced_run [OF example_wf]

theorem trace_depths_witness:
  "\<exists>b'. processLogs example_procenv [] example_call (Some replay_options) example_backend = Inr b' \<and>
     AssertionAtDepth (LastTxRes b') = -1 \<and> RevertAtDepth (LastTxRes b') = 2"
proof -
  obtain b' where run: "processLogs example_procenv [] example_call (Some replay_options) example_backend = Inr b'"
    using example_run by blast
  have im: "{Depth l | l. l \<in> set logs \<and> Op l = opc} = Depth ` set (filter (\<lambda>l. Op l = opc) logs)" for logs opc
    by auto
  have "\<forall>l \<in> set (slLogs \<lparr>slOutput = [], slLogs = example_logs\<rparr>). 1 \<le> Depth l" by (simp add: example_logs_def)
  from trace_depths [OF run traced this]
  have "AssertionAtDepth (LastTxRes b') = min_depth assertOp example_logs"
    "RevertAtDepth (LastTxRes b') = min_depth op_REVERT example_logs" by simp_all
  moreover have "{Depth l | l. l \<in> set example_logs \<and> Op l = assertOp} = {}"
    unfolding im by (simp add: example_logs_def op_defs)
  moreover have "{Depth l | l. l \<in> set example_logs \<and> Op l = op_REVERT} = {2}"
    unfolding im by (simp add: example_logs_def op_defs)
  ultimately show ?thesis using run unfolding min_depth_def Let_def by auto
qed


theorem trace_timestamps_witness:
  "\<exists>b'. processLogs example_procenv [] example_call (Some replay_options) example_backend = Inr b' \<and>
     timestamppool_Contains 1500000000 (TimestampPool b')"
proof -
  obtain b' where run: "processLogs example_procenv [] example_call (Some replay_options) example_backend = Inr b'"
    using example_run by blast
  have "\<exists>l \<in> set example_logs. 1500000000 \<in> set (Stack l)" by (simp add: example_logs_def)
  then show ?thesis using run trace_timestamps [OF run traced, of 1500000000]
    by (simp add: replay_options_def is_time_def)
qed

theorem coverage_exact_witness:
  "\<exists>b'. processLogs example_procenv [] example_call (Some replay_options) example_backend = Inr b' \<and>
     pcs (OpcodeIndices b') 5 = {0, 1, 2, 3} \<and> pcs (OpcodeIndices b') 9 = {0} \<and> pcs (OpcodeIndices b') 64 = {0}"
proof -
  obtain b' where run: "processLogs example_procenv [] example_call (Some replay_options) example_backend = Inr b'"
    using example_run by blast
  have len: "length example_logs = 6" by (simp add: example_logs_def)
  have depths: "Depth (example_logs ! 0) = 1" "Depth (example_logs ! 1) = 1" "Depth (example_logs ! 2) = 2"
    "Depth (example_logs ! 3) = 1" "Depth (example_logs ! 4) = 2" "Depth (example_logs ! 5) = 1"
    by (simp_all add: example_logs_def)
  have entries: "entry example_logs 1 0 = None" "entry example_logs 1 1 = None" "entry example_logs 2 2 = Some 1"
    "entry example_logs 1 3 = None" "entry example_logs 2 4 = Some 3" "entry example_logs 1 5 = None"
    by (simp_all add: entry_def example_logs_def upt_rec)
  have ops: "Op (example_logs ! 1) = 0xf1" "Op (example_logs ! 3) = 0xf0"
    "BigToAddress example_procenv (operandB (example_logs ! 1)) = 9" "BigToAddress example_procenv (operandB (example_logs ! 3)) = 64"
    by (simp_all add: example_logs_def operandB_def example_procenv_def env.defs txenv.defs procenv.defs)
  have codes: "code_at example_procenv 5 example_logs 0 = Some 5" "code_at example_procenv 5 example_logs 1 = Some 5"
    "code_at example_procenv 5 example_logs 2 = Some 9" "code_at example_procenv 5 example_logs 3 = Some 5"
    "code_at example_procenv 5 example_logs 4 = None" "code_at example_procenv 5 example_logs 5 = Some 5"
    by (simp_all add: code_at_def depths entries ops call_ops_def del: One_nat_def)
  have pc: "Pc (example_logs ! 0) = 0" "Pc (example_logs ! 1) = 1" "Pc (example_logs ! 2) = 0" "Pc (example_logs ! 3) = 2"
    "Pc (example_logs ! 4) = 0" "Pc (example_logs ! 5) = 3"
    by (simp_all add: example_logs_def)
  have "UpdateCoverage replay_options" "txTo example_call = Some 5" "OpcodeIndices example_backend = Map.empty"
    by (simp_all add: replay_options_def example_call_def traced_backend_def)
  with coverage_exact [OF run traced, of 5] example_wf(1)
  have all: "pcs (OpcodeIndices b') a = {Pc (example_logs ! i) | i. i < 6 \<and> code_at example_procenv 5 example_logs i = Some a} \<union>
    {Pc (example_logs ! i) | i j. i < 6 \<and> entry example_logs (Depth (example_logs ! i)) i = Some j \<and>
       Op (example_logs ! j) \<notin> {0xf1, 0xf2, 0xf4, 0xfa} \<and> BigToAddress example_procenv (operandB (example_logs ! j)) = a}" for a
    by (simp add: len pcs_def)
  have six: "[0..<6] = [0, 1, 2, 3, 4, 5 :: nat]" by code_simp
  have images: "{Pc (example_logs ! i) | i. i < 6 \<and> code_at example_procenv 5 example_logs i = Some a} =
      set (map (\<lambda>i. Pc (example_logs ! i)) (filter (\<lambda>i. code_at example_procenv 5 example_logs i = Some a) [0..<6]))"
    "{Pc (example_logs ! i) | i j. i < 6 \<and> entry example_logs (Depth (example_logs ! i)) i = Some j \<and> R j} =
      set (map (\<lambda>i. Pc (example_logs ! i))
        (filter (\<lambda>i. case entry example_logs (Depth (example_logs ! i)) i of None \<Rightarrow> False | Some j \<Rightarrow> R j) [0..<6]))" for a R
    by (auto split: option.splits)
  have "pcs (OpcodeIndices b') 5 = {0, 1, 2, 3}" "pcs (OpcodeIndices b') 9 = {0}" "pcs (OpcodeIndices b') 64 = {0}"
    unfolding all images six
    by (auto simp add: codes pc depths entries ops simp del: One_nat_def)
  with run show ?thesis by blast
qed

definition called :: "unit backst \<Rightarrow> unit backst" where
  "called b = b\<lparr>LastTxIn := Some \<lparr>liContract = ''Token'', liMethod = ''mint'', liConst = False, liEther = 0, liInput = [],
     liOutArgs = [], liSender = 4097\<rparr>\<rparr>"

lemma called_ok: "arg_inv (fmtAddress example_procenv) (called (traced_backend logs))" "LastTxIn (called (traced_backend logs)) \<noteq> None"
  "StructLogger (LastTxRes (called (traced_backend logs))) = Some (tracer_of logs)"
proof -
  have "arg_inv (fmtAddress example_procenv) (start_with (\<lambda>n. n))" by (rule arg_inv_start_with)
  then show "arg_inv (fmtAddress example_procenv) (called (traced_backend logs))"
    by (rule arg_inv_cong [THEN iffD1, rotated -1])
      (simp_all add: called_def traced_backend_def new_backend_def utils_init_def utilst.defs genst.defs)
qed (simp_all add: called_def traced)

theorem trace_scan_total_witness:
  "(\<exists>b'. processLogs example_procenv [] example_call (Some replay_options) (called example_backend) = Inr b') \<and>
   processLogs example_procenv [] example_call (Some replay_options) (called (traced_backend underflow_logs)) = Inl IndexOutOfRange"
proof
  have "\<not> (\<exists>i < length example_logs. operands_missing example_logs i \<and> (\<forall>j < i. \<not> mismatch_at example_logs j))"
    using example_wf(2) by (simp add: scan_panics_def)
  then show "\<exists>b'. processLogs example_procenv [] example_call (Some replay_options) (called example_backend) = Inr b'"
    using trace_scan_total [OF called_ok(3) _ _ called_ok(1,2), of example_logs replay_options "[]" example_call] example_wf(1,3)
    by simp
  have "evm_calls underflow_logs" "\<forall>l \<in> set underflow_logs. Op l \<noteq> op_RETURN"
    "\<exists>i < length underflow_logs. operands_missing underflow_logs i \<and> (\<forall>j < i. \<not> mismatch_at underflow_logs j)"
    by (simp_all add: evm_calls_def underflow_logs_def op_defs operands_missing_def operators_def)
  then show "processLogs example_procenv [] example_call (Some replay_options) (called (traced_backend underflow_logs)) = Inl IndexOutOfRange"
    using trace_scan_total [OF called_ok(3) _ _ called_ok(1,2), of underflow_logs replay_options "[]" example_call] by simp
qed

end
