(* ===== verification/Runs.thy ===== *)
theory Runs
  imports Prelude
begin

text \<open>
  Computations that may also not return: the loop of the generator that draws amounts and the
  recursion of the heuristics. \<open>None\<close> is a computation that runs forever, \<open>Some (Inl e)\<close> one that
  panics, \<open>Some (Inr x)\<close> one that returns.
\<close>

type_synonym 'a run = "'a res option"

definition bindT :: "'a run \<Rightarrow> ('a \<Rightarrow> 'b run) \<Rightarrow> 'b run" where
  "bindT m f = Option.bind m (\<lambda>r. case r of Inl e \<Rightarrow> Some (Inl e) | Inr x \<Rightarrow> f x)"

lemma bindT_simps [simp, res_simps]:
  "bindT None f = None"
  "bindT (Some (Inl e)) f = Some (Inl e)"
  "bindT (Some (Inr x)) f = f x"
  by (simp_all add: bindT_def)

lemma bindT_eq_Some_Inr: "bindT m f = Some (Inr y) \<longleftrightarrow> (\<exists>x. m = Some (Inr x) \<and> f x = Some (Inr y))"
  by (cases m rule: option.exhaust [case_names None Some]; simp) (auto simp: bindT_def split: sum.splits)

lemma bindT_eq_None: "bindT m f = None \<longleftrightarrow> m = None \<or> (\<exists>x. m = Some (Inr x) \<and> f x = None)"
  by (auto simp: bindT_def bind_eq_None_conv split: sum.splits)

lemma bindT_assoc: "bindT (bindT m f) g = bindT m (\<lambda>x. bindT (f x) g)"
  by (cases m rule: option.exhaust [case_names None Some]; simp) (auto simp: bindT_def split: sum.splits)

lemma bindT_InrE:
  assumes "bindT m f = Some (Inr y)"
  obtains x where "m = Some (Inr x)" and "f x = Some (Inr y)"
  using assms by (auto simp: bindT_eq_Some_Inr)

text \<open>
  A computation that panics with an index out of range, where \<open>faulty\<close> says that such a panic is to be expected.
  What does not crash has parts that do not crash.
\<close>

definition crashes :: "bool \<Rightarrow> 'a run \<Rightarrow> bool" where
  "crashes faulty m \<longleftrightarrow> faulty \<and> m = Some (Inl IndexOutOfRange)"

lemma crashes_simps [simp]:
  "\<not> crashes faulty (Some (Inr x))" "\<not> crashes faulty None" "\<not> crashes False m"
  "crashes faulty (Some (Inl e)) \<longleftrightarrow> faulty \<and> e = IndexOutOfRange"
  by (auto simp: crashes_def)

lemma crashes_bindT: "crashes faulty (bindT m f) \<longleftrightarrow> crashes faulty m \<or> (\<exists>x. m = Some (Inr x) \<and> crashes faulty (f x))"
  by (cases m rule: option.exhaust [case_names None Some]; simp) (auto simp: crashes_def bindT_def split: sum.splits)

lemma crashes_part: "\<not> crashes faulty (bindT m f) \<Longrightarrow> \<not> crashes faulty m"
  by (simp add: crashes_bindT)

lemma bindT_mono [partial_function_mono]:
  assumes "mono_option B" and "\<And>y. mono_option (\<lambda>f. C y f)"
  shows "mono_option (\<lambda>f. bindT (B f) (\<lambda>y. C y f))"
proof -
  have "mono_option (\<lambda>f. case r of Inl e \<Rightarrow> Some (Inl e) | Inr x \<Rightarrow> C x f)" for r
    using assms(2) by (cases r) (auto intro: option.const_mono)
  then show ?thesis unfolding bindT_def using assms(1) by (intro bind_mono)
qed

text \<open>A loop over a slice whose body may not return.\<close>

fun foldT :: "('a \<Rightarrow> 's \<Rightarrow> 's run) \<Rightarrow> 'a list \<Rightarrow> 's \<Rightarrow> 's run" where
  "foldT f [] s = Some (Inr s)"
| "foldT f (x # xs) s = bindT (f x s) (foldT f xs)"

lemma foldT_returns:
  assumes "P s" and "\<not> crashes faulty (foldT f xs s)"
    and "\<And>x s. x \<in> set xs \<Longrightarrow> P s \<Longrightarrow> \<not> crashes faulty (f x s) \<Longrightarrow> \<exists>s'. f x s = Some (Inr s') \<and> P s'"
  shows "\<exists>s'. foldT f xs s = Some (Inr s') \<and> P s'"
  using assms
proof (induction xs arbitrary: s)
  case (Cons x xs)
  have "\<not> crashes faulty (f x s)" using Cons.prems(2) by (simp add: crashes_bindT)
  then obtain t where t: "f x s = Some (Inr t)" "P t" using Cons.prems(1,3) by fastforce
  then have "\<not> crashes faulty (foldT f xs t)" using Cons.prems(2) by simp
  with Cons.IH [OF t(2) this] Cons.prems(3) t(1) show ?case by simp
qed simp

end
