(* ===== verification/Generator.thy ===== *)
theory Generator
  imports CoverageTrace Runs
begin

text \<open>
  \<^verbatim>\<open>utils/generator.go\<close>: a random transaction under a hint, and the loop that draws an amount the
  sender can pay.
\<close>

section \<open>Data\<close>

text \<open>
  A hint: empty strings, a nil slice (\<open>None\<close>), a nil pointer (0 or \<open>None\<close>) leave the choice to the
  generator. Addresses behind pointers are never updated, so they are values.
\<close>

record Hint =
  hContract :: string
  hMethod :: string
  hArgs :: "gval list option"
  hAmount :: bigptr
  hSender :: "address option"
  hFallback :: bool

text \<open>
  Further parameters, of go-ethereum: \<^verbatim>\<open>abi.ABI.Pack\<close> (\<open>None\<close> is an error; big integers are packed
  by their value) and the balance and nonce of an account of the world state.
\<close>

record 'db genenv = procenv +
  Pack :: "abi \<Rightarrow> string \<Rightarrow> gval list \<Rightarrow> bigs \<Rightarrow> bytes option"
  GetBalance :: "'db \<Rightarrow> address \<Rightarrow> int"
  GetNonce :: "'db \<Rightarrow> address \<Rightarrow> 64 word"

section \<open>Operations\<close>

text \<open>
  The loop of \<^verbatim>\<open>getRandomAmountFromAddress\<close>: draw until \<^verbatim>\<open>ret.Cmp(balance) >= 1\<close> fails. It may
  run forever.
\<close>

partial_function (option) drawAmount :: "int \<Rightarrow> 'z argst_scheme \<Rightarrow> (bigptr \<times> 'z argst_scheme) run" where
  [code]: "drawAmount balance st =
     (case ArgPool_NextBigInt st of
        Inl e \<Rightarrow> Some (Inl e)
      | Inr (ret, st) \<Rightarrow>
          (case big_get (bigs st) ret of
             Inl e \<Rightarrow> Some (Inl e)
           | Inr v \<Rightarrow> if v > balance then drawAmount balance st else Some (Inr (ret, st))))"

definition getRandomAmountFromAddress ::
  "('db, 'e) genenv_scheme \<Rightarrow> address \<Rightarrow> ('db, 'z) backst_scheme \<Rightarrow> (bigptr \<times> ('db, 'z) backst_scheme) run" where
  "getRandomAmountFromAddress env addr backend = drawAmount (GetBalance env (StateDB backend) addr) backend"

definition GetCallBytecode ::
  "('db, 'e) genenv_scheme \<Rightarrow> string \<Rightarrow> string \<Rightarrow> gval list \<Rightarrow> string \<Rightarrow> 'z utilst_scheme \<Rightarrow> (bytes \<times> 'z utilst_scheme) res" where
  "GetCallBytecode env contract m args metadata st =
     bindR (GetContractABI env contract metadata st) (\<lambda>(evmABI, st).
       case Pack env evmABI m args (bigs st) of
         None \<Rightarrow> Inl (Panic ''Error generating bytecode for method call'')
       | Some input \<Rightarrow> Inr (input, st))"

text \<open>The parts of \<^verbatim>\<open>GenTransaction\<close>: target, arguments, sender, amount.\<close>

definition chooseContract :: "Hint option \<Rightarrow> ('db, 'z) backst_scheme \<Rightarrow> (string \<times> ('db, 'z) backst_scheme) res" where
  "chooseContract hint backend =
     (case hint of
        Some h \<Rightarrow> if hContract h \<noteq> [] then Inr (hContract h, backend) else GetRandomContract backend
      | None \<Rightarrow> GetRandomContract backend)"

definition chooseMethod :: "Hint option \<Rightarrow> string \<Rightarrow> ('db, 'z) backst_scheme \<Rightarrow> (string \<times> ('db, 'z) backst_scheme) res" where
  "chooseMethod hint contract backend =
     (case hint of
        Some h \<Rightarrow> if hMethod h \<noteq> [] then Inr (hMethod h, backend) else GetRandomMethod contract backend
      | None \<Rightarrow> GetRandomMethod contract backend)"

definition contractAddr :: "string \<Rightarrow> ('db, 'z) backst_scheme \<Rightarrow> address res" where
  "contractAddr contract backend =
     (case DeployedContracts backend contract of
        None \<Rightarrow> Inl NilDeref
      | Some c \<Rightarrow> index (Addresses c) 0)"

definition chooseSender ::
  "('db, 'e) genenv_scheme \<Rightarrow> Hint \<Rightarrow> ('db, 'z) backst_scheme \<Rightarrow> ((address \<times> keyptr) \<times> ('db, 'z) backst_scheme) res" where
  "chooseSender env h backend =
     (case hSender h of
        Some a \<Rightarrow> bindR (GetKeyFromAddress a backend) (\<lambda>k. Inr ((a, k), backend))
      | None \<Rightarrow> bindR (GetRandAccount env (backMetadata backend) backend) (\<lambda>(acc, backend).
          Inr ((Address acc, Key acc), backend)))"

text \<open>A new zero in any case; the hint's amount if there is one; a random one for a payable method.\<close>

definition chooseAmount ::
  "('db, 'e) genenv_scheme \<Rightarrow> Hint \<Rightarrow> string \<Rightarrow> string \<Rightarrow> address \<Rightarrow> ('db, 'z) backst_scheme \<Rightarrow>
   (bigptr \<times> ('db, 'z) backst_scheme) run" where
  "chooseAmount env h contract m sender backend =
     (let (amount, heap) = big_new 0 (bigs backend);
          backend = backend\<lparr>bigs := heap\<rparr> in
      if hAmount h \<noteq> 0 then Some (Inr (hAmount h, backend))
      else if IsPayable contract m backend then getRandomAmountFromAddress env sender backend
      else Some (Inr (amount, backend)))"

text \<open>
  The result is a pointer to the signed transaction, nil when signing fails (the error is
  dropped); the hint behind its pointer is updated.
\<close>

definition GenTransaction ::
  "('db, 'e) genenv_scheme \<Rightarrow> Hint option \<Rightarrow> ('db, 'z) backst_scheme \<Rightarrow>
   ((ethTx option \<times> Hint) \<times> ('db, 'z) backst_scheme) run" where
  "GenTransaction env hint backend =
     bindT (Some (chooseContract hint backend)) (\<lambda>(contract, backend).
     bindT (Some (chooseMethod hint contract backend)) (\<lambda>(m, backend).
     case hint of None \<Rightarrow> Some (Inl NilDeref) | Some h \<Rightarrow>
     let m = (if hFallback h then [] else m) in
     bindT (Some (contractAddr contract backend)) (\<lambda>contractAddress.
     bindT (Some (GetContractMethod env contract m (backMetadata backend) backend)) (\<lambda>(methodABI, backend).
     bindT (Some (case hArgs h of Some args \<Rightarrow> Inr (args, backend)
                  | None \<Rightarrow> ConstructArgs (Inputs methodABI) backend)) (\<lambda>(args, backend).
     bindT (Some (GetCallBytecode env contract m args (backMetadata backend) backend)) (\<lambda>(input, backend).
     bindT (Some (chooseSender env h backend)) (\<lambda>((sender, key), backend).
     bindT (chooseAmount env h contract m sender backend) (\<lambda>(amount, backend).
     let h = h\<lparr>hContract := contract, hMethod := m, hAmount := amount\<rparr> in
     bindT (Some (big_get (bigs backend) amount)) (\<lambda>value.
     let tx = \<lparr>txNonce = GetNonce env (StateDB backend) sender, txTo = Some contractAddress, txValue = value,
               txGas = maxGasPool, txPrice = 0, txData = input, txSig = None\<rparr>;
         signed_tx = SignTx env tx (keys backend ! key);
         backend = backend\<lparr>LastTxIn := Some \<lparr>liContract = contract, liMethod = m, liConst = Const methodABI,
           liEther = amount, liInput = args, liOutArgs = Outputs methodABI, liSender = sender\<rparr>\<rparr> in
     Some (Inr ((signed_tx, h), backend)))))))))))"

section \<open>The loop over the amounts\<close>

text \<open>Position and content of the pool of big integers.\<close>

definition big_idx :: "'z argst_scheme \<Rightarrow> nat" where
  "big_idx A = (case pools A (BigIntPool A) of None \<Rightarrow> 0 | Some p \<Rightarrow> p_idx p)"

definition big_advance :: "'z argst_scheme \<Rightarrow> 'z argst_scheme" where
  "big_advance A = (case pools A (BigIntPool A) of None \<Rightarrow> A
     | Some p \<Rightarrow> set_pool (BigIntPool A) (p\<lparr>p_idx := (p_idx p + 1) mod length (p_storage p)\<rparr>) A)"

lemma big_advance_pools: "\<exists>f. big_advance A = A\<lparr>pools := f\<rparr>"
proof (cases "pools A (BigIntPool A)")
  case None
  then have "big_advance A = A\<lparr>pools := pools A\<rparr>" by (simp add: big_advance_def)
  then show ?thesis by blast
qed (auto simp: big_advance_def set_pool_def)

lemma NextBigInt_step:
  assumes "arg_inv fa A" and "bigptrs A \<noteq> []"
  shows "ArgPool_NextBigInt A = Inr (bigptrs A ! big_idx A, big_advance A)"
    and "big_idx A < length (bigptrs A)"
    and "arg_inv fa (big_advance A)" and "contents (big_advance A) = contents A"
    and "big_idx (big_advance A) = (big_idx A + 1) mod length (bigptrs A)"
proof -
  obtain p where p: "pools A (BigIntPool A) = Some p" "bigpool_ok p"
    using assms(1) by (auto simp: arg_inv_def)
  have len: "length (bigptrs A) = length (p_storage p)" by (simp add: bigptrs_def p(1))
  then have ne: "p_storage p \<noteq> []" using assms(2) by auto
  then have idx: "p_idx p < length (p_storage p)" using p(2) by (simp add: bigpool_ok_def)
  have "is_IBigInt (p_storage p ! p_idx p)" using p(2) nth_mem [OF idx] unfolding bigpool_ok_def by blast
  then obtain b where b: "p_storage p ! p_idx p = IBigInt b" by (auto simp: is_IBigInt_def)
  have "bigptrs A ! big_idx A = b" using idx b by (simp add: bigptrs_def big_idx_def p(1))
  then have "ArgPool_NextBigInt A = Inr (bigptrs A ! big_idx A, big_advance A)"
    using ne idx b by (simp add: ArgPool_NextBigInt_def pool_at_def p(1) big_advance_def ring_Next_def)
  then show nxt: "ArgPool_NextBigInt A = Inr (bigptrs A ! big_idx A, big_advance A)" .
  show "big_idx A < length (bigptrs A)" using idx by (simp add: big_idx_def p(1) len)
  show "arg_inv fa (big_advance A)" "contents (big_advance A) = contents A"
    using ArgPool_NextBigInt_cases [OF assms(1)] assms(2) nxt by auto
  show "big_idx (big_advance A) = (big_idx A + 1) mod length (bigptrs A)"
    by (simp add: big_idx_def big_advance_def p(1) len set_pool_def)
qed

text \<open>The loop stops at the first pooled amount, from the reader on, that is within the balance.\<close>

lemma contents_bigs: "contents A = contents B \<Longrightarrow> bigptrs A = bigptrs B \<and> bigs A = bigs B"
  by (simp add: contents_def)

lemma drawAmount_first:
  fixes A :: "'z argst_scheme"
  assumes "arg_inv fa A" and "bigptrs A \<noteq> []"
    and "\<forall>e < d. \<exists>v. big_get (bigs A) (bigptrs A ! ((big_idx A + e) mod length (bigptrs A))) = Inr v \<and> v > balance"
    and "big_get (bigs A) (bigptrs A ! ((big_idx A + d) mod length (bigptrs A))) = Inr w" and "w \<le> balance"
  shows "\<exists>A'. drawAmount balance A = Some (Inr (bigptrs A ! ((big_idx A + d) mod length (bigptrs A)), A')) \<and>
    arg_inv fa A' \<and> contents A' = contents A \<and> (\<exists>f. A' = A\<lparr>pools := f\<rparr>)"
  using assms
proof (induction d arbitrary: A)
  case 0
  note st = NextBigInt_step [OF "0.prems"(1,2)]
  have "big_get (bigs (big_advance A)) (bigptrs A ! big_idx A) = Inr w"
    using "0.prems"(4) st(2) contents_bigs [OF st(4)] by simp
  then have "drawAmount balance A = Some (Inr (bigptrs A ! big_idx A, big_advance A))"
    using "0.prems"(5) st by (subst drawAmount.simps) simp
  moreover have "bigptrs A ! ((big_idx A + 0) mod length (bigptrs A)) = bigptrs A ! big_idx A" using st(2) by simp
  ultimately show ?case using st big_advance_pools by (intro exI [of _ "big_advance A"]) simp
next
  case (Suc d)
  note st = NextBigInt_step [OF Suc.prems(1,2)]
  note same = contents_bigs [OF st(4)]
  let ?n = "length (bigptrs A)"
  obtain v where v: "big_get (bigs A) (bigptrs A ! big_idx A) = Inr v" "v > balance"
    using Suc.prems(3) st(2) by (metis add.right_neutral mod_less zero_less_Suc)
  have pos: "(big_idx (big_advance A) + e) mod ?n = (big_idx A + Suc e) mod ?n" for e
    by (simp add: st(5) mod_simps)
  have "drawAmount balance A = drawAmount balance (big_advance A)"
    using st(1) v same by (subst drawAmount.simps) simp
  moreover have "\<exists>A'. drawAmount balance (big_advance A) =
      Some (Inr (bigptrs (big_advance A) ! ((big_idx (big_advance A) + d) mod length (bigptrs (big_advance A))), A')) \<and>
      arg_inv fa A' \<and> contents A' = contents (big_advance A) \<and> (\<exists>f. A' = (big_advance A)\<lparr>pools := f\<rparr>)"
  proof (rule Suc.IH [OF st(3)])
    show "bigptrs (big_advance A) \<noteq> []" using same Suc.prems(2) by simp
    show "\<forall>e < d. \<exists>v. big_get (bigs (big_advance A)) (bigptrs (big_advance A) !
        ((big_idx (big_advance A) + e) mod length (bigptrs (big_advance A)))) = Inr v \<and> v > balance"
      unfolding pos conjunct1 [OF same] conjunct2 [OF same] using Suc.prems(3) by blast
    show "big_get (bigs (big_advance A)) (bigptrs (big_advance A) !
        ((big_idx (big_advance A) + d) mod length (bigptrs (big_advance A)))) = Inr w"
      using Suc.prems(4) by (simp add: same pos)
  qed (rule Suc.prems(5))
  moreover obtain g where "big_advance A = A\<lparr>pools := g\<rparr>" using big_advance_pools by blast
  then have "(\<exists>f. A' = (big_advance A)\<lparr>pools := f\<rparr>) \<Longrightarrow> \<exists>f. A' = A\<lparr>pools := f\<rparr>" for A' by auto
  ultimately show ?case using st(4) by (auto simp: same pos)
qed

lemma drawAmount_returns:
  fixes A :: "'z argst_scheme"
  assumes "arg_inv fa A" and "\<forall>p \<in> set (bigptrs A). \<exists>v. big_get (bigs A) p = Inr v"
    and "p \<in> set (bigptrs A)" and "big_get (bigs A) p = Inr v" and "v \<le> balance"
  obtains q w A' where "drawAmount balance A = Some (Inr (q, A'))" and "q \<in> set (bigptrs A)"
    and "big_get (bigs A) q = Inr w" and "w \<le> balance"
    and "arg_inv fa A'" and "contents A' = contents A" and "\<exists>f. A' = A\<lparr>pools := f\<rparr>"
proof -
  let ?n = "length (bigptrs A)"
  let ?at = "\<lambda>d. bigptrs A ! ((big_idx A + d) mod ?n)"
  have ne: "bigptrs A \<noteq> []" using assms(3) by auto
  let ?stop = "\<lambda>d. \<exists>w. big_get (bigs A) (?at d) = Inr w \<and> w \<le> balance"
  obtain j where j: "j < ?n" "bigptrs A ! j = p" using assms(3) by (auto simp: in_set_conv_nth)
  obtain i where "(big_idx A + i) mod ?n = j" using cyclic_hit [OF j(1)] by blast
  then have ex: "?stop i" using j(2) assms(4,5) by auto
  define d where "d = (LEAST d. ?stop d)"
  obtain w where w: "big_get (bigs A) (?at d) = Inr w" "w \<le> balance"
    using LeastI [of ?stop, OF ex] unfolding d_def by blast
  have mem: "?at e \<in> set (bigptrs A)" for e using ne by simp
  have "\<exists>v. big_get (bigs A) (?at e) = Inr v \<and> v > balance" if e: "e < d" for e
  proof -
    obtain v where v: "big_get (bigs A) (?at e) = Inr v" using assms(2) mem by blast
    moreover have "\<not> ?stop e" using e not_less_Least unfolding d_def by blast
    ultimately show ?thesis using not_le by blast
  qed
  with drawAmount_first [OF assms(1) ne _ w] mem [of d] w that show ?thesis by blast
qed

text \<open>With every pooled amount above the balance it never stops.\<close>

lemma drawAmount_None:
  fixes A :: "'z argst_scheme"
  assumes "drawAmount balance A = Some r" and "arg_inv fa A" and "bigptrs A \<noteq> []"
    and "\<forall>p \<in> set (bigptrs A). \<exists>v. big_get (bigs A) p = Inr v \<and> v > balance"
  shows False
proof -
  let ?stuck = "\<lambda>A :: 'z argst_scheme. arg_inv fa A \<and> bigptrs A \<noteq> [] \<and>
    (\<forall>p \<in> set (bigptrs A). \<exists>v. big_get (bigs A) p = Inr v \<and> v > balance)"
  have "balance = balance \<longrightarrow> \<not> ?stuck A"
  proof (rule drawAmount.raw_induct [where P = "\<lambda>b A r. b = balance \<longrightarrow> \<not> ?stuck A", OF _ assms(1)])
    fix loop :: "int \<Rightarrow> 'z argst_scheme \<Rightarrow> (bigptr \<times> 'z argst_scheme) run" and b r and A :: "'z argst_scheme"
    assume IH: "\<And>b A r. loop b A = Some r \<Longrightarrow> b = balance \<longrightarrow> \<not> ?stuck A"
      and body: "(case ArgPool_NextBigInt A of
        Inl e \<Rightarrow> Some (Inl e)
      | Inr (ret, st) \<Rightarrow>
          (case big_get (bigs st) ret of
             Inl e \<Rightarrow> Some (Inl e)
           | Inr v \<Rightarrow> if v > b then loop b st else Some (Inr (ret, st)))) = Some r"
    show "b = balance \<longrightarrow> \<not> ?stuck A"
    proof (intro impI notI)
      assume b: "b = balance" and A: "?stuck A"
      note st = NextBigInt_step [of fa A]
      have "bigptrs A ! big_idx A \<in> set (bigptrs A)" using A st(2) by simp
      then obtain v where "big_get (bigs A) (bigptrs A ! big_idx A) = Inr v" "v > balance" using A by blast
      then have "loop b (big_advance A) = Some r"
        using body A b st(1,4) contents_bigs [of "big_advance A" A] by simp
      then have "\<not> ?stuck (big_advance A)" using IH b by blast
      then show False using A st(3,4) contents_bigs [of "big_advance A" A] by simp
    qed
  qed
  then show ?thesis using assms by blast
qed

end
