(* ===== verification/GeneratorResults.thy ===== *)
theory GeneratorResults
  imports Generator
begin

text \<open>
  What \<^verbatim>\<open>GenTransaction\<close> relies on and what it returns: the invariant of a chain that is ready for
  fuzzing, the frames of the generator's parts, and that a transaction is always generated.
\<close>

section \<open>Frames\<close>

lemma pool_update_more:
  fixes A :: "'z genst_scheme"
  shows "genst.more (A\<lparr>Int8Pool := p8\<rparr>) = genst.more A" "genst.more (A\<lparr>Int16Pool := p16\<rparr>) = genst.more A"
    "genst.more (A\<lparr>Int32Pool := p32\<rparr>) = genst.more A" "genst.more (A\<lparr>Int64Pool := p64\<rparr>) = genst.more A"
    "genst.more (A\<lparr>Bytes32Pool := pb\<rparr>) = genst.more A" "genst.more (A\<lparr>StringPool := ps\<rparr>) = genst.more A"
    "genst.more (A\<lparr>pools := f\<rparr>) = genst.more A" "genst.more (A\<lparr>bigs := h\<rparr>) = genst.more A"
    "genst.more (A\<lparr>rnd := r\<rparr>) = genst.more A"
  by (cases A; simp)+

text \<open>Building arguments touches the pools and the random source only.\<close>

lemma draw_Int_more: "genst.more (snd (draw_Int st)) = genst.more st"
  by (simp add: draw_Int_def rand_Int_def pool_update_more)

lemma next_more:
  fixes A :: "'z genst_scheme"
  shows "ArgPool_NextInt8 A = Inr (i8, A') \<Longrightarrow> genst.more A' = genst.more A"
    "ArgPool_NextInt16 A = Inr (i16, A') \<Longrightarrow> genst.more A' = genst.more A"
    "ArgPool_NextInt32 A = Inr (i32, A') \<Longrightarrow> genst.more A' = genst.more A"
    "ArgPool_NextInt64 A = Inr (i64, A') \<Longrightarrow> genst.more A' = genst.more A"
    "ArgPool_NextBytes32 A = Inr (b, A') \<Longrightarrow> genst.more A' = genst.more A"
    "ArgPool_NextString A = Inr (s, A') \<Longrightarrow> genst.more A' = genst.more A"
    "ArgPool_NextAddress A = Inr (a, A') \<Longrightarrow> genst.more A' = genst.more A"
    "ArgPool_NextBigInt A = Inr (p, A') \<Longrightarrow> genst.more A' = genst.more A"
proof -
  show "ArgPool_NextInt8 A = Inr (i8, A') \<Longrightarrow> genst.more A' = genst.more A"
    by (auto simp: ArgPool_NextInt8_def pool_update_more elim!: bindR_InrE)
  show "ArgPool_NextInt16 A = Inr (i16, A') \<Longrightarrow> genst.more A' = genst.more A"
    by (auto simp: ArgPool_NextInt16_def pool_update_more elim!: bindR_InrE)
  show "ArgPool_NextInt32 A = Inr (i32, A') \<Longrightarrow> genst.more A' = genst.more A"
    by (auto simp: ArgPool_NextInt32_def pool_update_more elim!: bindR_InrE)
  show "ArgPool_NextInt64 A = Inr (i64, A') \<Longrightarrow> genst.more A' = genst.more A"
    by (auto simp: ArgPool_NextInt64_def pool_update_more elim!: bindR_InrE)
  show "ArgPool_NextBytes32 A = Inr (b, A') \<Longrightarrow> genst.more A' = genst.more A"
    by (auto simp: ArgPool_NextBytes32_def pool_update_more elim!: bindR_InrE)
  show "ArgPool_NextString A = Inr (s, A') \<Longrightarrow> genst.more A' = genst.more A"
    by (auto simp: ArgPool_NextString_def pool_update_more elim!: bindR_InrE)
  show "ArgPool_NextAddress A = Inr (a, A') \<Longrightarrow> genst.more A' = genst.more A"
    unfolding ArgPool_NextAddress_def
    by (elim bindR_InrE) (auto simp: pool_update_more set_pool_def split: prod.splits option.splits iface.splits)
  show "ArgPool_NextBigInt A = Inr (p, A') \<Longrightarrow> genst.more A' = genst.more A"
    unfolding ArgPool_NextBigInt_def
    by (elim bindR_InrE) (auto simp: pool_update_more set_pool_def split: prod.splits option.splits iface.splits)
qed

lemma repeat_more:
  assumes "repeatR n f st = Inr (vs, st')" and "\<And>u v u'. f u = Inr (v, u') \<Longrightarrow> genst.more u' = genst.more u"
  shows "genst.more st' = genst.more st"
proof (rule repeatR_invariant [where P = "\<lambda>u. genst.more u = genst.more st" and Q = "\<lambda>_. True", OF assms(1), THEN conjunct1])
  show "genst.more u' = genst.more st \<and> True" if "genst.more u = genst.more st" "f u = Inr (v, u')" for u v u'
    using assms(2) [OF that(2)] that(1) by simp
qed simp

lemma fill_more: "fillRecursively T st = Inr (v, st') \<Longrightarrow> genst.more st' = genst.more st"
proof (induction T arbitrary: st v st')
  case (ArrayType n T)
  show ?case
  proof (cases "ArrayType n T = Bytes32Type")
    case True
    then have "fillRecursively (ArrayType n T) st = ret_val bytes32_val (ArgPool_NextBytes32 st)"
      by (subst fillRecursively.simps(13)) simp
    then have "ret_val bytes32_val (ArgPool_NextBytes32 st) = Inr (v, st')" using ArrayType.prems by (simp only:)
    then show ?thesis by (auto simp: ret_val_Inr dest: next_more(5))
  next
    case False
    then obtain vs where "repeatR n (fillRecursively T) st = Inr (vs, st')" using ArrayType.prems by (auto simp: ret_val_Inr)
    then show ?thesis by (rule repeat_more) (rule ArrayType.IH)
  qed
next
  case (SliceType T)
  obtain x u where d: "draw_Int st = (x, u)" by fastforce
  then have "genst.more u = genst.more st" using draw_Int_more [of st] by simp
  moreover obtain vs where "repeatR (x mod 16 + 1) (fillRecursively T) u = Inr (vs, st')"
    using SliceType.prems d by (auto simp: ret_val_Inr Let_def)
  then have "genst.more st' = genst.more u" by (rule repeat_more) (rule SliceType.IH)
  ultimately show ?case by simp
next
  case BoolType
  obtain x u where d: "draw_Int st = (x, u)" by fastforce
  then show ?case using BoolType draw_Int_more [of st] by (auto split: if_splits)
qed (auto simp: ret_val_Inr dest: next_more)

lemma construct_more: "ConstructArgs Ts st = Inr (vs, st') \<Longrightarrow> genst.more st' = genst.more st"
proof (induction Ts arbitrary: st vs)
  case (Cons T Ts)
  then show ?case by (auto elim!: bindR_InrE dest!: fill_more split: prod.splits)
qed simp

text \<open>What is beside the pools decides all of the chain's state.\<close>

lemma genst_more_backst:
  fixes A :: "('db, 'z) backst_scheme"
  assumes "genst.more B = genst.more A"
  shows "accounts B = accounts A" "keys B = keys A" "addressToKey B = addressToKey A" "keyToAddress B = keyToAddress A"
    "ABIMap B = ABIMap A" "Payable B = Payable A" "StateDB B = StateDB A" "DeployedContracts B = DeployedContracts A"
    "ContractsList B = ContractsList A" "backMetadata B = backMetadata A" "LastTxIn B = LastTxIn A"
    "LastTxRes B = LastTxRes A" "OpcodeIndices B = OpcodeIndices A" "TxCount B = TxCount A" "backStats B = backStats A" "backst.more B = backst.more A"
    "metadataJSONMap B = metadataJSONMap A" "DeployedBytecodes B = DeployedBytecodes A"
  using assms by (cases A; cases B; simp)+

section \<open>A chain ready for fuzzing\<close>

text \<open>
  Every pooled amount is a number, and one of them is not positive, so that it can be paid from any
  balance.
\<close>

definition amounts_ok :: "bigptr list \<Rightarrow> bigs \<Rightarrow> bool" where
  "amounts_ok ptrs h \<longleftrightarrow>
     (\<forall>p \<in> set ptrs. \<exists>v. big_get h p = Inr v) \<and> (\<exists>p \<in> set ptrs. \<exists>v. big_get h p = Inr v \<and> v \<le> 0)"

definition method_of :: "abi \<Rightarrow> string \<Rightarrow> abi_Method option" where
  "method_of evmABI m = (if m = [] then Some (Constructor evmABI) else ABIMethods evmABI m)"

text \<open>The ABI collected for a contract.\<close>

definition abi_at :: "'z utilst_scheme \<Rightarrow> string \<Rightarrow> abi option" where
  "abi_at b c = nil_map (ABIMap b) c"

text \<open>A deployed contract and a method of it whose arguments the generator can make.\<close>

definition callable :: "('db, 'z) backst_scheme \<Rightarrow> string \<Rightarrow> string \<Rightarrow> bool" where
  "callable b c m \<longleftrightarrow>
     (\<exists>k. DeployedContracts b c = Some k \<and> Addresses k \<noteq> []) \<and>
     (\<exists>evmABI mt. abi_at b c = Some evmABI \<and> method_of evmABI m = Some mt \<and> list_all fillable (Inputs mt))"

definition contract_ready :: "('db, 'z) backst_scheme \<Rightarrow> string \<Rightarrow> bool" where
  "contract_ready b c \<longleftrightarrow>
     (\<exists>k. DeployedContracts b c = Some k \<and> Methods k \<noteq> [] \<and> (\<forall>m \<in> set (Methods k). m \<noteq> [] \<and> callable b c m))"

definition chain_ok :: "'e env_scheme \<Rightarrow> ('db, 'z) backst_scheme \<Rightarrow> bool" where
  "chain_ok env b \<longleftrightarrow>
     arg_inv (fmtAddress env) b \<and> b32_ok b \<and> addresses b \<noteq> [] \<and> amounts_ok (bigptrs b) (bigs b) \<and>
     acc_inv env b \<and> (\<exists>as. accounts b = Some as \<and> as \<noteq> []) \<and>
     ContractsList b \<noteq> [] \<and> (\<forall>c \<in> set (ContractsList b). c \<noteq> [] \<and> contract_ready b c)"

text \<open>The hints the fuzzer makes: no arguments, a known sender, an amount that is a number.\<close>

definition hint_ok :: "('db, 'z) backst_scheme \<Rightarrow> Hint \<Rightarrow> bool" where
  "hint_ok b h \<longleftrightarrow> hArgs h = None \<and>
     (hMethod h = [] \<longrightarrow> hContract h = [] \<or> contract_ready b (hContract h)) \<and>
     (hMethod h \<noteq> [] \<longrightarrow> hContract h \<noteq> [] \<and> callable b (hContract h) (hMethod h)) \<and>
     (hFallback h \<longrightarrow> hContract h \<noteq> [] \<and> contract_ready b (hContract h) \<and> callable b (hContract h) []) \<and>
     (hAmount h \<noteq> 0 \<longrightarrow> (\<exists>v. big_get (bigs b) (hAmount h) = Inr v)) \<and>
     (\<forall>a. hSender h = Some a \<longrightarrow> a \<in> dom (addressToKey b))"

text \<open>
  What go-ethereum documents: arguments of the input types can be packed, and balances are not
  negative.
\<close>

definition pack_ok :: "('db, 'e) genenv_scheme \<Rightarrow> bool" where
  "pack_ok env \<longleftrightarrow> (\<forall>evmABI m mt args h. method_of evmABI m = Some mt \<longrightarrow>
     list_all2 (\<lambda>T v. typeOf v = T \<and> wf_val v) (Inputs mt) args \<longrightarrow> Pack env evmABI m args h \<noteq> None)"

definition balances_ok :: "('db, 'e) genenv_scheme \<Rightarrow> bool" where
  "balances_ok env \<longleftrightarrow> (\<forall>db a. 0 \<le> GetBalance env db a)"

lemma callable_cong:
  "DeployedContracts b = DeployedContracts b' \<Longrightarrow> ABIMap b = ABIMap b' \<Longrightarrow> callable b = callable b'"
  by (simp add: callable_def abi_at_def fun_eq_iff)

lemma contract_ready_cong:
  "DeployedContracts b = DeployedContracts b' \<Longrightarrow> ABIMap b = ABIMap b' \<Longrightarrow> contract_ready b = contract_ready b'"
  using callable_cong [of b b'] by (simp add: contract_ready_def fun_eq_iff)

text \<open>
  The steps of the generator: pool positions and the random source move, big integers are added,
  the description of the last transaction is replaced.
\<close>

definition gen_step :: "'e env_scheme \<Rightarrow> ('db, 'z) backst_scheme \<Rightarrow> ('db, 'z) backst_scheme \<Rightarrow> bool" where
  "gen_step env b b' \<longleftrightarrow>
     arg_inv (fmtAddress env) b' \<and> (\<exists>h. contents b' = (contents b)\<lparr>c_bigs := bigs b @ h\<rparr>) \<and>
     accounts b' = accounts b \<and> keys b' = keys b \<and> addressToKey b' = addressToKey b \<and> keyToAddress b' = keyToAddress b \<and>
     ABIMap b' = ABIMap b \<and> Payable b' = Payable b \<and> StateDB b' = StateDB b \<and> DeployedContracts b' = DeployedContracts b \<and>
     ContractsList b' = ContractsList b \<and> backMetadata b' = backMetadata b \<and> LastTxRes b' = LastTxRes b \<and>
     OpcodeIndices b' = OpcodeIndices b \<and> TxCount b' = TxCount b \<and> backStats b' = backStats b \<and>
     metadataJSONMap b' = metadataJSONMap b \<and> DeployedBytecodes b' = DeployedBytecodes b \<and> backst.more b' = backst.more b"

lemma gen_step_refl: "arg_inv (fmtAddress env) b \<Longrightarrow> gen_step env b b"
  by (auto simp: gen_step_def contents_def intro: exI [of _ "[]"])

lemma gen_step_inv: "gen_step env b b' \<Longrightarrow> arg_inv (fmtAddress env) b'"
  by (simp add: gen_step_def)

lemma gen_step_trans:
  assumes "gen_step env b b'" and "gen_step env b' b''"
  shows "gen_step env b b''"
proof -
  obtain h where h: "contents b' = (contents b)\<lparr>c_bigs := bigs b @ h\<rparr>" using assms(1) by (auto simp: gen_step_def)
  obtain k where k: "contents b'' = (contents b')\<lparr>c_bigs := bigs b' @ k\<rparr>" using assms(2) by (auto simp: gen_step_def)
  have "bigs b' = bigs b @ h" using h by (simp add: contents_def)
  with h k have "contents b'' = (contents b)\<lparr>c_bigs := bigs b @ (h @ k)\<rparr>" by simp
  with assms show ?thesis by (auto simp: gen_step_def)
qed

lemma gen_step_contents:
  assumes "gen_step env b b'"
  shows "addresses b' = addresses b" "bigptrs b' = bigptrs b" "\<exists>h. bigs b' = bigs b @ h" "b32_ok b' = b32_ok b"
  using assms by (auto simp: gen_step_def contents_def b32_ok_def)

text \<open>A step that keeps the content and everything beside the pools and the source.\<close>

lemma gen_step_genst:
  assumes "arg_inv (fmtAddress env) b'" and "contents b' = contents b" and "genst.more b' = genst.more b"
  shows "gen_step env b b'"
proof -
  have "contents b' = (contents b)\<lparr>c_bigs := bigs b @ []\<rparr>" using assms(2) by (simp add: contents_def)
  then show ?thesis using assms(1) genst_more_backst [OF assms(3)] unfolding gen_step_def by blast
qed

lemma amounts_ok_append: "amounts_ok ptrs h \<Longrightarrow> amounts_ok ptrs (h @ k)"
  unfolding amounts_ok_def using big_get_append by blast

lemma gen_step_chain:
  assumes "gen_step env b b'" and "chain_ok env b"
  shows "chain_ok env b'"
proof -
  note same = gen_step_contents [OF assms(1)]
  have "accounts b' = accounts b" "keys b' = keys b" "addressToKey b' = addressToKey b" "keyToAddress b' = keyToAddress b"
    "DeployedContracts b = DeployedContracts b'" "ABIMap b = ABIMap b'" "ContractsList b' = ContractsList b"
    "arg_inv (fmtAddress env) b'" using assms(1) by (simp_all add: gen_step_def)
  moreover from this have "acc_inv env b' = acc_inv env b" by (simp add: acc_inv_def account_list_def)
  moreover have "amounts_ok (bigptrs b') (bigs b')"
    using assms(2) same(2,3) amounts_ok_append by (auto simp: chain_ok_def)
  ultimately show ?thesis using assms(2) same contract_ready_cong [of b b'] by (simp add: chain_ok_def)
qed

lemma gen_step_hint:
  assumes "gen_step env b b'" and "hint_ok b h"
  shows "hint_ok b' h"
proof -
  obtain k where k: "bigs b' = bigs b @ k" using gen_step_contents(3) [OF assms(1)] by blast
  have "DeployedContracts b = DeployedContracts b'" "ABIMap b = ABIMap b'" "addressToKey b' = addressToKey b"
    using assms(1) by (simp_all add: gen_step_def)
  then have "callable b' = callable b" "contract_ready b' = contract_ready b" "addressToKey b' = addressToKey b"
    using callable_cong [of b b'] contract_ready_cong [of b b'] by simp_all
  moreover have "\<exists>v. big_get (bigs b) p = Inr v \<Longrightarrow> \<exists>v. big_get (bigs b @ k) p = Inr v" for p
    using big_get_append by blast
  ultimately show ?thesis using assms(2) unfolding hint_ok_def k by simp
qed

section \<open>The parts of GenTransaction\<close>

lemma index_nat: "k < length xs \<Longrightarrow> index xs (int k) = Inr (xs ! k)"
  by (simp add: index_def)

lemma rand_element_ok:
  fixes b :: "('db, 'z) backst_scheme"
  assumes "xs \<noteq> []" and "arg_inv (fmtAddress env) b"
  shows "\<exists>x b'. rand_element xs b = Inr (x, b') \<and> x \<in> set xs \<and> gen_step env b b'"
proof -
  obtain x b' where d: "draw_Int b = (x, b')" by fastforce
  have "contents b' = contents b" "arg_inv (fmtAddress env) b'"
    using d assms(2) by (auto simp: draw_Int_def split: prod.splits)
  moreover have "genst.more b' = genst.more b" using draw_Int_more [of b] d by simp
  ultimately have step: "gen_step env b b'" by (intro gen_step_genst)
  define k where "k = x mod length xs"
  have k: "k < length xs" using assms(1) by (simp add: k_def)
  then have "rand_element xs b = Inr (xs ! k, b')"
    unfolding rand_element_def d Let_def prod.case k_def [symmetric] index_nat [OF k] using assms(1) by simp
  then show ?thesis using k step by (meson nth_mem)
qed

lemma chooseContract_ok:
  assumes "chain_ok env b" and "hint_ok b h"
  shows "\<exists>c b'. chooseContract (Some h) b = Inr (c, b') \<and> gen_step env b b' \<and> c \<noteq> [] \<and>
    (hContract h \<noteq> [] \<longrightarrow> c = hContract h) \<and> (hMethod h = [] \<longrightarrow> contract_ready b c)"
proof (cases "hContract h = []")
  case True
  have inv: "arg_inv (fmtAddress env) b" "ContractsList b \<noteq> []" using assms(1) by (simp_all add: chain_ok_def)
  obtain c b' where c: "rand_element (ContractsList b) b = Inr (c, b')" "c \<in> set (ContractsList b)" "gen_step env b b'"
    using rand_element_ok [OF inv(2,1)] by blast
  moreover have "c \<noteq> []" "contract_ready b c" using c(2) assms(1) by (auto simp: chain_ok_def)
  ultimately show ?thesis using True by (simp add: chooseContract_def GetRandomContract_def)
next
  case False
  have "arg_inv (fmtAddress env) b" using assms(1) by (simp add: chain_ok_def)
  then show ?thesis using False assms(2) gen_step_refl [of env b]
    by (auto simp: chooseContract_def hint_ok_def)
qed

lemma chooseMethod_ok:
  assumes "arg_inv (fmtAddress env) b" and "hint_ok b h" and "hMethod h = [] \<Longrightarrow> contract_ready b c"
    and "hMethod h \<noteq> [] \<Longrightarrow> c = hContract h"
  shows "\<exists>m b'. chooseMethod (Some h) c b = Inr (m, b') \<and> gen_step env b b' \<and> m \<noteq> [] \<and> callable b c m"
proof (cases "hMethod h = []")
  case True
  then obtain k where k: "DeployedContracts b c = Some k" "Methods k \<noteq> []" "\<forall>m \<in> set (Methods k). m \<noteq> [] \<and> callable b c m"
    using assms(3) by (auto simp: contract_ready_def)
  obtain m b' where "rand_element (Methods k) b = Inr (m, b')" "m \<in> set (Methods k)" "gen_step env b b'"
    using rand_element_ok [OF k(2) assms(1)] by blast
  with k True show ?thesis by (auto simp: chooseMethod_def GetRandomMethod_def)
next
  case False
  then show ?thesis using assms gen_step_refl [OF assms(1)] by (auto simp: chooseMethod_def hint_ok_def)
qed

text \<open>What the lookups find for a collected ABI.\<close>

lemma abi_at_lookups:
  assumes "abi_at b c = Some evmABI"
  shows "GetContractABI env c md b = Inr (evmABI, b)"
    and "method_of evmABI m = Some mt \<Longrightarrow> GetContractMethod env c m md b = Inr (mt, b)"
proof -
  obtain abis where abis: "ABIMap b = Some abis" "abis c = Some evmABI"
    using assms by (cases "ABIMap b") (simp_all add: abi_at_def)
  show abi: "GetContractABI env c md b = Inr (evmABI, b)"
    using abimap.hit [OF abis(1), of env md] abis(2) by (simp add: GetContractABI_def)
  show "method_of evmABI m = Some mt \<Longrightarrow> GetContractMethod env c m md b = Inr (mt, b)"
    using abi by (auto simp: GetContractMethod_def method_of_def split: if_splits)
qed

lemma GetCallBytecode_ok:
  assumes "abi_at b c = Some evmABI" and "method_of evmABI m = Some mt" and "pack_ok env"
    and "list_all2 (\<lambda>T v. typeOf v = T \<and> wf_val v) (Inputs mt) vs"
  shows "\<exists>input. GetCallBytecode env c m vs md b = Inr (input, b)"
proof -
  have "Pack env evmABI m vs (bigs b) \<noteq> None" using assms(2,3,4) unfolding pack_ok_def by blast
  then show ?thesis using abi_at_lookups(1) [OF assms(1), of env md] by (auto simp: GetCallBytecode_def)
qed

text \<open>The choice of contract and method: both as the hint says, and callable.\<close>

lemma target_ok:
  assumes "chain_ok env b" and "hint_ok b h"
  obtains c m' m b1 b2 k a as evmABI mt
  where "chooseContract (Some h) b = Inr (c, b1)" and "chooseMethod (Some h) c b1 = Inr (m', b2)"
    and "m = (if hFallback h then [] else m')" and "gen_step env b b2"
    and "DeployedContracts b c = Some k" and "Addresses k = a # as" and "contractAddr c b2 = Inr a"
    and "abi_at b2 c = Some evmABI" and "method_of evmABI m = Some mt" and "list_all fillable (Inputs mt)"
    and "hContract h \<noteq> [] \<longrightarrow> c = hContract h" and "m' \<noteq> []" and "hMethod h \<noteq> [] \<longrightarrow> m' = hMethod h"
    and "c \<noteq> []" and "hMethod h = [] \<longrightarrow> contract_ready b c" and "callable b c m"
proof -
  obtain c b1 where c: "chooseContract (Some h) b = Inr (c, b1)" "gen_step env b b1" "c \<noteq> []"
    "hContract h \<noteq> [] \<longrightarrow> c = hContract h" "hMethod h = [] \<longrightarrow> contract_ready b c"
    using chooseContract_ok [OF assms] by blast
  have cong1: "callable b1 = callable b" "contract_ready b1 = contract_ready b"
    using c(2) callable_cong [of b1 b] contract_ready_cong [of b1 b] by (simp_all add: gen_step_def)
  have ch: "hMethod h \<noteq> [] \<Longrightarrow> c = hContract h" using c(4) assms(2) by (auto simp: hint_ok_def)
  obtain m' b2 where m': "chooseMethod (Some h) c b1 = Inr (m', b2)" "gen_step env b1 b2" "m' \<noteq> []" "callable b1 c m'"
    using chooseMethod_ok [OF gen_step_inv [OF c(2)] gen_step_hint [OF c(2) assms(2)], of c] c(5) ch cong1 by auto
  have mh: "hMethod h \<noteq> [] \<longrightarrow> m' = hMethod h" using m'(1) by (auto simp: chooseMethod_def)
  define m where "m = (if hFallback h then [] else m')"
  note st = gen_step_trans [OF c(2) m'(2)]
  have call: "callable b c m" using m'(4) c(4) assms(2) cong1 by (auto simp: m_def hint_ok_def)
  then obtain k evmABI mt where k: "DeployedContracts b c = Some k" "Addresses k \<noteq> []" "abi_at b c = Some evmABI"
    "method_of evmABI m = Some mt" "list_all fillable (Inputs mt)" by (auto simp: callable_def)
  obtain a as where a: "Addresses k = a # as" using k(2) by (cases "Addresses k") auto
  have "contractAddr c b2 = Inr a" "abi_at b2 c = Some evmABI"
    using k a st by (simp_all add: gen_step_def contractAddr_def index_def abi_at_def)
  with that [OF c(1) m'(1) m_def st k(1) a _ _ k(4,5) c(4) m'(3) mh c(3,5) call] show ?thesis by blast
qed

lemma args_ok:
  fixes b :: "('db, 'z) backst_scheme"
  assumes "chain_ok env b" and "list_all fillable Ts"
  shows "\<exists>vs b'. ConstructArgs Ts b = Inr (vs, b') \<and> gen_step env b b' \<and>
    list_all2 (\<lambda>T v. typeOf v = T \<and> wf_val v) Ts vs"
proof -
  let ?c = "contents b"
  have inv: "fill_inv (fmtAddress env) ?c b" using assms(1) by (simp add: chain_ok_def fill_inv_def)
  have ne: "c_address ?c \<noteq> []" "c_bigInt ?c \<noteq> []"
    using assms(1) by (auto simp: chain_ok_def contents_def amounts_ok_def)
  obtain vs b' where run: "ConstructArgs Ts b = Inr (vs, b')" using construct_total [OF inv assms(2) ne] by blast
  note sound = construct_sound [OF inv run]
  have b32: "\<forall>x \<in> set (c_bytes32 ?c). length x = 32" using assms(1) by (simp add: chain_ok_def b32_ok_def contents_def)
  have "list_all2 (\<lambda>T v. typeOf v = T \<and> wf_val v) Ts vs"
    using sound b32 by (auto simp: fill_result_def elim!: list_all2_mono)
  moreover have "gen_step env b b'"
    using sound construct_more [OF run] by (intro gen_step_genst) (auto simp: fill_inv_def)
  ultimately show ?thesis using run by blast
qed

text \<open>The sender is an account of the chain, and its key signs for it.\<close>

lemma chooseSender_ok:
  assumes "chain_ok env b" and "hint_ok b h"
  shows "\<exists>a k b'. chooseSender env h b = Inr ((a, k), b') \<and> gen_step env b b' \<and>
    PubkeyToAddress env (keys b' ! k) = a \<and> a \<in> dom (addressToKey b) \<and> (\<forall>a'. hSender h = Some a' \<longrightarrow> a' = a)"
proof (cases "hSender h")
  case (Some a)
  then obtain k where k: "addressToKey b a = Some k" using assms(2) by (auto simp: hint_ok_def)
  have "acc_inv env b" "arg_inv (fmtAddress env) b" using assms(1) by (simp_all add: chain_ok_def)
  with acc_invD [OF this(1) k] k Some show ?thesis
    using gen_step_refl by (auto simp: chooseSender_def GetKeyFromAddress_def)
next
  case None
  obtain as where as: "accounts b = Some as" "as \<noteq> []" using assms(1) by (auto simp: chain_ok_def)
  let ?b = "b\<lparr>rnd := snd (rand_Int (rnd b))\<rparr>" and ?a = "as ! (rnd b 0 mod length as)"
  have "?a \<in> set (account_list b)" using as by (simp add: account_list_def)
  moreover have "acc_inv env b" "arg_inv (fmtAddress env) b" using assms(1) by (simp_all add: chain_ok_def)
  ultimately have "PubkeyToAddress env (keys b ! Key ?a) = Address ?a" "Address ?a \<in> dom (addressToKey b)"
    by (simp_all add: acc_inv_def)
  moreover have "gen_step env b ?b"
    by (rule gen_step_genst) (use assms(1) in \<open>simp_all add: chain_ok_def pool_update_more\<close>)
  moreover have "chooseSender env h b = Inr ((Address ?a, Key ?a), ?b)"
    using None GetRandAccount_cached [OF as(1), of env "backMetadata b"] as(2) by (simp add: chooseSender_def)
  ultimately show ?thesis using None by (intro exI [of _ "Address ?a"] exI [of _ "Key ?a"] exI [of _ ?b]) simp
qed

lemma gen_step_bigs:
  assumes "arg_inv (fmtAddress env) b"
  shows "gen_step env b (b\<lparr>bigs := bigs b @ h\<rparr>)"
  using assms unfolding gen_step_def
  by (cases b; intro conjI exI [of _ h]) (simp_all add: contents_def addresses_def bigptrs_def arg_inv_def)

lemma gen_step_lastTx:
  assumes "arg_inv (fmtAddress env) b"
  shows "gen_step env b (b\<lparr>LastTxIn := i\<rparr>)"
  using assms unfolding gen_step_def
  by (cases b; intro conjI exI [of _ "[]"]) (simp_all add: contents_def addresses_def bigptrs_def arg_inv_def)

lemma drawAmount_step:
  fixes b :: "('db, 'z) backst_scheme"
  assumes "chain_ok env b" and "0 \<le> balance"
  shows "\<exists>p v b'. drawAmount balance b = Some (Inr (p, b')) \<and> gen_step env b b' \<and>
    big_get (bigs b') p = Inr v \<and> v \<le> balance \<and> p \<in> set (bigptrs b)"
proof -
  have inv: "arg_inv (fmtAddress env) b" and am: "amounts_ok (bigptrs b) (bigs b)" using assms(1) by (simp_all add: chain_ok_def)
  obtain p v where p: "p \<in> set (bigptrs b)" "big_get (bigs b) p = Inr v" "v \<le> 0"
    using am by (auto simp: amounts_ok_def)
  have all: "\<forall>p \<in> set (bigptrs b). \<exists>v. big_get (bigs b) p = Inr v" using am by (simp add: amounts_ok_def)
  have "v \<le> balance" using p(3) assms(2) by simp
  from drawAmount_returns [OF inv all p(1,2) this] obtain q w b' where q: "drawAmount balance b = Some (Inr (q, b'))"
    "q \<in> set (bigptrs b)" "big_get (bigs b) q = Inr w" "w \<le> balance" "arg_inv (fmtAddress env) b'"
    "contents b' = contents b" "\<exists>f. b' = b\<lparr>pools := f\<rparr>" .
  moreover have "gen_step env b b'" using q(5-7) pool_update_more(7) by (intro gen_step_genst) auto
  ultimately show ?thesis using contents_bigs [OF q(6)] by auto
qed

text \<open>The amount is a number; when it is drawn the sender can pay it; without reason it is zero.\<close>

lemma chooseAmount_ok:
  fixes b :: "('db, 'z) backst_scheme"
  assumes "chain_ok env b" and "hint_ok b h" and "balances_ok env"
  shows "\<exists>p v b'. chooseAmount env h c m a b = Some (Inr (p, b')) \<and> gen_step env b b' \<and> big_get (bigs b') p = Inr v \<and>
    (if hAmount h \<noteq> 0 then p = hAmount h
     else if IsPayable c m b then v \<le> GetBalance env (StateDB b) a else v = 0)"
proof -
  let ?b = "b\<lparr>bigs := bigs b @ [0]\<rparr>"
  have inv: "arg_inv (fmtAddress env) b" using assms(1) by (simp add: chain_ok_def)
  have step: "gen_step env b ?b" by (rule gen_step_bigs [OF inv])
  note ok = gen_step_chain [OF step assms(1)] gen_step_hint [OF step assms(2)]
  have run: "chooseAmount env h c m a b =
      (if hAmount h \<noteq> 0 then Some (Inr (hAmount h, ?b))
       else if IsPayable c m ?b then getRandomAmountFromAddress env a ?b else Some (Inr (Suc (length (bigs b)), ?b)))"
    by (simp add: chooseAmount_def big_new_def)
  show ?thesis
  proof (cases "hAmount h = 0")
    case False
    then have "\<exists>v. big_get (bigs ?b) (hAmount h) = Inr v" using ok(2) by (simp add: hint_ok_def)
    with False step run show ?thesis by auto
  next
    case True
    show ?thesis
    proof (cases "IsPayable c m b")
      case False
      then show ?thesis using True step run by (simp add: IsPayable_def)
    next
      case True
      have "0 \<le> GetBalance env (StateDB ?b) a" using assms(3) by (simp add: balances_ok_def)
      from drawAmount_step [OF ok(1) this] obtain p v b' where p: "drawAmount (GetBalance env (StateDB ?b) a) ?b = Some (Inr (p, b'))"
        "gen_step env ?b b'" "big_get (bigs b') p = Inr v" "v \<le> GetBalance env (StateDB ?b) a" by blast
      then show ?thesis using True \<open>hAmount h = 0\<close> run gen_step_trans [OF step p(2)]
        by (simp add: getRandomAmountFromAddress_def IsPayable_def)
    qed
  qed
qed

section \<open>A transaction is always generated\<close>

text \<open>What a generated transaction is: its relation to the hint, the chain and the record of it.\<close>

definition tx_ok :: "('db, 'e) genenv_scheme \<Rightarrow> Hint \<Rightarrow> ('db, 'z) backst_scheme \<Rightarrow> ethTx \<Rightarrow> Hint \<Rightarrow> ('db, 'z) backst_scheme \<Rightarrow> bool" where
  "tx_ok env h b tx h' b' \<longleftrightarrow>
     (\<exists>i k a as. LastTxIn b' = Some i \<and> DeployedContracts b (liContract i) = Some k \<and> Addresses k = a # as \<and>
        txTo tx = Some a \<and> txNonce tx = GetNonce env (StateDB b) (liSender i) \<and> Sender env tx = Some (liSender i) \<and>
        txGas tx = 8000000 \<and> big_get (bigs b') (liEther i) = Inr (txValue tx) \<and>
        (if hAmount h \<noteq> 0 then liEther i = hAmount h
         else if IsPayable (liContract i) (liMethod i) b then txValue tx \<le> GetBalance env (StateDB b) (liSender i)
         else txValue tx = 0) \<and>
        (hContract h \<noteq> [] \<longrightarrow> liContract i = hContract h) \<and> (hFallback h \<longrightarrow> liMethod i = []) \<and>
        (\<not> hFallback h \<longrightarrow> liMethod i \<noteq> []) \<and>
        (\<not> hFallback h \<longrightarrow> hMethod h \<noteq> [] \<longrightarrow> liMethod i = hMethod h) \<and>
        (\<forall>s. hSender h = Some s \<longrightarrow> liSender i = s) \<and> liSender i \<in> dom (addressToKey b) \<and>
        h' = h\<lparr>hContract := liContract i, hMethod := liMethod i, hAmount := liEther i\<rparr>)"

lemma GenTransaction_ok:
  fixes b :: "('db, 'z) backst_scheme"
  assumes "chain_ok env b" and "hint_ok b h" and "sign_ok env" and "pack_ok env" and "balances_ok env"
  shows "\<exists>tx h' b'. GenTransaction env (Some h) b = Some (Inr ((Some tx, h'), b')) \<and> gen_step env b b' \<and>
    hint_ok b' h' \<and> tx_ok env h b tx h' b'"
proof -
  obtain c m' m b1 b2 k a as evmABI mt where t:
    "chooseContract (Some h) b = Inr (c, b1)" "chooseMethod (Some h) c b1 = Inr (m', b2)"
    "m = (if hFallback h then [] else m')" "gen_step env b b2"
    "DeployedContracts b c = Some k" "Addresses k = a # as" "contractAddr c b2 = Inr a"
    "abi_at b2 c = Some evmABI" "method_of evmABI m = Some mt" "list_all fillable (Inputs mt)"
    and about: "hContract h \<noteq> [] \<longrightarrow> c = hContract h" "m' \<noteq> []" "hMethod h \<noteq> [] \<longrightarrow> m' = hMethod h"
    "c \<noteq> []" "hMethod h = [] \<longrightarrow> contract_ready b c" "callable b c m"
    by (rule target_ok [OF assms(1,2)])
  obtain vs b3 where v: "ConstructArgs (Inputs mt) b2 = Inr (vs, b3)" "gen_step env b2 b3"
    "list_all2 (\<lambda>T v. typeOf v = T \<and> wf_val v) (Inputs mt) vs"
    using args_ok [OF gen_step_chain [OF t(4) assms(1)] t(10)] by blast
  note st3 = gen_step_trans [OF t(4) v(2)]
  have "abi_at b3 c = Some evmABI" using t(8) v(2) by (simp add: gen_step_def abi_at_def)
  from GetCallBytecode_ok [OF this t(9) assms(4) v(3)]
  obtain input where input: "GetCallBytecode env c m vs (backMetadata b3) b3 = Inr (input, b3)" by blast
  obtain s key b4 where s: "chooseSender env h b3 = Inr ((s, key), b4)" "gen_step env b3 b4"
    "PubkeyToAddress env (keys b4 ! key) = s" "s \<in> dom (addressToKey b3)" "\<forall>a'. hSender h = Some a' \<longrightarrow> a' = s"
    using chooseSender_ok [OF gen_step_chain [OF st3 assms(1)] gen_step_hint [OF st3 assms(2)]] by blast
  note st4 = gen_step_trans [OF st3 s(2)]
  obtain p val b5 where p: "chooseAmount env h c m s b4 = Some (Inr (p, b5))" "gen_step env b4 b5" "big_get (bigs b5) p = Inr val"
    "if hAmount h \<noteq> 0 then p = hAmount h
     else if IsPayable c m b4 then val \<le> GetBalance env (StateDB b4) s else val = 0"
    using chooseAmount_ok [OF gen_step_chain [OF st4 assms(1)] gen_step_hint [OF st4 assms(2)] assms(5)] by blast
  note st5 = gen_step_trans [OF st4 p(2)]
  let ?tx = "\<lparr>txNonce = GetNonce env (StateDB b5) s, txTo = Some a, txValue = val, txGas = maxGasPool, txPrice = 0,
    txData = input, txSig = None\<rparr>"
  obtain sig where sig: "SignTx env ?tx (keys b5 ! key) = Some (?tx\<lparr>txSig := sig\<rparr>)"
    "Sender env (?tx\<lparr>txSig := sig\<rparr>) = Some (PubkeyToAddress env (keys b5 ! key))"
    using assms(3) unfolding sign_ok_def by blast
  let ?h = "h\<lparr>hContract := c, hMethod := m, hAmount := p\<rparr>"
  let ?i = "\<lparr>liContract = c, liMethod = m, liConst = Const mt, liEther = p, liInput = vs, liOutArgs = Outputs mt, liSender = s\<rparr>"
  let ?b = "b5\<lparr>LastTxIn := Some ?i\<rparr>"
  have "hArgs h = None" using assms(2) by (simp add: hint_ok_def)
  then have run: "GenTransaction env (Some h) b = Some (Inr ((Some (?tx\<lparr>txSig := sig\<rparr>), ?h), ?b))"
    using abi_at_lookups(2) [OF t(8,9), of env "backMetadata b2"]
    by (simp add: GenTransaction_def t(1,2,7) t(3) [symmetric] v(1) input s(1) p(1,3) sig(1) Let_def)
  have step: "gen_step env b ?b" using gen_step_trans [OF st5 gen_step_lastTx [OF gen_step_inv [OF st5]]] .
  have same: "StateDB b5 = StateDB b" "keys b5 = keys b4" "StateDB b4 = StateDB b" "addressToKey b3 = addressToKey b"
    "addressToKey b5 = addressToKey b" "Payable b4 = Payable b"
    using st5 st4 st3 p(2) by (simp_all add: gen_step_def)
  have "tx_ok env h b (?tx\<lparr>txSig := sig\<rparr>) ?h ?b"
    using t(3,5,6) about s(3,4,5) p(3,4) sig(2) same
    by (auto simp: tx_ok_def maxGasPool_def IsPayable_def)
  moreover have cong: "callable ?b = callable b" "contract_ready ?b = contract_ready b"
    using step callable_cong [of ?b b] contract_ready_cong [of ?b b] by (simp_all add: gen_step_def)
  have "hint_ok ?b ?h"
    unfolding hint_ok_def cong using assms(2) t(3) about p(3) same by (auto simp: hint_ok_def)
  ultimately show ?thesis using run step by blast
qed

section \<open>Properties\<close>

text \<open>
  C10: The loop that draws the amount of ether returns if and only if some pooled amount is within
  the sender's balance, and runs forever otherwise; it returns a pooled amount that the sender can
  pay (which may be negative) and changes no content of the pools.
\<close>

theorem random_amount_returns:
  fixes b :: "('db, 'z) backst_scheme"
  assumes "arg_inv fa b" and "bigptrs b \<noteq> []" and "\<forall>p \<in> set (bigptrs b). \<exists>v. big_get (bigs b) p = Inr v"
  shows "if \<exists>p \<in> set (bigptrs b). \<exists>v. big_get (bigs b) p = Inr v \<and> v \<le> GetBalance env (StateDB b) a
    then \<exists>p v b'. getRandomAmountFromAddress env a b = Some (Inr (p, b')) \<and> p \<in> set (bigptrs b) \<and>
      big_get (bigs b') p = Inr v \<and> v \<le> GetBalance env (StateDB b) a \<and> contents b' = contents b
    else getRandomAmountFromAddress env a b = None"
proof (cases "\<exists>p \<in> set (bigptrs b). \<exists>v. big_get (bigs b) p = Inr v \<and> v \<le> GetBalance env (StateDB b) a")
  case True
  then obtain p v where p: "p \<in> set (bigptrs b)" "big_get (bigs b) p = Inr v" "v \<le> GetBalance env (StateDB b) a" by blast
  from drawAmount_returns [OF assms(1,3) p] obtain q w b' where
    "drawAmount (GetBalance env (StateDB b) a) b = Some (Inr (q, b'))" "q \<in> set (bigptrs b)"
    "big_get (bigs b) q = Inr w" "w \<le> GetBalance env (StateDB b) a" "contents b' = contents b" .
  with True show ?thesis using contents_bigs [of b' b] by (auto simp: getRandomAmountFromAddress_def)
next
  case False
  then have "\<forall>p \<in> set (bigptrs b). \<exists>v. big_get (bigs b) p = Inr v \<and> v > GetBalance env (StateDB b) a"
    using assms(3) by (metis not_le)
  then have "drawAmount (GetBalance env (StateDB b) a) b \<noteq> Some r" for r
    using drawAmount_None [OF _ assms(1,2)] by blast
  then show ?thesis using False by (auto simp: getRandomAmountFromAddress_def)
qed

text \<open>
  C6: On a chain ready for fuzzing, and for every hint the fuzzer makes, a transaction is generated:
  neither does the loop over the amounts run forever nor is there a panic. The transaction calls
  the first address of a deployed contract (the hint's, if it names one), is signed by an account
  of the chain (the hint's, if it names one), has that account's nonce and the gas of the pool, and
  a value that is the hint's amount, or else within the balance for a payable method and zero for
  any other; hint and record of the transaction say so, and the chain stays ready.
\<close>

theorem gen_transaction_valid:
  fixes b :: "('db, 'z) backst_scheme"
  assumes "chain_ok env b" and "hint_ok b h" and "sign_ok env" and "pack_ok env" and "balances_ok env"
  shows "\<exists>tx h' b' i k a as. GenTransaction env (Some h) b = Some (Inr ((Some tx, h'), b')) \<and>
    chain_ok env b' \<and> hint_ok b' h' \<and> LastTxIn b' = Some i \<and>
    DeployedContracts b (liContract i) = Some k \<and> Addresses k = a # as \<and> txTo tx = Some a \<and>
    (hContract h \<noteq> [] \<longrightarrow> liContract i = hContract h) \<and> (hFallback h = (liMethod i = [])) \<and>
    Sender env tx = Some (liSender i) \<and> liSender i \<in> dom (addressToKey b) \<and>
    (\<forall>s. hSender h = Some s \<longrightarrow> liSender i = s) \<and> txNonce tx = GetNonce env (StateDB b) (liSender i) \<and> txGas tx = 8000000 \<and>
    big_get (bigs b') (liEther i) = Inr (txValue tx) \<and>
    (if hAmount h \<noteq> 0 then liEther i = hAmount h
     else if IsPayable (liContract i) (liMethod i) b then txValue tx \<le> GetBalance env (StateDB b) (liSender i)
     else txValue tx = 0) \<and>
    h' = h\<lparr>hContract := liContract i, hMethod := liMethod i, hAmount := liEther i\<rparr>"
proof -
  obtain tx h' b' where r: "GenTransaction env (Some h) b = Some (Inr ((Some tx, h'), b'))" "gen_step env b b'"
    "hint_ok b' h'" "tx_ok env h b tx h' b'" using GenTransaction_ok [OF assms] by blast
  have "chain_ok env b'" by (rule gen_step_chain [OF r(2) assms(1)])
  moreover obtain i k a as where "LastTxIn b' = Some i" "DeployedContracts b (liContract i) = Some k" "Addresses k = a # as"
    "txTo tx = Some a" "txNonce tx = GetNonce env (StateDB b) (liSender i)" "Sender env tx = Some (liSender i)"
    "txGas tx = 8000000" "big_get (bigs b') (liEther i) = Inr (txValue tx)"
    "if hAmount h \<noteq> 0 then liEther i = hAmount h
     else if IsPayable (liContract i) (liMethod i) b then txValue tx \<le> GetBalance env (StateDB b) (liSender i)
     else txValue tx = 0"
    "hContract h \<noteq> [] \<longrightarrow> liContract i = hContract h" "hFallback h \<longrightarrow> liMethod i = []" "\<not> hFallback h \<longrightarrow> liMethod i \<noteq> []"
    "\<forall>s. hSender h = Some s \<longrightarrow> liSender i = s" "liSender i \<in> dom (addressToKey b)"
    "h' = h\<lparr>hContract := liContract i, hMethod := liMethod i, hAmount := liEther i\<rparr>"
    using r(4) unfolding tx_ok_def by blast
  ultimately show ?thesis using r(1,3)
    by (intro exI [of _ tx] exI [of _ h'] exI [of _ b'] exI [of _ i] exI [of _ k] exI [of _ a] exI [of _ as] conjI) (assumption | blast)+
qed

section \<open>Witnesses\<close>

text \<open>
  A chain with one contract and its payable method \<open>mint\<close>, one account of balance 40, and a pool of
  the amounts 50 and 0.
\<close>

definition example_genenv :: "unit genenv" where
  "example_genenv = procenv.extend example_procenv (genenv.fields (\<lambda>_ _ _ _. Some [1]) (\<lambda>_ _. 40) (\<lambda>_ _. 3))"

definition example_chain_at :: "'db \<Rightarrow> 'db backst" where
  "example_chain_at db = (new_backend db ''m'' st0)\<lparr>
     pools := (pools st0)
       (AddressPool st0 \<mapsto> \<lparr>p_idx = 0, p_storage = [IAddress 4097], p_storageMap = {dec_nat 4097}\<rparr>,
        BigIntPool st0 \<mapsto> \<lparr>p_idx = 0, p_storage = [IBigInt 1, IBigInt 2], p_storageMap = {''50'', ''0''}\<rparr>),
     bigs := [50, 0],
     accounts := Some [\<lparr>Key = 0, Address = 4097, Amount = 0, Used = False\<rparr>], keys := [1],
     addressToKey := [4097 \<mapsto> 0], keyToAddress := [0 \<mapsto> 4097],
     ABIMap := Some [''Token'' \<mapsto> token_abi], Payable := Some [''Token'' \<mapsto> [''mint'' \<mapsto> True]],
     DeployedContracts := [''Token'' \<mapsto> \<lparr>Addresses = [9], Methods = [''mint'']\<rparr>], ContractsList := [''Token'']\<rparr>"

lemma example_genenv_simps [simp]:
  "fmtAddress example_genenv = fmtAddress example_env" "PubkeyToAddress example_genenv k = word_of_int (k + 4096)"
  "SignTx example_genenv tx k = Some (tx\<lparr>txSig := Some k\<rparr>)"
  "Sender example_genenv tx = map_option (\<lambda>k. word_of_int (k + 4096)) (txSig tx)"
  "Pack example_genenv e m vs h = Some [1]" "GetBalance example_genenv db a = 40" "GetNonce example_genenv db a = 3"
  by (simp_all add: example_genenv_def example_procenv_def example_txenv_def env.defs txenv.defs procenv.defs genenv.defs
      example_env_def)

lemma example_genenv_ok: "sign_ok example_genenv" "pack_ok example_genenv" "balances_ok example_genenv"
proof -
  show "sign_ok example_genenv" unfolding sign_ok_def by (intro allI exI [of _ "Some k" for k]) simp
qed (simp_all add: pack_ok_def balances_ok_def)

abbreviation example_chain :: "unit backst" where "example_chain \<equiv> example_chain_at ()"

lemma example_chain_at_simps [simp]:
  "Int8Pool (example_chain_at db) = ring_new" "Int16Pool (example_chain_at db) = ring_new" "Int32Pool (example_chain_at db) = ring_new"
  "Int64Pool (example_chain_at db) = ring_new" "Bytes32Pool (example_chain_at db) = ring_new" "StringPool (example_chain_at db) = ring_new"
  "TimestampPool (example_chain_at db) = GetTimestampPool" "AddressPool (example_chain_at db) = ''Address''" "BigIntPool (example_chain_at db) = ''BigInt''"
  "pools (example_chain_at db) ''Address'' = Some \<lparr>p_idx = 0, p_storage = [IAddress 4097], p_storageMap = {dec_nat 4097}\<rparr>"
  "pools (example_chain_at db) ''BigInt'' = Some \<lparr>p_idx = 0, p_storage = [IBigInt 1, IBigInt 2], p_storageMap = {''50'', ''0''}\<rparr>"
  "bigs (example_chain_at db) = [50, 0]" "accounts (example_chain_at db) = Some [\<lparr>Key = 0, Address = 4097, Amount = 0, Used = False\<rparr>]"
  "keys (example_chain_at db) = [1]" "addressToKey (example_chain_at db) = [4097 \<mapsto> 0]" "keyToAddress (example_chain_at db) = [0 \<mapsto> 4097]"
  "ABIMap (example_chain_at db) = Some [''Token'' \<mapsto> token_abi]" "Payable (example_chain_at db) = Some [''Token'' \<mapsto> [''mint'' \<mapsto> True]]"
  "DeployedContracts (example_chain_at db) = [''Token'' \<mapsto> \<lparr>Addresses = [9], Methods = [''mint'']\<rparr>]"
  "ContractsList (example_chain_at db) = [''Token'']" "StateDB (example_chain_at db) = db" "LastTxRes (example_chain_at db) = lastRes_zero" "LastTxIn (example_chain_at db) = None"
  "backStats (example_chain_at db) = stats_zero" "TxCount (example_chain_at db) = 0" "OpcodeIndices (example_chain_at db) = Map.empty"
  "backMetadata (example_chain_at db) = ''m''" "rnd (example_chain_at db) = (\<lambda>n. n)"
  by (simp_all add: example_chain_at_def new_backend_def utils_init_def utilst.defs genst.defs backst.defs start_with_eq)

lemma example_chain_inv: "arg_inv fa (example_chain_at db) = (fa 4097 = dec_nat 4097)"
  by (auto simp: arg_inv_def typed_ok_new ts_ok_new addr_ok_def bigpool_ok_def ring_inv_def is_IAddress_def
      is_IBigInt_def)

lemma example_callable: "callable (example_chain_at db) ''Token'' ''mint''"
  by (simp add: callable_def abi_at_def method_of_def token_abi_def)

lemma example_chain_ok:
  assumes "fmtAddress env = fmtAddress example_env" and "\<And>k. PubkeyToAddress env k = word_of_int (k + 4096)"
  shows "chain_ok env (example_chain_at db)"
proof -
  have "acc_inv env (example_chain_at db)" using assms(2) by (auto simp: acc_inv_def account_list_def)
  moreover have "amounts_ok (bigptrs (example_chain_at db)) (bigs (example_chain_at db))"
    by (simp add: amounts_ok_def bigptrs_def numeral_2_eq_2)
  moreover have "contract_ready (example_chain_at db) ''Token''" using example_callable by (simp add: contract_ready_def)
  moreover have "addresses (example_chain_at db) \<noteq> []" "b32_ok (example_chain_at db)"
    by (simp_all add: addresses_def b32_ok_def ring_new_def)
  ultimately show ?thesis using assms(1) by (simp add: chain_ok_def example_chain_inv)
qed

theorem random_amount_returns_witness:
  "\<exists>p b'. getRandomAmountFromAddress example_genenv 4097 example_chain = Some (Inr (p, b')) \<and> big_get (bigs b') p = Inr 0"
proof -
  have ptrs: "bigptrs example_chain = [1, 2]" by (simp add: bigptrs_def)
  have inv: "arg_inv (fmtAddress example_genenv) example_chain" by (simp add: example_chain_inv)
  have "bigptrs example_chain \<noteq> []" "\<forall>p \<in> set (bigptrs example_chain). \<exists>v. big_get (bigs example_chain) p = Inr v"
    by (simp_all add: ptrs numeral_2_eq_2)
  note ret = random_amount_returns [OF inv this, of example_genenv 4097]
  have "\<exists>p \<in> set (bigptrs example_chain). \<exists>v. big_get (bigs example_chain) p = Inr v \<and>
      v \<le> GetBalance example_genenv (StateDB example_chain) 4097" by (simp add: ptrs numeral_2_eq_2)
  from ret [unfolded if_P [OF this]] obtain p v b' where
    p: "getRandomAmountFromAddress example_genenv 4097 example_chain = Some (Inr (p, b'))" "p \<in> set (bigptrs example_chain)"
    "big_get (bigs b') p = Inr v" "v \<le> 40" "contents b' = contents example_chain" by auto
  have "bigs b' = [50, 0]" using contents_bigs [OF p(5)] by simp
  then have "v = 0" using p(2,3,4) by (auto simp: ptrs numeral_2_eq_2)
  with p show ?thesis by blast
qed

theorem gen_transaction_valid_witness:
  "\<exists>tx h' b'. GenTransaction example_genenv (Some \<lparr>hContract = [], hMethod = [], hArgs = None, hAmount = 0, hSender = None, hFallback = False\<rparr>)
     example_chain = Some (Inr ((Some tx, h'), b')) \<and> txTo tx = Some 9 \<and> Sender example_genenv tx = Some 4097 \<and> hContract h' = ''Token''"
proof -
  let ?h = "\<lparr>hContract = [], hMethod = [], hArgs = None, hAmount = 0, hSender = None, hFallback = False\<rparr>"
  have "hint_ok example_chain ?h" by (simp add: hint_ok_def)
  from gen_transaction_valid [OF example_chain_ok this example_genenv_ok, OF example_genenv_simps(1,2)]
  show ?thesis
  proof (elim exE conjE)
    fix tx h' b' i k a as
    assume g: "GenTransaction example_genenv (Some ?h) example_chain = Some (Inr ((Some tx, h'), b'))"
      "DeployedContracts example_chain (liContract i) = Some k" "Addresses k = a # as" "txTo tx = Some a"
      "Sender example_genenv tx = Some (liSender i)" "liSender i \<in> dom (addressToKey example_chain)"
      "h' = ?h\<lparr>hContract := liContract i, hMethod := liMethod i, hAmount := liEther i\<rparr>"
    have "liContract i = ''Token''" "k = \<lparr>Addresses = [9], Methods = [''mint'']\<rparr>"
      using g(2) by (auto split: if_splits)
    moreover have "liSender i = 4097" using g(6) by simp
    ultimately show ?thesis using g by (intro exI [of _ tx] exI [of _ h'] exI [of _ b']) simp
  qed
qed

end
