(* ===== verification/ProcessorFrame.thy ===== *)
theory ProcessorFrame
  imports GeneratorResults
begin

text \<open>
  The scan of a trace keeps a chain ready for fuzzing: what it leaves alone, and that the values it
  learns from the output keep the pools usable.
\<close>

section \<open>What the scan leaves alone\<close>

text \<open>All of the state that is neither pool nor the last result nor coverage.\<close>

definition rest :: "('db, 'z) backst_scheme \<Rightarrow> _" where
  "rest b = genst.more (b\<lparr>LastTxRes := lastRes_zero, OpcodeIndices := Map.empty\<rparr>)"

lemma rest_backst:
  fixes A :: "('db, 'z) backst_scheme"
  assumes "rest B = rest A"
  shows "accounts B = accounts A" "keys B = keys A" "addressToKey B = addressToKey A" "keyToAddress B = keyToAddress A"
    "ABIMap B = ABIMap A" "Payable B = Payable A" "StateDB B = StateDB A" "DeployedContracts B = DeployedContracts A"
    "ContractsList B = ContractsList A" "backMetadata B = backMetadata A" "LastTxIn B = LastTxIn A"
    "TxCount B = TxCount A" "backStats B = backStats A" "backst.more B = backst.more A"
    "metadataJSONMap B = metadataJSONMap A" "DeployedBytecodes B = DeployedBytecodes A"
  using assms by (cases A; cases B; simp add: rest_def)+

lemma rest_updates [simp]:
  fixes b :: "('db, 'z) backst_scheme"
  shows "rest (b\<lparr>LastTxRes := r\<rparr>) = rest b" "rest (b\<lparr>OpcodeIndices := m\<rparr>) = rest b" "rest (b\<lparr>TimestampPool := p\<rparr>) = rest b"
  by (cases b; simp add: rest_def)+

lemma same_rest_rest:
  fixes A :: "('db, 'z) backst_scheme"
  assumes "same_rest A B"
  shows "rest B = rest A" "rnd B = rnd A"
  using assms by (cases A; cases B; simp add: rest_def same_rest_def)+

text \<open>Pools other than the timestamps, and what they point to.\<close>

definition same_pools :: "'z argst_scheme \<Rightarrow> 'z argst_scheme \<Rightarrow> bool" where
  "same_pools A B \<longleftrightarrow>
     (\<forall>fa. arg_inv fa A \<longrightarrow> arg_inv fa B) \<and> b32_ok B = b32_ok A \<and> addresses B = addresses A \<and> bigptrs B = bigptrs A \<and>
     bigs B = bigs A"

lemma extractTimestamps_pools:
  fixes b :: "('db, 'z) backst_scheme"
  shows "same_pools b (extractTimestamps vs b)"
proof -
  have inv: "arg_inv fa b \<Longrightarrow> arg_inv fa (extractTimestamps vs b)" for fa
    unfolding extractTimestamps_def
    by (rule fold_invariant) (auto simp: Let_def intro: arg_inv_adds)
  obtain p where p: "extractTimestamps vs b = b\<lparr>TimestampPool := p\<rparr>"
    using extractTimestamps_frame [of vs b] by blast
  show ?thesis using inv unfolding same_pools_def p by (simp add: b32_ok_def)
qed

lemma extractTimestamps_rest:
  fixes b :: "('db, 'z) backst_scheme"
  shows "rest (extractTimestamps vs b) = rest b \<and> LastTxRes (extractTimestamps vs b) = LastTxRes b"
proof -
  obtain p where p: "extractTimestamps vs b = b\<lparr>TimestampPool := p\<rparr>"
    using extractTimestamps_frame [of vs b] by blast
  then show ?thesis by simp
qed

lemma same_pools_refl [simp]: "same_pools A A"
  by (simp add: same_pools_def)

lemma same_pools_trans: "same_pools A B \<Longrightarrow> same_pools B C \<Longrightarrow> same_pools A C"
  by (simp add: same_pools_def)

lemma same_pools_updates [simp]:
  fixes b :: "('db, 'z) backst_scheme"
  shows "same_pools b (b\<lparr>LastTxRes := r\<rparr>)" "same_pools b (b\<lparr>OpcodeIndices := m\<rparr>)"
  by (simp_all add: same_pools_def arg_inv_def b32_ok_def addresses_def bigptrs_def)

text \<open>A state that a round of the scan may reach from another.\<close>

definition scan_step :: "('db, 'z) backst_scheme \<Rightarrow> ('db, 'z) backst_scheme \<Rightarrow> bool" where
  "scan_step b b' \<longleftrightarrow> rest b' = rest b \<and> same_pools b b' \<and> StructLogger (LastTxRes b') = StructLogger (LastTxRes b)"

lemma scan_step_refl [simp]: "scan_step b b"
  by (simp add: scan_step_def)

lemma scan_step_trans: "scan_step a b \<Longrightarrow> scan_step b c \<Longrightarrow> scan_step a c"
  unfolding scan_step_def using same_pools_trans by fastforce

lemma processLog_frame:
  fixes b :: "('db, 'z) backst_scheme"
  assumes "processLog env tx (Some opt) logs i (cs, b) = Inr (cs', b')" and "\<not> CheckDeployedContract opt"
  shows "scan_step b b'"
proof -
  define u where "u = (if ExtractTimestamps opt then extractTimestamps (Stack (logs ! i)) b else b)"
  have u: "rest u = rest b" "same_pools b u" "LastTxRes u = LastTxRes b"
    using extractTimestamps_rest [of "Stack (logs ! i)" b] extractTimestamps_pools [of b] by (simp_all add: u_def)
  obtain r where r: "checkOverflow env logs i (LastTxRes u) = Inr r"
    using assms(1) by (auto simp: processLog_def Let_def u_def elim!: bindR_InrE)
  define v where "v = u\<lparr>LastTxRes := checkRevert (logs ! i) (checkAssertion (logs ! i) r)\<rparr>"
  have "StructLogger r = StructLogger ((LastTxRes u)\<lparr>Overflow := Overflow r\<rparr>)"
    using arg_cong [OF checkOverflow_frame [OF r], of StructLogger] .
  then have "scan_step b v"
    using u same_pools_trans [OF u(2) same_pools_updates(1)]
    by (simp add: scan_step_def v_def checkRevert_def checkAssertion_def)
  moreover have "\<exists>m. b' = v\<lparr>OpcodeIndices := m\<rparr>"
    using assms r
    by (auto simp: processLog_def Let_def u_def [symmetric] v_def [symmetric] elim!: bindR_InrE split: if_splits)
       (rule exI [of _ "OpcodeIndices b'"], simp)+
  then have "scan_step v b'" by (auto simp: scan_step_def)
  ultimately show ?thesis by (rule scan_step_trans)
qed

lemma processLoop_frame:
  fixes b :: "('db, 'z) backst_scheme"
  assumes "foldR (processLog env tx (Some opt) logs) [0..<length logs] (cs, b) = Inr (cs', b')"
    and "\<not> CheckDeployedContract opt"
  shows "scan_step b b'"
proof -
  let ?P = "\<lambda>(cs :: callStack, u). scan_step b u"
  have "?P (cs', b')"
  proof (rule foldR_invariant [OF assms(1)])
    fix x s s' assume "?P s" "processLog env tx (Some opt) logs x s = Inr s'"
    then show "?P s'" using processLog_frame [OF _ assms(2)] scan_step_trans by (cases s; cases s') blast
  qed simp
  then show ?thesis by simp
qed

section \<open>What the output teaches\<close>

text \<open>
  What go-ethereum documents of \<^verbatim>\<open>UnpackValues\<close>, as far as the pools rely on it: it allocates the
  big integers it returns.
\<close>

definition unpack_ok :: "'e procenv_scheme \<Rightarrow> bool" where
  "unpack_ok env \<longleftrightarrow> (\<forall>Ts out h vs err h'. UnpackValues env Ts out h = ((vs, err), h') \<longrightarrow>
     (\<exists>k. h' = h @ k) \<and> (\<forall>v \<in> set vs. \<forall>p. LBigInt p \<in> set (leaves v) \<longrightarrow> (\<exists>n. big_get h' p = Inr n)))"

definition pools_ok :: "'e env_scheme \<Rightarrow> 'z argst_scheme \<Rightarrow> bool" where
  "pools_ok env b \<longleftrightarrow> arg_inv (fmtAddress env) b \<and> b32_ok b \<and> addresses b \<noteq> [] \<and> amounts_ok (bigptrs b) (bigs b)"

fun leaf_ok :: "bigs \<Rightarrow> leaf \<Rightarrow> bool" where
  "leaf_ok h (LBytes32 b) \<longleftrightarrow> length b = 32"
| "leaf_ok h (LBigInt p) \<longleftrightarrow> (\<exists>n. big_get h p = Inr n)"
| "leaf_ok h _ \<longleftrightarrow> True"

lemma leaves_bytes32: "LBytes32 b \<in> set (leaves v) \<Longrightarrow> length b = 32"
proof (induction v)
  case (VArray T vs)
  then show ?case by (auto simp: Bytes32Type_def split: if_splits)
qed auto

lemma amounts_ok_add:
  assumes "amounts_ok ps h" and "set ps \<subseteq> set qs" and "\<forall>p \<in> set qs. \<exists>n. big_get h p = Inr n"
  shows "amounts_ok qs h"
  using assms unfolding amounts_ok_def by blast

lemma AddBigInt_ptrs:
  assumes "arg_inv fa A" and "ArgPool_AddBigInt fa p A = Inr B"
  shows "set (bigptrs A) \<subseteq> set (bigptrs B) \<and> set (bigptrs B) \<subseteq> insert p (set (bigptrs A)) \<and> addresses B = addresses A"
proof -
  obtain q where q: "pools A (BigIntPool A) = Some q" and ne: "AddressPool A \<noteq> BigIntPool A"
    using assms(1) by (auto simp: arg_inv_def)
  show ?thesis using assms(2) q ne
    by (auto simp: ArgPool_AddBigInt_def pool_at_def ring_Add_def bigptrs_def addresses_def set_pool_def Let_def
        split: if_splits)
qed

lemma learn_pools_ok:
  assumes "pools_ok env A" and "leaf_ok (bigs A) l"
  shows "\<exists>B. learn (fmtAddress env) l A = Inr B \<and> pools_ok env B \<and> bigs B = bigs A"
proof -
  have inv: "arg_inv (fmtAddress env) A" using assms(1) by (simp add: pools_ok_def)
  obtain B where B: "learn (fmtAddress env) l A = Inr B" "arg_inv (fmtAddress env) B" "bigs B = bigs A"
    using learn_total [OF inv] by blast
  have "pools_ok env B"
  proof (cases l)
    case (LBytes32 b)
    then show ?thesis using B assms
      by (cases "bytes32pool_Contains b (Bytes32Pool A)")
         (auto simp: pools_ok_def ArgPool_AddBytes32_def b32_ok_def ring_Add_def addresses_def bigptrs_def)
  next
    case (LAddress a)
    have b32: "b32_ok B = b32_ok A" using B(1) LAddress
      by (auto simp: ArgPool_AddAddress_def set_pool_def b32_ok_def Let_def elim!: bindR_InrE split: if_splits)
    have "set (addresses A) \<subseteq> set (addresses B)" "bigptrs B = bigptrs A"
      using AddAddress_grows [OF inv, of a B] B(1) LAddress by auto
    then show ?thesis using B assms(1) b32 by (auto simp: pools_ok_def)
  next
    case (LBigInt p)
    have b32: "b32_ok B = b32_ok A" using B(1) LBigInt
      by (auto simp: ArgPool_AddBigInt_def set_pool_def b32_ok_def Let_def elim!: bindR_InrE split: if_splits)
    have ptrs: "set (bigptrs A) \<subseteq> set (bigptrs B)" "set (bigptrs B) \<subseteq> insert p (set (bigptrs A))" "addresses B = addresses A"
      using AddBigInt_ptrs [OF inv, of p B] B(1) LBigInt by auto
    have am: "amounts_ok (bigptrs A) (bigs A)" using assms(1) by (simp add: pools_ok_def)
    have "amounts_ok (bigptrs B) (bigs A)"
      by (rule amounts_ok_add [OF am ptrs(1)]) (use ptrs(2) am assms(2) LBigInt in \<open>auto simp: amounts_ok_def\<close>)
    then show ?thesis using B assms(1) b32 ptrs(3) by (simp add: pools_ok_def)
  qed (use B assms in \<open>auto simp: pools_ok_def add_offer b32_ok_def addresses_def bigptrs_def\<close>)
  with B show ?thesis by blast
qed

lemma learns_pools_ok:
  "pools_ok env A \<Longrightarrow> \<forall>l \<in> set ls. leaf_ok (bigs A) l \<Longrightarrow>
   \<exists>B. foldR (learn (fmtAddress env)) ls A = Inr B \<and> pools_ok env B \<and> bigs B = bigs A"
proof (induction ls arbitrary: A)
  case (Cons l ls)
  then obtain B where "learn (fmtAddress env) l A = Inr B" "pools_ok env B" "bigs B = bigs A"
    using learn_pools_ok [of env A l] by auto
  with Cons show ?case by fastforce
qed simp

lemma UpdatePool_pools_ok:
  fixes b :: "'z argst_scheme"
  assumes "pools_ok env b" and "unpack_ok env"
  shows "\<exists>u k. UpdatePool (fmtAddress env) (UnpackValues env Ts) output b = Inr u \<and> pools_ok env u \<and> bigs u = bigs b @ k"
proof -
  obtain vs err h where v: "UnpackValues env Ts output (bigs b) = ((vs, err), h)" by (metis surj_pair)
  from assms(2) [unfolded unpack_ok_def, rule_format, OF v]
  obtain k where k: "h = bigs b @ k" and big: "\<forall>v \<in> set vs. \<forall>p. LBigInt p \<in> set (leaves v) \<longrightarrow> (\<exists>n. big_get h p = Inr n)"
    by blast
  have ok: "pools_ok env (b\<lparr>bigs := h\<rparr>)"
    using assms(1) amounts_ok_append by (auto simp: pools_ok_def b32_ok_def addresses_def bigptrs_def k)
  let ?ls = "concat (map leaves vs)"
  have "leaf_ok h l" if l: "l \<in> set ?ls" for l
  proof -
    obtain v where "v \<in> set vs" "l \<in> set (leaves v)" using l by auto
    then show ?thesis using big leaves_bytes32 by (cases l) auto
  qed
  then obtain B where "foldR (learn (fmtAddress env)) ?ls (b\<lparr>bigs := h\<rparr>) = Inr B" "pools_ok env B" "bigs B = h"
    using learns_pools_ok [OF ok, of ?ls] by auto
  moreover have "foldR (updateRecursively (fmtAddress env)) vs st = foldR (learn (fmtAddress env)) ?ls st" for st :: "'z argst_scheme"
    unfolding foldR_concat foldR_map by (rule foldR_cong) (simp_all add: update_leaves)
  ultimately show ?thesis using v k by (simp add: UpdatePool_def)
qed

section \<open>The whole scan\<close>

text \<open>A chain ready for fuzzing, apart from the tables that nothing here touches.\<close>

lemma chain_ok_split:
  "chain_ok env b \<longleftrightarrow> pools_ok env b \<and> acc_inv env b \<and> (\<exists>as. accounts b = Some as \<and> as \<noteq> []) \<and>
     ContractsList b \<noteq> [] \<and> (\<forall>c \<in> set (ContractsList b). c \<noteq> [] \<and> contract_ready b c)"
  by (auto simp: chain_ok_def pools_ok_def)

lemma rest_tables:
  assumes "rest b' = rest b"
  shows "acc_inv env b' = acc_inv env b" "contract_ready b' = contract_ready b" "callable b' = callable b"
  using rest_backst [OF assms] callable_cong [of b' b] contract_ready_cong [of b' b]
  by (simp_all add: acc_inv_def account_list_def)

lemma rest_chain_ok:
  assumes "rest b' = rest b" and "pools_ok env b'" and "chain_ok env b"
  shows "chain_ok env b'"
  using rest_backst [OF assms(1)] rest_tables(1) [OF assms(1), of env] rest_tables(2) [OF assms(1)] assms(2,3)
  by (simp add: chain_ok_split)

lemma scan_pools_ok: "scan_step b b' \<Longrightarrow> pools_ok env b \<Longrightarrow> pools_ok env b'"
  by (simp add: scan_step_def same_pools_def pools_ok_def)

text \<open>
  After a transaction was generated, and on a trace of nested calls, the scan returns unless the trace makes it panic; it leaves a chain
  ready for fuzzing, touches nothing but pools, last result and coverage, and only adds big
  integers.
\<close>

lemma processLogs_chain:
  fixes b :: "('db, 'z) backst_scheme"
  assumes "StructLogger (LastTxRes b) = Some tracer" and "evm_calls (slLogs tracer)"
    and "\<not> CheckDeployedContract opt" and "chain_ok env b" and "LastTxIn b \<noteq> None" and "unpack_ok env"
  shows "if scan_panics (slLogs tracer) then processLogs env receipt tx (Some opt) b = Inl IndexOutOfRange
    else \<exists>b' k. processLogs env receipt tx (Some opt) b = Inr b' \<and> rest b' = rest b \<and> chain_ok env b' \<and>
    StructLogger (LastTxRes b') = Some tracer \<and> bigs b' = bigs b @ k"
proof -
  let ?b = "b\<lparr>LastTxRes := (LastTxRes b)\<lparr>Output := slOutput tracer, Receipt := Some receipt\<rparr>\<rparr>"
  have ok: "pools_ok env ?b" using assms(4) scan_pools_ok [of b ?b env] by (simp add: chain_ok_split scan_step_def)
  have "\<exists>u k. updateFromOutput env (Some opt) (slOutput tracer) ?b = Inr u \<and> pools_ok env u \<and> bigs u = bigs b @ k"
    using UpdatePool_pools_ok [OF ok assms(6)] ok assms(5) by (auto simp: updateFromOutput_def)
  then obtain u k where u: "updateFromOutput env (Some opt) (slOutput tracer) ?b = Inr u" "pools_ok env u" "bigs u = bigs b @ k"
    by blast
  note same = updateFromOutput_rest [OF u(1)]
  let ?u = "u\<lparr>LastTxRes := (LastTxRes u)\<lparr>AssertionAtDepth := -1, RevertAtDepth := -1, Overflow := []\<rparr>\<rparr>"
  note loop = loop_outcome [OF assms(2) disjI1 [OF assms(3)], of ?u env tx]
  have run: "processLogs env receipt tx (Some opt) b = bindR (foldR (processLog env tx (Some opt) (slLogs tracer))
      [0..<length (slLogs tracer)] ([txTo tx], ?u)) (\<lambda>(callSt, b). Inr b)"
    using u(1) assms(1) by (simp add: processLogs_def Let_def callStack_Push_def)
  show ?thesis
  proof (cases "scan_panics (slLogs tracer)")
    case True
    then show ?thesis using loop run by simp
  next
    case False
    then obtain cs b' where run': "foldR (processLog env tx (Some opt) (slLogs tracer)) [0..<length (slLogs tracer)]
      ([txTo tx], ?u) = Inr (cs, b')" using loop by auto
    have step: "scan_step ?u b'" by (rule processLoop_frame [OF run' assms(3)])
    have "processLogs env receipt tx (Some opt) b = Inr b'"
      using run run' by simp
    moreover have "rest b' = rest b" using step same_rest_rest(1) [OF same] by (simp add: scan_step_def)
    moreover have "pools_ok env b'"
      using scan_pools_ok [OF step, of env] scan_pools_ok [of u ?u env] u(2) by (simp add: scan_step_def)
    moreover have "StructLogger (LastTxRes b') = Some tracer"
      using step same_rest_backst(3) [OF same] assms(1) by (simp add: scan_step_def)
    moreover have "bigs b' = bigs b @ k" using step u(3) by (simp add: scan_step_def same_pools_def)
    ultimately show ?thesis using rest_chain_ok [OF _ _ assms(4)] False by auto
  qed
qed

end
