(* ===== verification/Chain.thy ===== *)
theory Chain
  imports ProcessorFrame
begin

text \<open>
  \<^verbatim>\<open>utils/snapshots.go\<close>, the transactions of \<^verbatim>\<open>utils/backend.go\<close> and the block timestamp of
  \<^verbatim>\<open>utils/heuristics.go\<close>: what happens to the world state when a transaction is committed, when it
  is rejected, and when the chain is reverted to a snapshot.
\<close>

section \<open>Data\<close>

text \<open>
  The world state of go-ethereum is a struct (\<open>'s\<close>) over memory that it points to (\<open>'h\<close>: maps,
  tries, journals), so that copying the struct shares this memory. A world is the pair.
\<close>

type_synonym ('h, 's) world = "'h \<times> 's"

text \<open>A block header, by the fields that change: its time (a pointer) and the gas used.\<close>

record header =
  hdTime :: "int option"
  hdGasUsed :: "64 word"

text \<open>
  Further parameters, of go-ethereum: a new chain (\<open>None\<close> is an error), the balance setter (of an amount behind a pointer), \<^verbatim>\<open>Copy\<close>,
  \<^verbatim>\<open>Snapshot\<close> and \<^verbatim>\<open>RevertToSnapshot\<close> of a world state, and \<^verbatim>\<open>core.ApplyTransaction\<close>: with a
  header and a gas pool it runs a transaction and returns its logs or an error, what the tracer
  saw, the gas used so far, and the new world.
\<close>

record ('h, 's) chainenv = "('h \<times> 's) genenv" +
  newCanonical :: "('h, 's) world option"
  SetBalance :: "('h, 's) world \<Rightarrow> address \<Rightarrow> bigptr \<Rightarrow> bigs \<Rightarrow> ('h, 's) world"
  Copy :: "'h \<Rightarrow> 's \<Rightarrow> 's \<times> 'h"
  Snapshot :: "('h, 's) world \<Rightarrow> nat \<times> ('h, 's) world"
  RevertToSnapshot :: "('h, 's) world \<Rightarrow> nat \<Rightarrow> ('h, 's) world"
  ApplyTransaction :: "('h, 's) world \<Rightarrow> header \<Rightarrow> 64 word \<Rightarrow> ethTx \<Rightarrow>
    (string + bytes list) \<times> structLogger \<times> 64 word \<times> ('h, 's) world"

text \<open>
  The state of the fuzzer: the backend, the package variables for the default header and the
  snapshot (\<open>None\<close> for nil), the results of \<^verbatim>\<open>time.Now().Unix()\<close> to come, the results of the fuzzer, and the
  traces that were dumped to files.
\<close>

record ('h, 's) fuzzst = "('h \<times> 's) backst" +
  defaultHeader :: "header option"
  backendSnapshot :: "'s option"
  clock :: "nat \<Rightarrow> int"
  result :: "string \<rightharpoonup> (string \<rightharpoonup> string)"
  dumps :: "string \<rightharpoonup> structLog list"

section \<open>Snapshots\<close>

definition SnapshotBackend ::
  "('h, 's, 'e) chainenv_scheme \<Rightarrow> ('h, 's, 'z) fuzzst_scheme \<Rightarrow> ('h, 's, 'z) fuzzst_scheme" where
  "SnapshotBackend env b =
     (let (h, s) = StateDB b; (snap, h) = Copy env h s in
      b\<lparr>StateDB := (h, s), backendSnapshot := Some snap\<rparr>)"

text \<open>\<^verbatim>\<open>*backend.StateDB = *backendSnapshot\<close>: the struct is copied, not what it points to.\<close>

definition RevertBackend :: "('h, 's, 'z) fuzzst_scheme \<Rightarrow> ('h, 's, 'z) fuzzst_scheme res" where
  "RevertBackend b =
     (case backendSnapshot b of
        None \<Rightarrow> Inl NilDeref
      | Some snap \<Rightarrow> Inr (b\<lparr>StateDB := (fst (StateDB b), snap)\<rparr>))"

section \<open>Transactions\<close>

text \<open>The tracer is filled while the transaction runs; on an error the logs are not processed.\<close>

definition commitTransaction ::
  "('h, 's, 'e) chainenv_scheme \<Rightarrow> ethTx \<Rightarrow> 64 word \<Rightarrow> header \<Rightarrow> Options option \<Rightarrow> ('h, 's, 'z) fuzzst_scheme \<Rightarrow>
   ((string option \<times> bytes list option) \<times> header \<times> ('h, 's, 'z) fuzzst_scheme) res" where
  "commitTransaction env tx gp hdr options b =
     (let (snap, w) = Snapshot env (StateDB b);
          (outcome, tracer, used, w) = ApplyTransaction env w hdr gp tx;
          hdr = hdr\<lparr>hdGasUsed := used\<rparr>;
          b = b\<lparr>StateDB := w, LastTxRes := (LastTxRes b)\<lparr>StructLogger := Some tracer\<rparr>\<rparr> in
      case outcome of
        Inl err \<Rightarrow> Inr ((Some err, None), hdr, b\<lparr>StateDB := RevertToSnapshot env w snap\<rparr>)
      | Inr receipt \<Rightarrow> bindR (processLogs env receipt tx options b) (\<lambda>b. Inr ((None, Some receipt), hdr, b)))"

definition CommitTransaction ::
  "('h, 's, 'e) chainenv_scheme \<Rightarrow> ethTx \<Rightarrow> Options option \<Rightarrow> header \<Rightarrow> ('h, 's, 'z) fuzzst_scheme \<Rightarrow>
   ((string option \<times> bytes list option) \<times> header \<times> ('h, 's, 'z) fuzzst_scheme) res" where
  "CommitTransaction env tx options hdr b =
     (let b = b\<lparr>TxCount := TxCount b + 1, LastTxRes := (LastTxRes b)\<lparr>StructLogger := None, Receipt := None\<rparr>\<rparr> in
      commitTransaction env tx maxGasPool hdr options b)"

section \<open>The header and its timestamp\<close>

text \<open>The current time, and the clock afterwards.\<close>

definition now :: "('h, 's, 'z) fuzzst_scheme \<Rightarrow> int \<times> ('h, 's, 'z) fuzzst_scheme" where
  "now b = (clock b 0, b\<lparr>clock := \<lambda>n. clock b (Suc n)\<rparr>)"

text \<open>The header is made once; all transactions share it.\<close>

definition GetDefaultHeader :: "('h, 's, 'z) fuzzst_scheme \<Rightarrow> header \<times> ('h, 's, 'z) fuzzst_scheme" where
  "GetDefaultHeader b =
     (case defaultHeader b of
        Some hdr \<Rightarrow> (hdr, b)
      | None \<Rightarrow> let (t, b) = now b; hdr = \<lparr>hdTime = Some t, hdGasUsed = 0\<rparr> in
                (hdr, b\<lparr>defaultHeader := Some hdr\<rparr>))"

text \<open>
  The pool reads the clock when it has no timestamp; what it does not read is not used.
\<close>

definition poolClock :: "('h, 's, 'z) fuzzst_scheme \<Rightarrow> int \<times> ('h, 's, 'z) fuzzst_scheme" where
  "poolClock b = (if timestamppool_Size (TimestampPool b) = 0 then now b else (0, b))"

text \<open>The transaction counter is read as a signed number.\<close>

definition GenTimestamp :: "('h, 's, 'z) fuzzst_scheme \<Rightarrow> (int option \<times> ('h, 's, 'z) fuzzst_scheme) res" where
  "GenTimestamp b =
     (let (t, b) = poolClock b in
      if sint (GetCount (backStats b)) < 2048
      then bindR (ArgPool_CurrentTimestamp t b) (\<lambda>ts. Inr (ts, b))
      else bindR (ArgPool_NextTimestamp t b) (\<lambda>((ts, shouldRevert), b).
        let b = b\<lparr>backStats := ResetCounter (backStats b)\<rparr> in
        if shouldRevert then bindR (RevertBackend b) (\<lambda>b. Inr (ts, b)) else Inr (ts, b)))"

section \<open>Lemmas\<close>

text \<open>
  What go-ethereum documents: the trace of a transaction that is run enters and leaves calls one level at a time, and
  reverting to a snapshot undoes what happened since. It documents nothing of the words on the stack: the steps that fail are
  logged as well, so that the code of a contract may make the scan of the trace panic.
\<close>

definition traces_ok :: "('h, 's, 'e) chainenv_scheme \<Rightarrow> bool" where
  "traces_ok env \<longleftrightarrow> (\<forall>w hdr gp tx receipt tracer used w'.
     ApplyTransaction env w hdr gp tx = (Inr receipt, tracer, used, w') \<longrightarrow> evm_calls (slLogs tracer))"

definition underflows :: "('h, 's, 'e) chainenv_scheme \<Rightarrow> bool" where
  "underflows env \<longleftrightarrow> (\<exists>w hdr gp tx receipt tracer used w'.
     ApplyTransaction env w hdr gp tx = (Inr receipt, tracer, used, w') \<and> scan_panics (slLogs tracer))"

definition same_world :: "('h, 's, 'e) chainenv_scheme \<Rightarrow> ('h, 's) world \<Rightarrow> ('h, 's) world \<Rightarrow> bool" where
  "same_world env w w' \<longleftrightarrow> (\<forall>a. GetBalance env w a = GetBalance env w' a \<and> GetNonce env w a = GetNonce env w' a)"

definition revert_ok :: "('h, 's, 'e) chainenv_scheme \<Rightarrow> bool" where
  "revert_ok env \<longleftrightarrow> (\<forall>w snap w' hdr gp tx outcome tracer used w''.
     Snapshot env w = (snap, w') \<longrightarrow> ApplyTransaction env w' hdr gp tx = (outcome, tracer, used, w'') \<longrightarrow>
     same_world env (RevertToSnapshot env w'' snap) w)"

text \<open>What a committed transaction leaves alone.\<close>

definition same_tables :: "('h, 's, 'z) fuzzst_scheme \<Rightarrow> ('h, 's, 'z) fuzzst_scheme \<Rightarrow> bool" where
  "same_tables b b' \<longleftrightarrow>
     accounts b' = accounts b \<and> keys b' = keys b \<and> addressToKey b' = addressToKey b \<and> keyToAddress b' = keyToAddress b \<and>
     ABIMap b' = ABIMap b \<and> Payable b' = Payable b \<and> DeployedContracts b' = DeployedContracts b \<and>
     ContractsList b' = ContractsList b \<and> backMetadata b' = backMetadata b \<and> LastTxIn b' = LastTxIn b \<and>
     backStats b' = backStats b \<and> metadataJSONMap b' = metadataJSONMap b \<and> DeployedBytecodes b' = DeployedBytecodes b \<and>
     backst.more b' = backst.more b"

lemma same_tables_rest:
  fixes b :: "('h, 's, 'z) fuzzst_scheme"
  assumes "rest b' = rest b" shows "same_tables b b'"
  using rest_backst [OF assms] by (simp add: same_tables_def)

lemma same_tables_trans: "same_tables a b \<Longrightarrow> same_tables b c \<Longrightarrow> same_tables a c"
  by (simp add: same_tables_def)

lemma same_tables_updates [simp]:
  fixes b :: "('h, 's, 'z) fuzzst_scheme"
  shows "same_tables b (b\<lparr>StateDB := w\<rparr>)" "same_tables b (b\<lparr>LastTxRes := r\<rparr>)" "same_tables b (b\<lparr>TxCount := n\<rparr>)"
    "same_tables b (b\<lparr>StateDB := w, LastTxRes := r\<rparr>)" "same_tables b (b\<lparr>TxCount := n, LastTxRes := r\<rparr>)"
  by (cases b; simp add: same_tables_def)+

lemma same_tables_more:
  assumes "same_tables b b'"
  shows "defaultHeader b' = defaultHeader b" "backendSnapshot b' = backendSnapshot b" "clock b' = clock b" "result b' = result b"
    "dumps b' = dumps b"
  using assms by (cases b; cases b'; simp add: same_tables_def)+

lemma same_tables_ok:
  assumes "same_tables b b'"
  shows "acc_inv env b' = acc_inv env b" "contract_ready b' = contract_ready b" "callable b' = callable b"
  using assms callable_cong [of b' b] contract_ready_cong [of b' b]
  by (simp_all add: same_tables_def acc_inv_def account_list_def)

lemma same_tables_chain_ok:
  assumes "same_tables b b'" and "pools_ok env b'" and "chain_ok env b"
  shows "chain_ok env b'"
  using assms same_tables_ok(1) [OF assms(1), of env] same_tables_ok(2) [OF assms(1)]
  by (simp add: chain_ok_split same_tables_def)

lemma chain_ok_updates [simp]:
  fixes b :: "('h, 's, 'z) fuzzst_scheme"
  shows "chain_ok env (b\<lparr>StateDB := w\<rparr>) = chain_ok env b" "chain_ok env (b\<lparr>LastTxIn := i\<rparr>) = chain_ok env b"
    "chain_ok env (b\<lparr>LastTxRes := r\<rparr>) = chain_ok env b" "chain_ok env (b\<lparr>TxCount := n\<rparr>) = chain_ok env b"
    "chain_ok env (b\<lparr>backStats := s\<rparr>) = chain_ok env b" "chain_ok env (b\<lparr>defaultHeader := hdr\<rparr>) = chain_ok env b"
    "chain_ok env (b\<lparr>backendSnapshot := snap\<rparr>) = chain_ok env b" "chain_ok env (b\<lparr>clock := c\<rparr>) = chain_ok env b"
    "chain_ok env (b\<lparr>result := m\<rparr>) = chain_ok env b" "chain_ok env (b\<lparr>dumps := d\<rparr>) = chain_ok env b"
  by (simp_all add: chain_ok_def arg_inv_def b32_ok_def addresses_def bigptrs_def acc_inv_def account_list_def
      contract_ready_def callable_def abi_at_def)

text \<open>
  A transaction on a chain ready for fuzzing: no panic, whatever go-ethereum makes of it, but for a trace that makes its scan panic.
\<close>

lemma CommitTransaction_ok:
  fixes b :: "('h, 's, 'z) fuzzst_scheme"
  assumes "chain_ok env b" and "LastTxIn b \<noteq> None" and "\<not> CheckDeployedContract opt" and "traces_ok env" and "unpack_ok env"
    and "\<not> crashes (underflows env) (Some (CommitTransaction env tx (Some opt) hdr b))"
  shows "\<exists>r hdr' b' k tracer. CommitTransaction env tx (Some opt) hdr b = Inr (r, hdr', b') \<and> chain_ok env b' \<and>
    same_tables b b' \<and> StructLogger (LastTxRes b') = Some tracer \<and> bigs b' = bigs b @ k \<and> TxCount b' = TxCount b + 1"
proof -
  let ?b = "b\<lparr>TxCount := TxCount b + 1, LastTxRes := (LastTxRes b)\<lparr>StructLogger := None, Receipt := None\<rparr>\<rparr>"
  obtain snap w where snap: "Snapshot env (StateDB b) = (snap, w)" by (cases "Snapshot env (StateDB b)")
  obtain outcome tracer used w' where ap: "ApplyTransaction env w hdr maxGasPool tx = (outcome, tracer, used, w')"
    by (cases "ApplyTransaction env w hdr maxGasPool tx")
  let ?u = "?b\<lparr>StateDB := w', LastTxRes := (LastTxRes ?b)\<lparr>StructLogger := Some tracer\<rparr>\<rparr>"
  have upools: "pools_ok env ?u" "pools_ok env (?u\<lparr>StateDB := x\<rparr>)" for x
    using assms(1) by (auto simp: chain_ok_split pools_ok_def arg_inv_def b32_ok_def addresses_def bigptrs_def)
  have ut: "same_tables b ?u" "same_tables b (?u\<lparr>StateDB := x\<rparr>)" for x
    by (intro same_tables_trans [OF same_tables_updates(5) same_tables_updates(4)])
       (intro same_tables_trans [OF same_tables_trans [OF same_tables_updates(5) same_tables_updates(4)] same_tables_updates(1)])
  have uok: "chain_ok env ?u" by (rule same_tables_chain_ok [OF ut(1) upools(1) assms(1)])
  show ?thesis
  proof (cases outcome)
    case (Inl err)
    let ?e = "?u\<lparr>StateDB := RevertToSnapshot env w' snap\<rparr>"
    have "CommitTransaction env tx (Some opt) hdr b = Inr ((Some err, None), hdr\<lparr>hdGasUsed := used\<rparr>, ?e)"
      using snap ap Inl by (simp add: CommitTransaction_def commitTransaction_def)
    moreover have "chain_ok env ?e" by (rule same_tables_chain_ok [OF ut(2) upools(2) assms(1)])
    ultimately show ?thesis using ut(2) by (intro exI conjI) (assumption | simp)+
  next
    case (Inr receipt)
    have tr: "evm_calls (slLogs tracer)" using assms(4) ap Inr unfolding traces_ok_def by blast
    have run: "CommitTransaction env tx (Some opt) hdr b =
        bindR (processLogs env receipt tx (Some opt) ?u) (\<lambda>b. Inr ((None, Some receipt), hdr\<lparr>hdGasUsed := used\<rparr>, b))"
      using snap ap Inr by (simp add: CommitTransaction_def commitTransaction_def)
    have "StructLogger (LastTxRes ?u) = Some tracer" "LastTxIn ?u \<noteq> None" using assms(2) by simp_all
    note scan = processLogs_chain [OF this(1) tr assms(3) uok this(2) assms(5), of receipt tx]
    have "\<not> scan_panics (slLogs tracer)"
    proof
      assume bad: "scan_panics (slLogs tracer)"
      then have "underflows env" using ap Inr unfolding underflows_def by blast
      then show False using assms(6) scan bad run by simp
    qed
    with scan obtain b' k where p: "processLogs env receipt tx (Some opt) ?u = Inr b'" "rest b' = rest ?u" "chain_ok env b'"
      "StructLogger (LastTxRes b') = Some tracer" "bigs b' = bigs ?u @ k" by auto
    have "CommitTransaction env tx (Some opt) hdr b = Inr ((None, Some receipt), hdr\<lparr>hdGasUsed := used\<rparr>, b')"
      using run p(1) by simp
    moreover have "same_tables b b'" by (rule same_tables_trans [OF ut(1) same_tables_rest [OF p(2)]])
    moreover have "TxCount b' = TxCount b + 1" using rest_backst(12) [OF p(2)] by simp
    moreover have "bigs b' = bigs b @ k" using p(5) by simp
    ultimately show ?thesis using p(3,4) by blast
  qed
qed

section \<open>Properties\<close>

text \<open>
  C18: A rejected transaction (nonce, balance or gas) counts as a transaction and leaves balances and
  nonces of the world as they were; the pool, the coverage and the verdicts of the last transaction
  (output, assertion and revert depth, overflow) also stay, so they still describe the transaction
  before, while its receipt is gone.
\<close>

theorem commit_rejected:
  assumes "Snapshot env (StateDB b) = (snap, w)" and "ApplyTransaction env w hdr maxGasPool tx = (Inl err, tracer, used, w')"
    and "revert_ok env"
  shows "\<exists>hdr' b'. CommitTransaction env tx options hdr b = Inr ((Some err, None), hdr', b') \<and>
    TxCount b' = TxCount b + 1 \<and> same_world env (StateDB b') (StateDB b) \<and>
    contents b' = contents b \<and> OpcodeIndices b' = OpcodeIndices b \<and>
    LastTxRes b' = (LastTxRes b)\<lparr>StructLogger := Some tracer, Receipt := None\<rparr>"
proof -
  have "same_world env (RevertToSnapshot env w' snap) (StateDB b)"
    using assms unfolding revert_ok_def by blast
  then show ?thesis using assms(1,2)
    by (simp add: CommitTransaction_def commitTransaction_def contents_def addresses_def bigptrs_def)
qed

text \<open>
  C17: The schedule of block timestamps: as long as fewer than 2048 transactions were counted, the
  current timestamp of the pool is used again and nothing changes; then the next timestamp is
  used, the counter restarts at zero, and the world is reverted to the snapshot exactly if this is
  the last timestamp of the pool.
\<close>

theorem timestamp_schedule:
  fixes b :: "('h, 's, 'z) fuzzst_scheme"
  assumes "arg_inv fa b" and "p_storage (TimestampPool b) \<noteq> []" and "backendSnapshot b = Some snap"
  shows "\<exists>b'. let p = TimestampPool b; L = length (p_storage p); j = (p_idx p + 1) mod L in
    if sint (GetCount (backStats b)) < 2048
    then GenTimestamp b = Inr (Some (p_storage p ! p_idx p), b') \<and> b' = b
    else GenTimestamp b = Inr (Some (p_storage p ! j), b') \<and> p_idx (TimestampPool b') = j \<and>
      p_storage (TimestampPool b') = p_storage p \<and> GetCount (backStats b') = 0 \<and>
      StateDB b' = (if j + 1 = L then (fst (StateDB b), snap) else StateDB b)"
proof -
  have clk: "poolClock b = (0, b)" using assms(2) by (simp add: poolClock_def timestamppool_Size_def)
  have idx: "p_idx (TimestampPool b) < length (p_storage (TimestampPool b))"
    using assms(1,2) by (simp add: arg_inv_def ts_ok_def ts_inv_def split: if_splits)
  show ?thesis
  proof (cases "sint (GetCount (backStats b)) < 2048")
    case True
    then have "GenTimestamp b = Inr (Some (p_storage (TimestampPool b) ! p_idx (TimestampPool b)), b)"
      using assms(2) idx by (simp add: GenTimestamp_def clk ArgPool_CurrentTimestamp_def timestamppool_Size_def
          timestamppool_GetCurrent_def)
    then show ?thesis using True by (intro exI [of _ b]) (simp add: Let_def)
  next
    case False
    note step = NextTimestamp_step [OF assms(2), of 0]
    show ?thesis using False step assms(3) stats.count_reset
      by (auto simp: GenTimestamp_def clk RevertBackend_def Let_def)
  qed
qed

section \<open>Witnesses\<close>

text \<open>
  A chain whose world is a memory of balances (of all accounts alike) and a struct that holds one
  address into it. A transaction costs 1; its call reverts if it has a value, and it is rejected if the value
  exceeds the balance.
\<close>

definition example_tracer_of :: "8 word \<Rightarrow> structLogger" where
  "example_tracer_of opc = \<lparr>slOutput = [], slLogs = [\<lparr>Pc = 0, Op = opc, Depth = 1, Stack = [0, 0], Memory = []\<rparr>]\<rparr>"

definition example_chainenv :: "(nat \<Rightarrow> nat, nat) chainenv" where
  "example_chainenv = genenv.extend
     (procenv.extend example_procenv (genenv.fields (\<lambda>_ _ _ _. Some [1]) (\<lambda>(h, s) _. int (h s)) (\<lambda>_ _. 3)))
     (chainenv.fields (Some (\<lambda>_. 0, 0)) (\<lambda>w _ _ _. w)
        (\<lambda>h s. (Suc s, h(Suc s := h s))) (\<lambda>(h, s). (h s, (h, s))) (\<lambda>(h, s) snap. (h(s := snap), s))
        (\<lambda>(h, s) hdr gp tx.
           if txValue tx > int (h s) then (Inl ''insufficient balance'', \<lparr>slOutput = [], slLogs = []\<rparr>, 0, (h, s))
           else (Inr [], example_tracer_of (if txValue tx > 0 then op_REVERT else 0), 21000, (h(s := h s - 1), s))))"

lemma example_chainenv_simps [simp]:
  "fmtAddress example_chainenv = fmtAddress example_env" "PubkeyToAddress example_chainenv k = word_of_int (k + 4096)"
  "SignTx example_chainenv tx k = Some (tx\<lparr>txSig := Some k\<rparr>)"
  "Sender example_chainenv tx = map_option (\<lambda>k. word_of_int (k + 4096)) (txSig tx)"
  "UnpackValues example_chainenv Ts out bs = (([], None), bs)"
  "Pack example_chainenv e m vs bs = Some [1]" "GetBalance example_chainenv (h, s) a = int (h s)"
  "GetNonce example_chainenv w a = 3"
  "Copy example_chainenv h s = (Suc s, h(Suc s := h s))" "Snapshot example_chainenv (h, s) = (h s, (h, s))"
  "RevertToSnapshot example_chainenv (h, s) snap = (h(s := snap), s)"
  "ApplyTransaction example_chainenv (h, s) hdr gp tx =
     (if txValue tx > int (h s) then (Inl ''insufficient balance'', \<lparr>slOutput = [], slLogs = []\<rparr>, 0, (h, s))
      else (Inr [], example_tracer_of (if txValue tx > 0 then op_REVERT else 0), 21000, (h(s := h s - 1), s)))"
  by (simp_all add: example_chainenv_def example_procenv_def example_txenv_def env.defs txenv.defs procenv.defs genenv.defs
      chainenv.defs example_env_def)

definition example_fuzz :: "(nat \<Rightarrow> nat, nat) fuzzst" where
  "example_fuzz = backst.extend (example_chain_at (\<lambda>_. 40, 0)) (fuzzst.fields None None (\<lambda>_. 1500000000) Map.empty Map.empty)"

lemma example_chainenv_ok:
  "sign_ok example_chainenv" "pack_ok example_chainenv" "balances_ok example_chainenv" "unpack_ok example_chainenv"
  "traces_ok example_chainenv" "revert_ok example_chainenv" "\<not> underflows example_chainenv"
proof -
  show "sign_ok example_chainenv" unfolding sign_ok_def by (intro allI exI [of _ "Some k" for k]) simp
  show "traces_ok example_chainenv"
    by (auto simp: traces_ok_def evm_calls_def example_tracer_of_def split: if_splits)
  show "\<not> underflows example_chainenv"
    by (auto simp: underflows_def scan_panics_def operands_missing_def example_tracer_of_def split: if_splits)
  show "revert_ok example_chainenv" by (auto simp: revert_ok_def same_world_def split: if_splits)
qed (auto simp: pack_ok_def balances_ok_def unpack_ok_def split: if_splits)

lemma chain_ok_extend: "chain_ok env (backst.extend b f) = chain_ok env b"
  by (cases b) (simp add: backst.defs chain_ok_def arg_inv_def b32_ok_def addresses_def bigptrs_def acc_inv_def
      account_list_def contract_ready_def callable_def abi_at_def)

lemma example_fuzz_ok: "chain_ok example_chainenv example_fuzz"
  unfolding example_fuzz_def chain_ok_extend by (rule example_chain_ok) simp_all

lemma example_fuzz_simps [simp]:
  "StateDB example_fuzz = (\<lambda>_. 40, 0)" "backendSnapshot example_fuzz = None" "defaultHeader example_fuzz = None"
  "LastTxRes example_fuzz = lastRes_zero" "backStats example_fuzz = stats_zero" "TimestampPool example_fuzz = GetTimestampPool"
  "DeployedContracts example_fuzz = [''Token'' \<mapsto> \<lparr>Addresses = [9], Methods = [''mint'']\<rparr>]"
  "ABIMap example_fuzz = Some [''Token'' \<mapsto> token_abi]" "addressToKey example_fuzz = [4097 \<mapsto> 0]" "bigs example_fuzz = [50, 0]"
  "Payable example_fuzz = Some [''Token'' \<mapsto> [''mint'' \<mapsto> True]]" "TxCount example_fuzz = 0" "result example_fuzz = Map.empty"
  "dumps example_fuzz = Map.empty"
  by (simp_all add: example_fuzz_def backst.defs fuzzst.defs example_chain_at_def new_backend_def utils_init_def utilst.defs
      genst.defs start_with_eq)

theorem commit_rejected_witness:
  "\<exists>hdr' b'. CommitTransaction example_chainenv (example_call\<lparr>txValue := 41\<rparr>) None \<lparr>hdTime = None, hdGasUsed = 0\<rparr>
     (example_fuzz\<lparr>LastTxRes := lastRes_zero\<lparr>RevertAtDepth := 1\<rparr>\<rparr>) = Inr ((Some ''insufficient balance'', None), hdr', b') \<and>
     TxCount b' = 1 \<and> RevertAtDepth (LastTxRes b') = 1"
proof -
  let ?b = "example_fuzz\<lparr>LastTxRes := lastRes_zero\<lparr>RevertAtDepth := 1\<rparr>\<rparr>"
  have snap: "Snapshot example_chainenv (StateDB ?b) = (40, (\<lambda>_. 40, 0))" by simp
  have ap: "ApplyTransaction example_chainenv (\<lambda>_. 40, 0) \<lparr>hdTime = None, hdGasUsed = 0\<rparr> maxGasPool (example_call\<lparr>txValue := 41\<rparr>) =
      (Inl ''insufficient balance'', \<lparr>slOutput = [], slLogs = []\<rparr>, 0, (\<lambda>_. 40, 0))" by (simp add: example_call_def)
  from commit_rejected [OF snap ap example_chainenv_ok(6), of None] show ?thesis by auto
qed

text \<open>The options of the fuzzer's loop.\<close>

definition loop_options :: Options where
  "loop_options = \<lparr>UpdateCoverage = True, CheckDeployedContract = False, UpdateArgPool = True, ExtractTimestamps = False\<rparr>"

definition example_input :: LastTxInput where
  "example_input = \<lparr>liContract = ''Token'', liMethod = ''mint'', liConst = False, liEther = 0, liInput = [], liOutArgs = [], liSender = 4097\<rparr>"

theorem timestamp_schedule_witness:
  "\<exists>b'. GenTimestamp (example_fuzz\<lparr>TimestampPool := timestamppool_Add 7 GetTimestampPool, backendSnapshot := Some 1\<rparr>) = Inr (Some 7, b')"
proof -
  let ?b = "example_fuzz\<lparr>TimestampPool := timestamppool_Add 7 GetTimestampPool, backendSnapshot := Some 1\<rparr>"
  have p: "timestamppool_Add 7 GetTimestampPool = \<lparr>p_idx = 0, p_storage = [7], p_storageMap = {7}\<rparr>"
    by (simp add: timestamppool_defs)
  have "arg_inv (fmtAddress example_chainenv) example_fuzz" using example_fuzz_ok by (simp add: chain_ok_def)
  then have "arg_inv (fmtAddress example_chainenv) ?b"
    by (simp add: arg_inv_def ts_ok_def ts_inv_def ts_items_def p)
  from timestamp_schedule [OF this, of 1] show ?thesis
    by (auto simp: p Let_def GetCount_def stats_zero_def split: if_splits)
qed

end
