(* ===== verification/Startup.thy ===== *)
theory Startup
  imports Chain
begin

text \<open>
  \<^verbatim>\<open>NewBackend\<close> of \<^verbatim>\<open>utils/backend.go\<close>: the accounts get their balances, the recorded deployment
  transactions are run, the pools get their initial content, and the deployed contracts are listed.
\<close>

section \<open>Operations\<close>

text \<open>The source exits in two places; these are not panics.\<close>

datatype 'a outcome = Exit int | Returned 'a

definition deploy_options :: Options where
  "deploy_options = \<lparr>UpdateCoverage = True, CheckDeployedContract = True, UpdateArgPool = False, ExtractTimestamps = True\<rparr>"

text \<open>The new struct, over the package state. The balances are set to the amounts behind the accounts' pointers, of which the world takes the values.\<close>

definition freshBackend :: "('h, 's) world \<Rightarrow> string \<Rightarrow> ('h, 's, 'z) fuzzst_scheme \<Rightarrow> ('h, 's, 'z) fuzzst_scheme" where
  "freshBackend w metadata b =
     b\<lparr>StateDB := w, DeployedContracts := Map.empty, ContractsList := [], backMetadata := metadata, LastTxIn := None,
       LastTxRes := lastRes_zero, OpcodeIndices := Map.empty, backStats := stats_zero, TxCount := 0\<rparr>"

definition setBalances ::
  "('h, 's, 'e) chainenv_scheme \<Rightarrow> Account list \<Rightarrow> ('h, 's, 'z) fuzzst_scheme \<Rightarrow> ('h, 's, 'z) fuzzst_scheme" where
  "setBalances env =
     fold (\<lambda>account b. b\<lparr>StateDB := SetBalance env (StateDB b) (Address account) (Amount account) (bigs b)\<rparr>)"

text \<open>All deployments share the default header; rejected ones are skipped.\<close>

definition deployAll ::
  "('h, 's, 'e) chainenv_scheme \<Rightarrow> ethTx list \<Rightarrow> ('h, 's, 'z) fuzzst_scheme \<Rightarrow> ('h, 's, 'z) fuzzst_scheme res" where
  "deployAll env =
     foldR (\<lambda>tx b. let (hdr, b) = GetDefaultHeader b in
       bindR (CommitTransaction env tx (Some deploy_options) hdr b) (\<lambda>(_, hdr, b). Inr (b\<lparr>defaultHeader := Some hdr\<rparr>)))"

definition appendMethod :: "string \<Rightarrow> string \<Rightarrow> ('h, 's, 'z) fuzzst_scheme \<Rightarrow> ('h, 's, 'z) fuzzst_scheme res" where
  "appendMethod contract m b =
     (case DeployedContracts b contract of
        None \<Rightarrow> Inl NilDeref
      | Some k \<Rightarrow> Inr (b\<lparr>DeployedContracts := (DeployedContracts b)(contract \<mapsto> k\<lparr>Methods := Methods k @ [m]\<rparr>)\<rparr>))"

definition listContract ::
  "('h, 's, 'e) chainenv_scheme \<Rightarrow> string \<Rightarrow> string \<Rightarrow> ('h, 's, 'z) fuzzst_scheme \<Rightarrow> ('h, 's, 'z) fuzzst_scheme res" where
  "listContract env metadata contract b =
     bindR (GetContractABI env contract metadata b) (\<lambda>(evmABI, b).
     bindR (foldR (appendMethod contract) (rangeOrder env (dom (ABIMethods evmABI))) b) (\<lambda>b.
     if contract \<noteq> ''Migrations''
     then bindR (GetContractABI env contract (backMetadata b) b) (\<lambda>(evmABI, b).
       Inr (if card (dom (ABIMethods evmABI)) > 0 then b\<lparr>ContractsList := ContractsList b @ [contract]\<rparr> else b))
     else Inr b))"

definition listContracts ::
  "('h, 's, 'e) chainenv_scheme \<Rightarrow> string \<Rightarrow> ('h, 's, 'z) fuzzst_scheme \<Rightarrow> ('h, 's, 'z) fuzzst_scheme res" where
  "listContracts env metadata b = foldR (listContract env metadata) (rangeOrder env (dom (DeployedContracts b))) b"

text \<open>The accounts that \<^verbatim>\<open>InitArgPool\<close> reads again are the cached ones.\<close>

definition NewBackend ::
  "('h, 's, 'e) chainenv_scheme \<Rightarrow> string \<Rightarrow> ('h, 's, 'z) fuzzst_scheme \<Rightarrow> ('h, 's, 'z) fuzzst_scheme outcome res" where
  "NewBackend env metadata b =
     bindR (GetABIMap env metadata b) (\<lambda>(_, b).
     bindR (case newCanonical env of None \<Rightarrow> Inl (Panic ''error creating blockchain'') | Some w \<Rightarrow> Inr w) (\<lambda>w.
     bindR (ReadAccounts env metadata b) (\<lambda>(as, b).
     bindR (getTxJSONFile env metadata (setBalances env as (freshBackend w metadata b))) (\<lambda>(txFile, b).
     bindR (ReadTransactions env txFile b) (\<lambda>(txs, b).
     bindR (deployAll env txs b) (\<lambda>b.
     bindR (ReadAccounts env metadata b) (\<lambda>(as, b).
     bindR (InitArgPool (fmtAddress env) (map (\<lambda>a. (Address a, Amount a)) as) b) (\<lambda>b.
     bindR (listContracts env metadata (RemoveLibraries env b)) (\<lambda>b.
     bindR (ProcessConfig env metadata b) (\<lambda>b.
     Inr (if length (ContractsList b) < 1 then Exit 0 else Returned b)))))))))))"

section \<open>Lemmas\<close>

lemma appendMethods:
  assumes "DeployedContracts b c = Some k"
  shows "foldR (appendMethod c) ms b = Inr (b\<lparr>DeployedContracts := (DeployedContracts b)(c \<mapsto> k\<lparr>Methods := Methods k @ ms\<rparr>)\<rparr>)"
  using assms
proof (induction ms arbitrary: b k)
  case Nil
  then show ?case by (simp add: fun_upd_idem)
next
  case (Cons m ms)
  let ?b = "b\<lparr>DeployedContracts := (DeployedContracts b)(c \<mapsto> k\<lparr>Methods := Methods k @ [m]\<rparr>)\<rparr>"
  have "DeployedContracts ?b c = Some (k\<lparr>Methods := Methods k @ [m]\<rparr>)" by simp
  note IH = Cons.IH [OF this]
  have app: "appendMethod c m b = Inr ?b" using Cons.prems by (simp add: appendMethod_def)
  have upd: "?b\<lparr>DeployedContracts := (DeployedContracts ?b)(c \<mapsto> x)\<rparr> = b\<lparr>DeployedContracts := (DeployedContracts b)(c \<mapsto> x)\<rparr>" for x
    by simp
  show ?case unfolding foldR.simps app bindR_simps IH upd by (simp add: fun_upd_def)
qed

text \<open>The names of the methods of a contract, in the order of the range loop.\<close>

definition methodNames :: "'e env_scheme \<Rightarrow> (string \<rightharpoonup> abi) \<Rightarrow> string \<Rightarrow> string list" where
  "methodNames env abis c = (case abis c of None \<Rightarrow> [] | Some evmABI \<Rightarrow> rangeOrder env (dom (ABIMethods evmABI)))"

definition isListed :: "(string \<rightharpoonup> abi) \<Rightarrow> string \<Rightarrow> bool" where
  "isListed abis c \<longleftrightarrow> c \<noteq> ''Migrations'' \<and> (\<exists>evmABI. abis c = Some evmABI \<and> card (dom (ABIMethods evmABI)) > 0)"

lemma listContract_eq:
  assumes "ABIMap b = Some abis" and "abis c \<noteq> None" and "DeployedContracts b c = Some k"
  shows "listContract env metadata c b = Inr (b\<lparr>
    DeployedContracts := (DeployedContracts b)(c \<mapsto> k\<lparr>Methods := Methods k @ methodNames env abis c\<rparr>),
    ContractsList := ContractsList b @ (if isListed abis c then [c] else [])\<rparr>)"
proof -
  obtain e where e: "abis c = Some e" using assms(2) by blast
  have abi: "GetContractABI env c md u = Inr (e, u)" if "ABIMap u = Some abis" for md and u :: "('a, 'b, 'c) fuzzst_scheme"
    using abimap.hit [OF that, of env md] e by (simp add: GetContractABI_def)
  show ?thesis
    using abi [OF assms(1)] appendMethods [OF assms(3)] assms(1) e
    by (simp add: listContract_def abi isListed_def methodNames_def)
qed

lemma listContracts_fold:
  fixes b :: "('h, 's, 'z) fuzzst_scheme"
  assumes "ABIMap b = Some abis" and "distinct cs" and "\<forall>c \<in> set cs. abis c \<noteq> None \<and> DeployedContracts b c \<noteq> None"
  shows "\<exists>b'. foldR (listContract env metadata) cs b = Inr b' \<and>
    ContractsList b' = ContractsList b @ filter (isListed abis) cs \<and>
    (\<forall>c. DeployedContracts b' c = (if c \<in> set cs
       then map_option (\<lambda>k. k\<lparr>Methods := Methods k @ methodNames env abis c\<rparr>) (DeployedContracts b c) else DeployedContracts b c))"
  using assms
proof (induction cs arbitrary: b)
  case (Cons c cs)
  obtain k where k: "DeployedContracts b c = Some k" using Cons.prems(3) by auto
  let ?b = "b\<lparr>DeployedContracts := (DeployedContracts b)(c \<mapsto> k\<lparr>Methods := Methods k @ methodNames env abis c\<rparr>),
    ContractsList := ContractsList b @ (if isListed abis c then [c] else [])\<rparr>"
  have step: "listContract env metadata c b = Inr ?b" by (rule listContract_eq [OF Cons.prems(1) _ k]) (use Cons.prems(3) in simp)
  have "ABIMap ?b = Some abis" "distinct cs" "\<forall>d \<in> set cs. abis d \<noteq> None \<and> DeployedContracts ?b d \<noteq> None"
    using Cons.prems by auto
  from Cons.IH [OF this] obtain b' where b': "foldR (listContract env metadata) cs ?b = Inr b'"
    "ContractsList b' = ContractsList ?b @ filter (isListed abis) cs"
    "\<forall>d. DeployedContracts b' d = (if d \<in> set cs
       then map_option (\<lambda>k. k\<lparr>Methods := Methods k @ methodNames env abis d\<rparr>) (DeployedContracts ?b d) else DeployedContracts ?b d)"
    by blast
  have "c \<notin> set cs" using Cons.prems(2) by simp
  with b' step k show ?case by (intro exI [of _ b']) (auto simp: fun_upd_apply)
qed simp

section \<open>Properties\<close>

text \<open>
  C19: Listing the deployed contracts: whatever the order in which Go visits maps, every deployed contract gets all the
  methods of its ABI, each once, after the ones it had, and the list for random choices gets exactly the
  contracts other than \<open>Migrations\<close> whose ABI has a method. A contract without methods stays
  deployed.
\<close>

theorem contracts_listed:
  fixes b :: "('h, 's, 'z) fuzzst_scheme"
  assumes "range_ok env" and "finite (dom (DeployedContracts b))" and "ABIMap b = Some abis"
    and "\<forall>c \<in> dom (DeployedContracts b). \<exists>evmABI. abis c = Some evmABI \<and> finite (dom (ABIMethods evmABI))"
  shows "\<exists>b'. listContracts env metadata b = Inr b' \<and> dom (DeployedContracts b') = dom (DeployedContracts b) \<and>
    (\<exists>cs. ContractsList b' = ContractsList b @ cs \<and> distinct cs \<and>
       set cs = {c \<in> dom (DeployedContracts b). c \<noteq> ''Migrations'' \<and> dom (ABIMethods (the (abis c))) \<noteq> {}}) \<and>
    (\<forall>c k. DeployedContracts b c = Some k \<longrightarrow> (\<exists>ms. DeployedContracts b' c = Some (k\<lparr>Methods := Methods k @ ms\<rparr>) \<and>
       distinct ms \<and> set ms = dom (ABIMethods (the (abis c)))))"
proof -
  let ?cs = "rangeOrder env (dom (DeployedContracts b))"
  have cs: "distinct ?cs" "set ?cs = dom (DeployedContracts b)" using range_okD [OF assms(1,2)] by simp_all
  have "\<forall>c \<in> set ?cs. abis c \<noteq> None \<and> DeployedContracts b c \<noteq> None" using assms(4) cs(2) by fastforce
  from listContracts_fold [OF assms(3) cs(1) this, of env metadata] obtain b' where
    b': "listContracts env metadata b = Inr b'" "ContractsList b' = ContractsList b @ filter (isListed abis) ?cs"
    "DeployedContracts b' c = (if c \<in> set ?cs
       then map_option (\<lambda>k. k\<lparr>Methods := Methods k @ methodNames env abis c\<rparr>) (DeployedContracts b c) else DeployedContracts b c)" for c
    unfolding listContracts_def by blast
  have "dom (DeployedContracts b') = dom (DeployedContracts b)" using b'(3) by (auto simp: cs(2) split: if_splits)
  moreover have "isListed abis c \<longleftrightarrow> c \<noteq> ''Migrations'' \<and> dom (ABIMethods (the (abis c))) \<noteq> {}"
    if c: "c \<in> dom (DeployedContracts b)" for c
  proof -
    obtain e where "abis c = Some e" "finite (dom (ABIMethods e))" using assms(4) c by blast
    then show ?thesis by (simp add: isListed_def card_gt_0_iff)
  qed
  then have "set (filter (isListed abis) ?cs) =
      {c \<in> dom (DeployedContracts b). c \<noteq> ''Migrations'' \<and> dom (ABIMethods (the (abis c))) \<noteq> {}}"
    unfolding set_filter cs(2) by blast
  moreover have "\<exists>ms. DeployedContracts b' c = Some (k\<lparr>Methods := Methods k @ ms\<rparr>) \<and> distinct ms \<and>
      set ms = dom (ABIMethods (the (abis c)))" if k: "DeployedContracts b c = Some k" for c k
  proof -
    have c: "c \<in> dom (DeployedContracts b)" using k by blast
    then obtain e where e: "abis c = Some e" "finite (dom (ABIMethods e))" using assms(4) by blast
    show ?thesis using b'(3) [of c] c k e range_okD [OF assms(1) e(2)]
      by (intro exI [of _ "methodNames env abis c"]) (simp add: cs(2) methodNames_def)
  qed
  ultimately show ?thesis using b'(1,2) cs(1) by (intro exI [of _ b'] conjI exI [of _ "filter (isListed abis) ?cs"]) auto
qed

section \<open>Witnesses\<close>

theorem contracts_listed_witness:
  "\<exists>b'. listContracts example_chainenv ''m'' (example_fuzz\<lparr>ContractsList := [], DeployedContracts := [''Token'' \<mapsto> \<lparr>Addresses = [9], Methods = []\<rparr>]\<rparr>)
     = Inr b' \<and> ContractsList b' = [''Token''] \<and> DeployedContracts b' ''Token'' = Some \<lparr>Addresses = [9], Methods = [''mint'']\<rparr>"
proof -
  let ?b = "example_fuzz\<lparr>ContractsList := [], DeployedContracts := [''Token'' \<mapsto> \<lparr>Addresses = [9], Methods = []\<rparr>]\<rparr>"
  have "rangeOrder example_chainenv = rangeOrder example_env"
    by (simp add: example_chainenv_def example_procenv_def example_txenv_def env.defs txenv.defs procenv.defs genenv.defs
        chainenv.defs example_env_def)
  then have range: "range_ok example_chainenv" using range_ok_example by (simp add: range_ok_def)
  have b: "finite (dom (DeployedContracts ?b))" "ABIMap ?b = Some [''Token'' \<mapsto> token_abi]" by simp_all
  have abis: "\<forall>c \<in> dom (DeployedContracts ?b). \<exists>evmABI. [''Token'' \<mapsto> token_abi] c = Some evmABI \<and>
      finite (dom (ABIMethods evmABI))" by (simp add: token_abi_def)
  from contracts_listed [OF range b abis, of "''m''"] obtain b' cs where b': "listContracts example_chainenv ''m'' ?b = Inr b'"
    "ContractsList b' = ContractsList ?b @ cs" "distinct cs"
    "set cs = {c \<in> dom (DeployedContracts ?b). c \<noteq> ''Migrations'' \<and> dom (ABIMethods (the ([''Token'' \<mapsto> token_abi] c))) \<noteq> {}}"
    and ms: "\<forall>c k. DeployedContracts ?b c = Some k \<longrightarrow> (\<exists>ms. DeployedContracts b' c = Some (k\<lparr>Methods := Methods k @ ms\<rparr>) \<and>
       distinct ms \<and> set ms = dom (ABIMethods (the ([''Token'' \<mapsto> token_abi] c))))"
    by (elim exE conjE) (rule that)
  have single: "xs = [x]" if "distinct xs" "set xs = {x}" for xs and x :: string
    using that by (cases xs; cases "tl xs") auto
  have "set cs = {''Token''}" using b'(4) by (auto simp: token_abi_def)
  then have "ContractsList b' = [''Token'']" using single [OF b'(3)] b'(2) by simp
  moreover obtain xs where "DeployedContracts b' ''Token'' = Some \<lparr>Addresses = [9], Methods = xs\<rparr>" "distinct xs" "set xs = {''mint''}"
    using ms [rule_format, of "''Token''"] by (auto simp: token_abi_def)
  ultimately show ?thesis using b'(1) single by blast
qed

end
