(* ===== verification/Heuristics.thy ===== *)
theory Heuristics
  imports Chain
begin

unbundle bit_operations_syntax

text \<open>
  \<^verbatim>\<open>utils/heuristics.go\<close>: one attempt at a transaction, what is recorded about it, and the recursion
  that retries a reverted transaction with half the value or with another sender.
\<close>

section \<open>Data\<close>

record OptMode =
  RetryHalfEther :: bool
  RetryDiffSender :: bool
  SnapshotsEnabled :: bool
  GenStatistics :: bool

definition SetFlag :: "64 word \<Rightarrow> OptMode \<Rightarrow> OptMode" where
  "SetFlag optFlag om =
     (let om = (if optFlag AND 1 \<noteq> 0 then om\<lparr>RetryHalfEther := True\<rparr> else om);
          om = (if optFlag AND 2 \<noteq> 0 then om\<lparr>RetryDiffSender := True\<rparr> else om);
          om = (if optFlag AND 4 \<noteq> 0 then om\<lparr>SnapshotsEnabled := True\<rparr> else om) in
      if optFlag AND 8 \<noteq> 0 then om\<lparr>GenStatistics := True\<rparr> else om)"

section \<open>The results\<close>

text \<open>\<^verbatim>\<open>result[contract] = make(...)\<close> when it is nil; a write to a nil map panics.\<close>

definition makeResult :: "string \<Rightarrow> ('h, 's, 'z) fuzzst_scheme \<Rightarrow> ('h, 's, 'z) fuzzst_scheme" where
  "makeResult c b = (if result b c = None then b\<lparr>result := (result b)(c \<mapsto> Map.empty)\<rparr> else b)"

definition setResult :: "string \<Rightarrow> string \<Rightarrow> string \<Rightarrow> ('h, 's, 'z) fuzzst_scheme \<Rightarrow> ('h, 's, 'z) fuzzst_scheme res" where
  "setResult c s v b =
     (case result b c of
        None \<Rightarrow> Inl NilMapWrite
      | Some r \<Rightarrow> Inr (b\<lparr>result := (result b)(c \<mapsto> r(s \<mapsto> v))\<rparr>))"

definition reverted :: "('h, 's, 'z) fuzzst_scheme \<Rightarrow> bool" where
  "reverted b \<longleftrightarrow> RevertAtDepth (LastTxRes b) = 1"

text \<open>
  The trace behind the tracer's pointer goes to a file, which is overwritten when it exists; errors of the file system are
  dropped. The JSON text of the trace is left to the library.
\<close>

definition SaveJson :: "string \<Rightarrow> ('h, 's, 'z) fuzzst_scheme \<Rightarrow> ('h, 's, 'z) fuzzst_scheme res" where
  "SaveJson filename b =
     (case StructLogger (LastTxRes b) of
        None \<Rightarrow> Inl NilDeref
      | Some tracer \<Rightarrow> Inr (b\<lparr>dumps := (dumps b)(filename \<mapsto> slLogs tracer)\<rparr>))"

definition reportOverflow :: "LastTxInput \<Rightarrow> ('h, 's, 'z) fuzzst_scheme \<Rightarrow> ('h, 's, 'z) fuzzst_scheme res" where
  "reportOverflow desc b =
     (if Overflow (LastTxRes b) \<noteq> [] \<and> \<not> reverted b
      then bindR (SaveJson (''/tmp/overflow_'' @ dec_int (TxCount b) @ ''.json'') b) (\<lambda>b.
           setResult (liContract desc) (liMethod desc @ '': Overflow'') (Overflow (LastTxRes b)) b)
      else Inr b)"

definition reportAssertion :: "LastTxInput \<Rightarrow> ('h, 's, 'z) fuzzst_scheme \<Rightarrow> ('h, 's, 'z) fuzzst_scheme res" where
  "reportAssertion desc b =
     (if AssertionAtDepth (LastTxRes b) \<noteq> -1
      then bindR (SaveJson (''/tmp/assertion_'' @ dec_int (TxCount b) @ ''.json'') b) (\<lambda>b.
           setResult (liContract desc) (liMethod desc @ '': AssertionFailure'') [] b)
      else Inr b)"

text \<open>Properties written as Solidity functions: true stops the fuzzer.\<close>

definition checkProperty :: "LastTxInput \<Rightarrow> ('h, 's, 'z) fuzzst_scheme \<Rightarrow> (bool \<times> ('h, 's, 'z) fuzzst_scheme) res" where
  "checkProperty desc b =
     (case StructLogger (LastTxRes b) of
        None \<Rightarrow> Inl NilDeref
      | Some tracer \<Rightarrow>
          if index_is_0 (liMethod desc) ''fuzz_always_true'' then
            if \<not> reverted b \<and> length (slOutput tracer) = 32 \<and> slOutput tracer ! 31 \<noteq> 1
            then bindR (SaveJson ''/tmp/violation.json'' b) (\<lambda>b.
                 bindR (setResult (liContract desc) (liMethod desc @ '': Property violation'') [] b) (\<lambda>b. Inr (True, b)))
            else if reverted b
            then bindR (SaveJson ''/tmp/reverted_fuzz.json'' b) (\<lambda>b.
                 bindR (setResult (liContract desc) (liMethod desc @ '': Revert in fuzz function'') [] b) (\<lambda>b. Inr (True, b)))
            else Inr (False, b)
          else Inr (False, b))"

definition judge :: "LastTxInput \<Rightarrow> ('h, 's, 'z) fuzzst_scheme \<Rightarrow> (bool \<times> ('h, 's, 'z) fuzzst_scheme) res" where
  "judge desc b = bindR (reportOverflow desc b) (\<lambda>b. bindR (reportAssertion desc b) (checkProperty desc))"

definition countTx :: "OptMode \<Rightarrow> ('h, 's, 'z) fuzzst_scheme \<Rightarrow> ('h, 's, 'z) fuzzst_scheme res" where
  "countTx mode b =
     (if GenStatistics mode then
        (case LastTxIn b of
           None \<Rightarrow> Inl NilDeref
         | Some i \<Rightarrow> bindR (AddTx (liContract i) (liMethod i) (reverted b) (backStats b)) (\<lambda>s. Inr (b\<lparr>backStats := s\<rparr>)))
      else Inr (b\<lparr>backStats := IncTxCnt (backStats b)\<rparr>))"

section \<open>An attempt and its retries\<close>

text \<open>
  The body of \<^verbatim>\<open>Rec\<close> up to its heuristics: \<open>Some r\<close> when it returns \<open>r\<close>, \<open>None\<close> when the transaction
  reverted and the heuristics follow. The hint behind its pointer and the shared header are
  updated; a nil transaction is dereferenced by go-ethereum.
\<close>

definition attempt ::
  "('h, 's, 'e) chainenv_scheme \<Rightarrow> Options \<Rightarrow> OptMode \<Rightarrow> Hint \<Rightarrow> ('h, 's, 'z) fuzzst_scheme \<Rightarrow>
   (((bool option \<times> ethTx) \<times> Hint) \<times> ('h, 's, 'z) fuzzst_scheme) run" where
  "attempt env options mode h b =
     (let (hdr, b) = GetDefaultHeader b in
      bindT (Some (GenTimestamp b)) (\<lambda>(ts, b).
      let hdr = hdr\<lparr>hdTime := ts\<rparr> in
      bindT (GenTransaction env (Some h) (b\<lparr>defaultHeader := Some hdr\<rparr>)) (\<lambda>((txp, h), b).
      bindT (Some (case LastTxIn b of None \<Rightarrow> Inl NilDeref | Some desc \<Rightarrow> Inr desc)) (\<lambda>desc.
      bindT (Some (case txp of None \<Rightarrow> Inl NilDeref | Some tx \<Rightarrow> Inr tx)) (\<lambda>tx.
      bindT (Some (CommitTransaction env tx (Some options) hdr (makeResult (liContract desc) b))) (\<lambda>(_, hdr, b).
      bindT (Some (judge desc (b\<lparr>defaultHeader := Some hdr\<rparr>))) (\<lambda>(stop, b).
      if stop then Some (Inr (((Some True, tx), h), b))
      else bindT (Some (countTx mode b)) (\<lambda>b.
        Some (Inr (((if reverted b then None else Some False, tx), h), b))))))))))"

text \<open>
  \<^verbatim>\<open>hint.Amount.Rsh(hint.Amount, 1)\<close> updates the number behind the pointer, whoever else holds it;
  then the sender of the reverted transaction is kept.
\<close>

definition halveAmount :: "Hint \<Rightarrow> ('h, 's, 'z) fuzzst_scheme \<Rightarrow> (Hint \<times> ('h, 's, 'z) fuzzst_scheme) res" where
  "halveAmount h b =
     bindR (big_get (bigs b) (hAmount h)) (\<lambda>v.
     bindR (big_set (hAmount h) (drop_bit 1 v) (bigs b)) (\<lambda>heap.
     case LastTxIn b of None \<Rightarrow> Inl NilDeref | Some i \<Rightarrow>
     Inr (h\<lparr>hSender := Some (liSender i)\<rparr>, b\<lparr>bigs := heap\<rparr>)))"

text \<open>The results of the inner calls are dropped.\<close>

partial_function (option) Rec ::
  "('h, 's, 'e) chainenv_scheme \<Rightarrow> Options \<Rightarrow> OptMode \<Rightarrow> nat \<Rightarrow> Hint \<Rightarrow> ('h, 's, 'z) fuzzst_scheme \<Rightarrow>
   ((bool \<times> Hint) \<times> ('h, 's, 'z) fuzzst_scheme) run" where
  [code]: "Rec env options mode depth h b =
     bindT (attempt env options mode h b) (\<lambda>(((returned, tx), h), b).
     case returned of Some r \<Rightarrow> Some (Inr ((r, h), b)) | None \<Rightarrow>
     bindT (if RetryHalfEther mode \<and> txValue tx > 0
            then bindT (Some (halveAmount h b)) (\<lambda>(h, b).
                 bindT (Rec env options mode (depth + 1) h b) (\<lambda>((_, h), b). Some (Inr (h, b))))
            else Some (Inr (h, b))) (\<lambda>(h, b).
     bindT (if RetryDiffSender mode \<and> depth < 4
            then bindT (Rec env options mode (depth + 1) (h\<lparr>hSender := None\<rparr>) b) (\<lambda>((_, h), b). Some (Inr (h, b)))
            else Some (Inr (h, b))) (\<lambda>(h, b).
     Some (Inr ((False, h), b)))))"

end
