(* ===== verification/HeuristicsResults.thy ===== *)
theory HeuristicsResults
  imports Heuristics
begin

text \<open>
  What \<^verbatim>\<open>utils/heuristics.go\<close> promises: attempts never panic on a chain that is ready for fuzzing,
  the retries end, and what is recorded about a transaction.
\<close>

section \<open>The invariant of the fuzzer's loop\<close>

text \<open>A chain ready for fuzzing, with a snapshot and intact statistics.\<close>

definition fuzz_ok :: "('h, 's, 'e) chainenv_scheme \<Rightarrow> ('h, 's, 'z) fuzzst_scheme \<Rightarrow> bool" where
  "fuzz_ok env b \<longleftrightarrow> chain_ok env b \<and> backendSnapshot b \<noteq> None \<and> stats_inv (backStats b)"

text \<open>What is documented of go-ethereum, together.\<close>

definition eth_ok :: "('h, 's, 'e) chainenv_scheme \<Rightarrow> bool" where
  "eth_ok env \<longleftrightarrow> sign_ok env \<and> pack_ok env \<and> balances_ok env \<and> unpack_ok env \<and> traces_ok env"

text \<open>What no step of the loop changes.\<close>

definition same_targets :: "('h, 's, 'z) fuzzst_scheme \<Rightarrow> ('h, 's, 'z) fuzzst_scheme \<Rightarrow> bool" where
  "same_targets b b' \<longleftrightarrow>
     DeployedContracts b' = DeployedContracts b \<and> ABIMap b' = ABIMap b \<and> Payable b' = Payable b \<and>
     ContractsList b' = ContractsList b \<and> addressToKey b' = addressToKey b \<and> backendSnapshot b' = backendSnapshot b \<and>
     metadataJSONMap b' = metadataJSONMap b \<and> DeployedBytecodes b' = DeployedBytecodes b"

lemma same_targets_refl [simp]: "same_targets b b"
  by (simp add: same_targets_def)

lemma same_targets_trans [trans]: "same_targets a b \<Longrightarrow> same_targets b c \<Longrightarrow> same_targets a c"
  by (simp add: same_targets_def)

lemma same_targets_gen_step:
  fixes b :: "('h, 's, 'z) fuzzst_scheme"
  assumes "gen_step env b b'"
  shows "same_targets b b'" "defaultHeader b' = defaultHeader b" "backStats b' = backStats b" "TxCount b' = TxCount b"
    "result b' = result b" "dumps b' = dumps b"
proof -
  have "backst.more b' = backst.more b" using assms by (simp add: gen_step_def)
  then have "backendSnapshot b' = backendSnapshot b" "defaultHeader b' = defaultHeader b" "result b' = result b" "dumps b' = dumps b"
    by (cases b; cases b'; simp)+
  then show "same_targets b b'" "defaultHeader b' = defaultHeader b" "backStats b' = backStats b" "TxCount b' = TxCount b"
    "result b' = result b" "dumps b' = dumps b" using assms by (simp_all add: gen_step_def same_targets_def)
qed

lemma same_targets_tables: "same_tables b b' \<Longrightarrow> same_targets b b'"
  using same_tables_more(2) [of b b'] by (simp add: same_tables_def same_targets_def)

lemma big_get_some: "(\<exists>v. big_get h p = Inr v) \<longleftrightarrow> 0 < p \<and> p \<le> length h"
  by (cases p) auto

text \<open>A hint stays valid as long as the numbers behind pointers stay allocated.\<close>

lemma hint_ok_mono:
  assumes "same_targets b b'" and "length (bigs b) \<le> length (bigs b')" and "hint_ok b h"
  shows "hint_ok b' h"
proof -
  have "callable b' = callable b" "contract_ready b' = contract_ready b" "addressToKey b' = addressToKey b"
    using assms(1) callable_cong [of b' b] contract_ready_cong [of b' b] by (simp_all add: same_targets_def)
  then show ?thesis using assms(2,3) unfolding hint_ok_def big_get_some by auto
qed

section \<open>The steps of an attempt\<close>

lemma GetDefaultHeader_frame:
  assumes "GetDefaultHeader b = (hdr, b')"
  shows "\<exists>hd c. b' = b\<lparr>defaultHeader := hd, clock := c\<rparr>"
  using assms by (cases b; auto simp: GetDefaultHeader_def now_def Let_def split: option.splits)

lemma pool_moves_ok:
  fixes b :: "('h, 's, 'z) fuzzst_scheme"
  assumes "chain_ok env b" and "ts_ok p"
  shows "chain_ok env (b\<lparr>TimestampPool := p\<rparr>)"
proof (rule same_tables_chain_ok [OF _ _ assms(1)])
  show "same_tables b (b\<lparr>TimestampPool := p\<rparr>)" by (cases b) (simp add: same_tables_def)
  show "pools_ok env (b\<lparr>TimestampPool := p\<rparr>)"
    using assms by (simp add: chain_ok_split pools_ok_def arg_inv_def b32_ok_def addresses_def bigptrs_def)
qed

lemma GenTimestamp_ok:
  fixes b :: "('h, 's, 'z) fuzzst_scheme"
  assumes "fuzz_ok env b"
  shows "\<exists>ts b'. GenTimestamp b = Inr (ts, b') \<and> fuzz_ok env b' \<and> same_targets b b' \<and> bigs b' = bigs b \<and>
    TxCount b' = TxCount b \<and> result b' = result b \<and> dumps b' = dumps b"
proof -
  obtain snap where snap: "backendSnapshot b = Some snap" using assms by (auto simp: fuzz_ok_def)
  have chain: "chain_ok env b" and inv: "ts_ok (TimestampPool b)"
    using assms by (simp_all add: fuzz_ok_def chain_ok_def arg_inv_def)
  have stats: "stats_inv (backStats b)" "stats_inv (ResetCounter (backStats b))"
    using assms by (simp_all add: fuzz_ok_def stats_inv_def ResetCounter_def cell_def)
  let ?p = "TimestampPool b"
  show ?thesis
  proof (cases "p_storage ?p = []")
    case True
    then show ?thesis using chain stats snap
      by (auto simp: GenTimestamp_def poolClock_def now_def ArgPool_CurrentTimestamp_def ArgPool_NextTimestamp_def timestamppool_Size_def
          fuzz_ok_def same_targets_def)
  next
    case False
    let ?j = "(p_idx ?p + 1) mod length (p_storage ?p)"
    have idx: "p_idx ?p < length (p_storage ?p)" using inv False by (simp add: ts_ok_def ts_inv_def split: if_splits)
    have "ts_ok (?p\<lparr>p_idx := ?j\<rparr>)"
      using inv False by (simp add: ts_ok_def ts_inv_def ts_items_def split: if_splits)
    then have move: "chain_ok env (b\<lparr>TimestampPool := ?p\<lparr>p_idx := ?j\<rparr>\<rparr>)" by (rule pool_moves_ok [OF chain])
    have clk: "poolClock b = (0, b)" using False by (simp add: poolClock_def timestamppool_Size_def)
    show ?thesis using chain stats snap False idx move NextTimestamp_step [OF False, of 0]
      by (auto simp: GenTimestamp_def clk ArgPool_CurrentTimestamp_def timestamppool_Size_def timestamppool_GetCurrent_def
          fuzz_ok_def same_targets_def RevertBackend_def Let_def)
  qed
qed

lemma fuzz_ok_updates [simp]:
  fixes b :: "('h, 's, 'z) fuzzst_scheme"
  shows "fuzz_ok env (b\<lparr>defaultHeader := hdr\<rparr>) = fuzz_ok env b" "fuzz_ok env (b\<lparr>result := m\<rparr>) = fuzz_ok env b"
    "fuzz_ok env (b\<lparr>defaultHeader := hdr, clock := c\<rparr>) = fuzz_ok env b"
    "fuzz_ok env (b\<lparr>defaultHeader := hdr, result := m\<rparr>) = fuzz_ok env b"
    "fuzz_ok env (b\<lparr>defaultHeader := hdr, result := m, dumps := d\<rparr>) = fuzz_ok env b"
    "fuzz_ok env (b\<lparr>backStats := s\<rparr>) = (chain_ok env b \<and> backendSnapshot b \<noteq> None \<and> stats_inv s)"
  by (simp_all add: fuzz_ok_def)

lemma same_targets_updates [simp]:
  "same_targets b (b\<lparr>defaultHeader := hdr\<rparr>)" "same_targets b (b\<lparr>result := m\<rparr>)" "same_targets b (b\<lparr>backStats := s\<rparr>)"
  "same_targets b (b\<lparr>defaultHeader := hdr, clock := c\<rparr>)" "same_targets b (b\<lparr>bigs := heap\<rparr>)"
  "same_targets b (b\<lparr>defaultHeader := hdr, result := m\<rparr>)" "same_targets b (b\<lparr>defaultHeader := hdr, result := m, dumps := d\<rparr>)"
  by (simp_all add: same_targets_def)

text \<open>The results of a contract so far.\<close>

definition resultsOf :: "('h, 's, 'z) fuzzst_scheme \<Rightarrow> string \<Rightarrow> (string \<rightharpoonup> string)" where
  "resultsOf b c = (case result b c of None \<Rightarrow> Map.empty | Some r \<Rightarrow> r)"

lemma makeResult_eq: "makeResult c b = b\<lparr>result := (result b)(c \<mapsto> resultsOf b c)\<rparr>"
  by (cases "result b c") (simp_all add: makeResult_def resultsOf_def fun_upd_idem)

text \<open>
  The verdict on a transaction: whether the fuzzer stops, and what its contract's results become.
\<close>

definition violated :: "LastTxInput \<Rightarrow> ('h, 's, 'z) fuzzst_scheme \<Rightarrow> bool" where
  "violated desc b \<longleftrightarrow> index_is_0 (liMethod desc) ''fuzz_always_true'' \<and> \<not> reverted b \<and>
     (\<exists>tracer. StructLogger (LastTxRes b) = Some tracer \<and> length (slOutput tracer) = 32 \<and> slOutput tracer ! 31 \<noteq> 1)"

definition stops :: "LastTxInput \<Rightarrow> ('h, 's, 'z) fuzzst_scheme \<Rightarrow> bool" where
  "stops desc b \<longleftrightarrow> violated desc b \<or> index_is_0 (liMethod desc) ''fuzz_always_true'' \<and> reverted b"

definition verdict :: "LastTxInput \<Rightarrow> ('h, 's, 'z) fuzzst_scheme \<Rightarrow> (string \<rightharpoonup> string) \<Rightarrow> (string \<rightharpoonup> string)" where
  "verdict desc b r s =
     (if s = liMethod desc @ '': Overflow'' \<and> Overflow (LastTxRes b) \<noteq> [] \<and> \<not> reverted b then Some (Overflow (LastTxRes b))
      else if s = liMethod desc @ '': AssertionFailure'' \<and> AssertionAtDepth (LastTxRes b) \<noteq> -1 then Some []
      else if s = liMethod desc @ '': Property violation'' \<and> violated desc b then Some []
      else if s = liMethod desc @ '': Revert in fuzz function'' \<and> stops desc b \<and> reverted b then Some []
      else r s)"

text \<open>The files that are written for a transaction, each with its trace.\<close>

definition dumpFiles :: "LastTxInput \<Rightarrow> ('h, 's, 'z) fuzzst_scheme \<Rightarrow> string list" where
  "dumpFiles desc b =
     (if Overflow (LastTxRes b) \<noteq> [] \<and> \<not> reverted b then [''/tmp/overflow_'' @ dec_int (TxCount b) @ ''.json''] else []) @
     (if AssertionAtDepth (LastTxRes b) \<noteq> -1 then [''/tmp/assertion_'' @ dec_int (TxCount b) @ ''.json''] else []) @
     (if violated desc b then [''/tmp/violation.json''] else if stops desc b then [''/tmp/reverted_fuzz.json''] else [])"

definition lastLogs :: "('h, 's, 'z) fuzzst_scheme \<Rightarrow> structLog list" where
  "lastLogs b = (case StructLogger (LastTxRes b) of None \<Rightarrow> [] | Some tracer \<Rightarrow> slLogs tracer)"

definition dumped :: "LastTxInput \<Rightarrow> ('h, 's, 'z) fuzzst_scheme \<Rightarrow> (string \<rightharpoonup> structLog list) \<Rightarrow> (string \<rightharpoonup> structLog list)" where
  "dumped desc b d f = (if f \<in> set (dumpFiles desc b) then Some (lastLogs b) else d f)"

lemma written_files:
  "(if v then (if a then (if ov then d(f1 \<mapsto> l) else d)(f2 \<mapsto> l) else if ov then d(f1 \<mapsto> l) else d)(f3 \<mapsto> l)
    else if w then (if a then (if ov then d(f1 \<mapsto> l) else d)(f2 \<mapsto> l) else if ov then d(f1 \<mapsto> l) else d)(f4 \<mapsto> l)
    else if a then (if ov then d(f1 \<mapsto> l) else d)(f2 \<mapsto> l) else if ov then d(f1 \<mapsto> l) else d) f =
   (if f \<in> set ((if ov then [f1] else []) @ (if a then [f2] else []) @ (if v then [f3] else if w then [f4] else []))
    then Some l else d f)"
  by (auto simp: fun_upd_apply)

lemma chosen_files:
  "f \<in> set ((if ov then [f1] else []) @ (if a then [f2] else []) @ (if v then [f3] else if w then [f4] else [])) \<longleftrightarrow>
   f = f1 \<and> ov \<or> f = f2 \<and> a \<or> f = f3 \<and> v \<or> f = f4 \<and> \<not> v \<and> w"
  by auto

lemma judge_eq:
  assumes "StructLogger (LastTxRes b) = Some tracer" and "result b (liContract desc) = Some r"
  shows "judge desc b = Inr (stops desc b,
    b\<lparr>result := (result b)(liContract desc \<mapsto> verdict desc b r), dumps := dumped desc b (dumps b)\<rparr>)"
proof -
  let ?c = "liContract desc" and ?m = "liMethod desc" and ?l = "slLogs tracer"
  let ?b = "\<lambda>r d. b\<lparr>result := (result b)(?c \<mapsto> r), dumps := d\<rparr>"
  let ?fo = "''/tmp/overflow_'' @ dec_int (TxCount b) @ ''.json''" and ?fa = "''/tmp/assertion_'' @ dec_int (TxCount b) @ ''.json''"
  let ?ovf = "Overflow (LastTxRes b) \<noteq> [] \<and> \<not> reverted b" and ?fail = "AssertionAtDepth (LastTxRes b) \<noteq> -1"
  let ?o = "if ?ovf then r(?m @ '': Overflow'' \<mapsto> Overflow (LastTxRes b)) else r" and ?do = "if ?ovf then (dumps b)(?fo \<mapsto> ?l) else dumps b"
  let ?a = "if ?fail then ?o(?m @ '': AssertionFailure'' \<mapsto> []) else ?o" and ?da = "if ?fail then ?do(?fa \<mapsto> ?l) else ?do"
  let ?p = "if violated desc b then ?a(?m @ '': Property violation'' \<mapsto> [])
    else if stops desc b then ?a(?m @ '': Revert in fuzz function'' \<mapsto> []) else ?a"
  let ?dp = "if violated desc b then ?da(''/tmp/violation.json'' \<mapsto> ?l)
    else if stops desc b then ?da(''/tmp/reverted_fuzz.json'' \<mapsto> ?l) else ?da"
  have same: "b = ?b r (dumps b)" using assms(2) by (simp add: fun_upd_idem)
  have res: "LastTxRes (?b x d) = LastTxRes b" "TxCount (?b x d) = TxCount b" "reverted (?b x d) = reverted b" for x d
    by (simp_all add: reverted_def)
  have set: "setResult ?c s v (?b x d) = Inr (?b (x(s \<mapsto> v)) d)" for s v x d by (simp add: setResult_def)
  have save: "SaveJson f (?b x d) = Inr (?b x (d(f \<mapsto> ?l)))" for f x d using assms(1) by (simp add: SaveJson_def)
  have o: "reportOverflow desc (?b r (dumps b)) = Inr (?b ?o ?do)" unfolding reportOverflow_def res save bindR_simps set by simp
  have a: "reportAssertion desc (?b ?o ?do) = Inr (?b ?a ?da)" unfolding reportAssertion_def res save bindR_simps set by simp
  have viol: "violated desc b \<longleftrightarrow> index_is_0 ?m ''fuzz_always_true'' \<and> \<not> reverted b \<and>
      length (slOutput tracer) = 32 \<and> slOutput tracer ! 31 \<noteq> 1" unfolding violated_def assms(1) by blast
  have p: "checkProperty desc (?b x d) = Inr (stops desc b, ?b (if violated desc b then x(?m @ '': Property violation'' \<mapsto> [])
      else if stops desc b then x(?m @ '': Revert in fuzz function'' \<mapsto> []) else x)
      (if violated desc b then d(''/tmp/violation.json'' \<mapsto> ?l) else if stops desc b then d(''/tmp/reverted_fuzz.json'' \<mapsto> ?l) else d))" for x d
    unfolding checkProperty_def res save bindR_simps set
    unfolding assms(1) option.case bindR_simps stops_def viol
    by (cases "index_is_0 ?m ''fuzz_always_true''"; cases "reverted b"; cases "length (slOutput tracer) = 32 \<and> slOutput tracer ! 31 \<noteq> 1")
       (simp_all only: if_True if_False simp_thms)
  have "judge desc (?b r (dumps b)) = Inr (stops desc b, ?b ?p ?dp)" unfolding judge_def o bindR_simps a by (rule p)
  moreover have "?p = verdict desc b r"
  proof
    have keys: "?m @ '': Overflow'' \<noteq> ?m @ '': AssertionFailure''" "?m @ '': Overflow'' \<noteq> ?m @ '': Property violation''"
      "?m @ '': Overflow'' \<noteq> ?m @ '': Revert in fuzz function''" "?m @ '': AssertionFailure'' \<noteq> ?m @ '': Property violation''"
      "?m @ '': AssertionFailure'' \<noteq> ?m @ '': Revert in fuzz function''"
      "?m @ '': Property violation'' \<noteq> ?m @ '': Revert in fuzz function''" by simp_all
    have "violated desc b \<Longrightarrow> \<not> reverted b" by (simp add: violated_def)
    moreover have "stops desc b \<Longrightarrow> \<not> violated desc b \<Longrightarrow> reverted b" by (auto simp: stops_def)
    ultimately show "?p s = verdict desc b r s" for s
      unfolding verdict_def using keys keys [symmetric] by (simp only: fun_upd_apply if_distrib [of "\<lambda>f. f s"]) auto
  qed
  moreover have "?dp = dumped desc b (dumps b)"
  proof
    have "lastLogs b = ?l" by (simp add: lastLogs_def assms(1))
    then show "?dp f = dumped desc b (dumps b) f" for f
      unfolding dumped_def dumpFiles_def by (simp only: written_files)
  qed
  moreover have "judge desc b = judge desc (?b r (dumps b))" using same by (rule arg_cong)
  ultimately show ?thesis by (simp only:)
qed

lemma dumped_cong:
  assumes "LastTxRes b' = LastTxRes b" and "TxCount b' = TxCount b"
  shows "dumped desc b' = dumped desc b"
proof -
  have "reverted b' = reverted b" using assms by (simp add: reverted_def)
  moreover from this have "violated desc b' = violated desc b" unfolding violated_def assms by simp
  ultimately have "dumpFiles desc b' = dumpFiles desc b" unfolding dumpFiles_def stops_def assms by simp
  moreover have "lastLogs b' = lastLogs b" by (simp add: lastLogs_def assms)
  ultimately show ?thesis by (simp add: dumped_def fun_eq_iff)
qed

lemma verdict_cong:
  assumes "LastTxRes b' = LastTxRes b"
  shows "reverted b' = reverted b" "stops desc b' = stops desc b" "verdict desc b' = verdict desc b"
proof -
  show r: "reverted b' = reverted b" using assms by (simp add: reverted_def)
  have v: "violated desc b' = violated desc b" unfolding violated_def r assms ..
  show s: "stops desc b' = stops desc b" unfolding stops_def r v ..
  show "verdict desc b' = verdict desc b" unfolding verdict_def r v s assms ..
qed

lemma countTx_ok:
  assumes "stats_inv (backStats b)" and "LastTxIn b = Some i"
  shows "\<exists>s. countTx mode b = Inr (b\<lparr>backStats := s\<rparr>) \<and> stats_inv s \<and> GetCount s = GetCount (backStats b) + 1"
proof (cases "GenStatistics mode")
  case True
  with AddTx_effect [OF assms(1), of "liContract i" "liMethod i" "reverted b"] assms(2) show ?thesis
    by (auto simp: countTx_def)
next
  case False
  have "stats_inv (IncTxCnt (backStats b))" using assms(1) by (simp add: stats_inv_def cell_def IncTxCnt_def)
  then show ?thesis using False stats.count_inc [of "backStats b"] by (auto simp: countTx_def)
qed

text \<open>
  The parts of an attempt that returned, in their order.
\<close>

lemma attempt_parts:
  assumes "attempt env opt mode h b = Some (Inr (((returned, tx), h'), b'))"
  obtains hdr b1 ts b2 b3 desc res hdr' b4 stop b5
  where "GetDefaultHeader b = (hdr, b1)" and "GenTimestamp b1 = Inr (ts, b2)"
    and "GenTransaction env (Some h) (b2\<lparr>defaultHeader := Some (hdr\<lparr>hdTime := ts\<rparr>)\<rparr>) = Some (Inr ((Some tx, h'), b3))"
    and "LastTxIn b3 = Some desc"
    and "CommitTransaction env tx (Some opt) (hdr\<lparr>hdTime := ts\<rparr>) (makeResult (liContract desc) b3) = Inr (res, hdr', b4)"
    and "judge desc (b4\<lparr>defaultHeader := Some hdr'\<rparr>) = Inr (stop, b5)"
    and "if stop then b' = b5 \<and> returned = Some True
      else countTx mode b5 = Inr b' \<and> returned = (if reverted b' then None else Some False)"
proof -
  obtain hdr b1 where g: "GetDefaultHeader b = (hdr, b1)" by (cases "GetDefaultHeader b")
  show ?thesis using assms that [OF g] unfolding attempt_def g Let_def
    by (auto simp: bindT_eq_Some_Inr split: option.splits if_splits)
qed

lemma tx_ok_record:
  assumes "tx_ok env h b tx h' b'"
  obtains i where "LastTxIn b' = Some i" "liSender i \<in> dom (addressToKey b)" "hAmount h' = liEther i"
    "big_get (bigs b') (liEther i) = Inr (txValue tx)" "hAmount h \<noteq> 0 \<longrightarrow> liEther i = hAmount h"
    "hAmount h = 0 \<longrightarrow> txValue tx \<le> max 0 (GetBalance env (StateDB b) (liSender i))"
proof -
  obtain i where "LastTxIn b' = Some i" "liSender i \<in> dom (addressToKey b)"
    "big_get (bigs b') (liEther i) = Inr (txValue tx)"
    and "if hAmount h \<noteq> 0 then liEther i = hAmount h
         else if IsPayable (liContract i) (liMethod i) b then txValue tx \<le> GetBalance env (StateDB b) (liSender i)
         else txValue tx = 0"
    and "h' = h\<lparr>hContract := liContract i, hMethod := liMethod i, hAmount := liEther i\<rparr>"
    using assms unfolding tx_ok_def by (elim exE conjE) assumption
  then show ?thesis by (intro that) (auto simp add: le_max_iff_disj split: if_splits)
qed

text \<open>On a chain ready for fuzzing an attempt that does not crash returns, and the chain stays ready.\<close>

lemma attempt_ok:
  fixes b :: "('h, 's, 'z) fuzzst_scheme"
  assumes "fuzz_ok env b" and "hint_ok b h" and "eth_ok env" and "\<not> CheckDeployedContract opt"
    and "\<not> crashes (underflows env) (attempt env opt mode h b)"
  obtains returned tx h' b' i k
  where "attempt env opt mode h b = Some (Inr (((returned, tx), h'), b'))"
    and "fuzz_ok env b'" and "hint_ok b' h'" and "same_targets b b'" and "bigs b' = bigs b @ k" and "TxCount b' = TxCount b + 1"
    and "big_get (bigs b') (hAmount h') = Inr (txValue tx)" and "hAmount h \<noteq> 0 \<longrightarrow> hAmount h' = hAmount h"
    and "LastTxIn b' = Some i" and "liSender i \<in> dom (addressToKey b')"
    and "result b' = (result b)(liContract i \<mapsto> verdict i b' (resultsOf b (liContract i)))" and "dumps b' = dumped i b' (dumps b)"
    and "StructLogger (LastTxRes b') \<noteq> None"
    and "returned = (if stops i b' then Some True else if reverted b' then None else Some False)"
    and "hAmount h = 0 \<longrightarrow> (\<exists>w. txValue tx \<le> max 0 (GetBalance env w (liSender i)))"
proof -
  have eth: "sign_ok env" "pack_ok env" "balances_ok env" "unpack_ok env" "traces_ok env" using assms(3) by (simp_all add: eth_ok_def)
  obtain hdr b1 where g: "GetDefaultHeader b = (hdr, b1)" by (cases "GetDefaultHeader b")
  obtain hd c where "b1 = b\<lparr>defaultHeader := hd, clock := c\<rparr>" using GetDefaultHeader_frame [OF g] by blast
  then have b1: "fuzz_ok env b1" "same_targets b b1" "bigs b1 = bigs b" "TxCount b1 = TxCount b" "result b1 = result b"
    "dumps b1 = dumps b" using assms(1) by simp_all
  obtain ts b2 where b2: "GenTimestamp b1 = Inr (ts, b2)" "fuzz_ok env b2" "same_targets b1 b2" "bigs b2 = bigs b1" "TxCount b2 = TxCount b1"
    "result b2 = result b1" "dumps b2 = dumps b1"
    using GenTimestamp_ok [OF b1(1)] by blast
  let ?hdr = "hdr\<lparr>hdTime := ts\<rparr>" and ?b = "b2\<lparr>defaultHeader := Some (hdr\<lparr>hdTime := ts\<rparr>)\<rparr>"
  have same: "same_targets b ?b" using same_targets_trans [OF b1(2) same_targets_trans [OF b2(3)]] by simp
  have chain: "chain_ok env ?b" using b2(2) by (simp add: fuzz_ok_def)
  have hint: "hint_ok ?b h" by (rule hint_ok_mono [OF same _ assms(2)]) (simp add: b2(4) b1(3))
  from GenTransaction_ok [OF chain hint eth(1-3)] obtain tx h' b3 where
    b3: "GenTransaction env (Some h) ?b = Some (Inr ((Some tx, h'), b3))" "gen_step env ?b b3" "hint_ok b3 h'" "tx_ok env h ?b tx h' b3" by blast
  obtain i where i: "LastTxIn b3 = Some i" "liSender i \<in> dom (addressToKey ?b)" "hAmount h' = liEther i"
    "big_get (bigs b3) (liEther i) = Inr (txValue tx)" "hAmount h \<noteq> 0 \<longrightarrow> liEther i = hAmount h"
    "hAmount h = 0 \<longrightarrow> txValue tx \<le> max 0 (GetBalance env (StateDB ?b) (liSender i))"
    by (rule tx_ok_record [OF b3(4)])
  obtain h1 where h1: "bigs b3 = bigs ?b @ h1" using gen_step_contents(3) [OF b3(2)] by blast
  let ?r = "resultsOf b (liContract i)"
  define m where "m = (result b)(liContract i \<mapsto> ?r)"
  have "result b3 = result b" "dumps b3 = dumps b" using same_targets_gen_step(5,6) [OF b3(2)] b2(6,7) b1(5,6) by simp_all
  then have m: "makeResult (liContract i) b3 = b3\<lparr>result := m\<rparr>" by (simp add: makeResult_eq resultsOf_def m_def)
  have "chain_ok env (b3\<lparr>result := m\<rparr>)" using gen_step_chain [OF b3(2) chain] by simp
  have crash: "\<not> crashes (underflows env) (Some (CommitTransaction env tx (Some opt) ?hdr (b3\<lparr>result := m\<rparr>)))"
    by (rule crashes_part) (use assms(5) in \<open>simp add: attempt_def g b2(1) b3(1) i(1) m Let_def\<close>)
  from CommitTransaction_ok [OF \<open>chain_ok env (b3\<lparr>result := m\<rparr>)\<close> _ assms(4) eth(5,4) crash] i(1) obtain res hdr' b4 k tracer where
    b4: "CommitTransaction env tx (Some opt) ?hdr (b3\<lparr>result := m\<rparr>) = Inr (res, hdr', b4)" "chain_ok env b4"
    "same_tables (b3\<lparr>result := m\<rparr>) b4" "StructLogger (LastTxRes b4) = Some tracer" "bigs b4 = bigs b3 @ k" "TxCount b4 = TxCount b3 + 1"
    by auto
  have "result b4 = m" "dumps b4 = dumps b" using same_tables_more(4,5) [OF b4(3)] \<open>dumps b3 = dumps b\<close> by simp_all
  then have r: "result (b4\<lparr>defaultHeader := Some hdr'\<rparr>) (liContract i) = Some ?r" by (simp add: m_def)
  have tr: "StructLogger (LastTxRes (b4\<lparr>defaultHeader := Some hdr'\<rparr>)) = Some tracer" using b4(4) by simp
  let ?w = "b4\<lparr>defaultHeader := Some hdr'\<rparr>"
  define stop n d where "stop = stops i ?w" and "n = (result ?w)(liContract i \<mapsto> verdict i ?w ?r)" and "d = dumped i ?w (dumps b)"
  have n: "judge i ?w = Inr (stop, b4\<lparr>defaultHeader := Some hdr', result := n, dumps := d\<rparr>)"
    using judge_eq [OF tr r] \<open>dumps b4 = dumps b\<close> by (simp add: stop_def n_def d_def)
  let ?u = "b4\<lparr>defaultHeader := Some hdr', result := n, dumps := d\<rparr>"
  have "same_targets ?b b3" "same_targets (b3\<lparr>result := m\<rparr>) b4" using same_targets_gen_step(1) [OF b3(2)] same_targets_tables [OF b4(3)] .
  then have sameu: "same_targets b ?u" using same by (simp add: same_targets_def)
  have stats: "backStats ?u = backStats ?b" using b4(3) same_targets_gen_step(3) [OF b3(2)] by (simp add: same_tables_def)
  have snap: "backendSnapshot ?u = backendSnapshot b" using sameu by (simp add: same_targets_def)
  have ok: "fuzz_ok env ?u"
    using b4(2) stats snap b2(2) assms(1) by (simp add: fuzz_ok_def)
  have last: "LastTxIn ?u = Some i" using b4(3) i(1) by (simp add: same_tables_def)
  have bigs: "bigs ?u = bigs b @ (h1 @ k)" using b4(5) h1 b2(4) b1(3) by simp
  have cnt: "TxCount ?u = TxCount b + 1" using b4(6) same_targets_gen_step(4) [OF b3(2)] b2(5) b1(4) by simp
  have hint': "hint_ok ?u h'"
    by (rule hint_ok_mono [OF _ _ b3(3)]) (use \<open>same_targets (b3\<lparr>result := m\<rparr>) b4\<close> b4(5) in \<open>simp_all add: same_targets_def\<close>)
  have val: "big_get (bigs ?u) (hAmount h') = Inr (txValue tx)" using big_get_append [OF i(4)] b4(5) i(3) by simp
  have dom: "liSender i \<in> dom (addressToKey ?u)" using i(2) same sameu by (simp add: same_targets_def)
  have res: "result ?u = (result b)(liContract i \<mapsto> verdict i ?w ?r)" using \<open>result b4 = m\<close> by (simp add: n_def m_def)
  have traced: "StructLogger (LastTxRes ?u) \<noteq> None" using tr by simp
  have dump: "dumps ?u = dumped i ?u (dumps b)" using dumped_cong [of ?w ?u i] by (simp add: d_def)
  have verd: "LastTxRes ?w = LastTxRes ?u" by simp
  note verds = verdict_cong [OF verd]
  have bal: "hAmount h = 0 \<longrightarrow> (\<exists>w. txValue tx \<le> max 0 (GetBalance env w (liSender i)))" using i(6) by blast
  note run = attempt_def g b2(1) b3(1) i(1) m b4(1) n Let_def
  show ?thesis
  proof (cases stop)
    case True
    have "attempt env opt mode h b = Some (Inr (((Some True, tx), h'), ?u))" using True by (simp add: run)
    moreover have "Some True = (if stops i ?u then Some True else if reverted ?u then None else Some False)"
      using True verds(2) [of i] by (simp add: stop_def)
    ultimately show ?thesis using ok hint' sameu bigs cnt val i(3,5) last dom res verds(3) [of i] bal dump traced
      by (intro that) (assumption | simp)+
  next
    case False
    have "stats_inv (backStats ?u)" using ok unfolding fuzz_ok_def by blast
    from countTx_ok [OF this last, of mode] obtain s where s: "countTx mode ?u = Inr (?u\<lparr>backStats := s\<rparr>)" "stats_inv s" by blast
    let ?s = "?u\<lparr>backStats := s\<rparr>"
    have "attempt env opt mode h b = Some (Inr (((if reverted (?u\<lparr>backStats := s\<rparr>) then None else Some False, tx), h'), ?u\<lparr>backStats := s\<rparr>))"
      using False by (simp add: run s(1))
    moreover have "fuzz_ok env (?u\<lparr>backStats := s\<rparr>)" using ok s(2) by (simp only: fuzz_ok_updates) (simp add: fuzz_ok_def)
    moreover have "hint_ok (?u\<lparr>backStats := s\<rparr>) h'" by (rule hint_ok_mono [OF _ _ hint']) simp_all
    moreover have "same_targets b (?u\<lparr>backStats := s\<rparr>)" by (rule same_targets_trans [OF sameu]) simp
    moreover have "(if reverted ?s then None else Some False) =
        (if stops i ?s then Some True else if reverted ?s then None else Some False)"
      using False verds(2) [of i] verdict_cong(2) [of ?s ?u i] by (simp add: stop_def)
    moreover have "result ?s = (result b)(liContract i \<mapsto> verdict i ?s ?r)"
      using res verds(3) [of i] verdict_cong(3) [of ?s ?u i] by simp
    moreover have dumps: "dumps ?s = dumped i ?s (dumps b)" using dump dumped_cong [of ?u ?s i] by simp
    ultimately show ?thesis using bigs cnt val i(3,5) last dom bal dumps traced by (intro that) (assumption | simp)+
  qed
qed

section \<open>The retries\<close>

lemma amounts_ok_halve:
  assumes "amounts_ok ptrs heap" and "big_get heap p = Inr v" and "v > 0" and "big_set p w heap = Inr heap'"
  shows "amounts_ok ptrs heap'"
proof -
  obtain q u where q: "q \<in> set ptrs" "big_get heap q = Inr u" "u \<le> 0" using assms(1) by (auto simp: amounts_ok_def)
  have "q \<noteq> p" using q(2,3) assms(2,3) by auto
  then show ?thesis using q assms(1) big_get_set [OF assms(4)] unfolding amounts_ok_def by metis
qed

lemma big_set_length: "big_set p w heap = Inr heap' \<Longrightarrow> length heap' = length heap"
  by (cases p) (auto split: if_splits)

lemma big_set_some: "big_get heap p = Inr v \<Longrightarrow> \<exists>heap'. big_set p w heap = Inr heap'"
  by (cases p) (auto split: if_splits)

lemma halveAmount_ok:
  fixes b :: "('h, 's, 'z) fuzzst_scheme"
  assumes "fuzz_ok env b" and "hint_ok b h" and "big_get (bigs b) (hAmount h) = Inr v" and "v > 0"
    and "LastTxIn b = Some i" and "liSender i \<in> dom (addressToKey b)"
  obtains h' b' where "halveAmount h b = Inr (h', b')" and "fuzz_ok env b'" and "hint_ok b' h'" and "hAmount h' = hAmount h"
    and "big_get (bigs b') (hAmount h) = Inr (v div 2)" and "same_targets b b'" and "TxCount b' = TxCount b"
    and "length (bigs b') = length (bigs b)"
proof -
  obtain heap where heap: "big_set (hAmount h) (v div 2) (bigs b) = Inr heap" using big_set_some [OF assms(3)] by blast
  let ?b = "b\<lparr>bigs := heap\<rparr>" and ?h = "h\<lparr>hSender := Some (liSender i)\<rparr>"
  have "pools_ok env ?b"
    using assms(1) amounts_ok_halve [OF _ assms(3,4) heap]
    by (simp add: fuzz_ok_def chain_ok_split pools_ok_def arg_inv_def b32_ok_def addresses_def bigptrs_def)
  moreover have "same_tables b ?b" by (cases b) (simp add: same_tables_def)
  ultimately have "chain_ok env ?b" using same_tables_chain_ok assms(1) unfolding fuzz_ok_def by blast
  then have ok: "fuzz_ok env ?b" using assms(1) by (simp add: fuzz_ok_def)
  have "hint_ok ?b h" by (rule hint_ok_mono [OF _ _ assms(2)]) (simp_all add: big_set_length [OF heap])
  then have hint: "hint_ok ?b ?h" using assms(6) by (simp add: hint_ok_def)
  have "halveAmount h b = Inr (?h, ?b)" using assms(3,5) heap by (simp add: halveAmount_def drop_bit_eq_div)
  then show ?thesis using ok hint big_get_set [OF heap, of "hAmount h"] big_set_length [OF heap] by (intro that [of ?h ?b]) simp_all
qed

text \<open>
  The most transactions that a call commits, when the value of the first is below \<open>2 ^ L\<close>: without
  halving one for each depth left, with halving alone one for each bit, with both the calls branch four times.
\<close>

definition most_txs :: "OptMode \<Rightarrow> nat \<Rightarrow> nat \<Rightarrow> int" where
  "most_txs mode depth L =
     (if RetryDiffSender mode then if RetryHalfEther mode then 2 ^ (4 - depth) * (int L + 2) - 1 else 1 + int (4 - depth)
      else if RetryHalfEther mode then int L + 1 else 1)"

lemma most_txs_both: "2 \<le> 2 ^ k * (int L + 2)"
proof -
  have "1 * (0 + 2) \<le> 2 ^ k * (int L + 2)" by (rule mult_mono) simp_all
  then show ?thesis by simp
qed

lemma most_txs_pos: "1 \<le> most_txs mode depth L"
  using most_txs_both [of "4 - depth" L] by (simp add: most_txs_def)

lemma most_txs_sender:
  "(if RetryDiffSender mode \<and> depth < 4 then most_txs mode (depth + 1) L else 0) + 1 \<le> most_txs mode depth L"
proof (cases "RetryDiffSender mode \<and> depth < 4")
  case True
  then have "4 - depth = Suc (3 - depth)" by linarith
  then show ?thesis using True most_txs_both [of "3 - depth" L] by (simp add: most_txs_def)
next
  case False
  then show ?thesis using most_txs_pos [of mode depth L] by auto
qed

lemma most_txs_half:
  assumes "RetryHalfEther mode"
  shows "most_txs mode (depth + 1) K + (if RetryDiffSender mode \<and> depth < 4 then most_txs mode (depth + 1) K else 0) + 1
    \<le> most_txs mode depth (Suc K)"
proof (cases "depth < 4")
  case True
  then have "4 - depth = Suc (4 - (depth + 1))" by linarith
  then show ?thesis using assms True by (simp add: most_txs_def algebra_simps)
qed (use assms in \<open>simp add: most_txs_def\<close>)

text \<open>
  How a call ends: it returned, the chain is ready, the hint's amount did not grow, and the number
  of transactions is bounded.
\<close>

definition ends_well ::
  "('h, 's, 'e) chainenv_scheme \<Rightarrow> ('h, 's, 'z) fuzzst_scheme \<Rightarrow> bigptr \<Rightarrow> int \<Rightarrow> (nat \<Rightarrow> int) \<Rightarrow>
   ((bool \<times> Hint) \<times> ('h, 's, 'z) fuzzst_scheme) run \<Rightarrow> bool" where
  "ends_well env b p v n run \<longleftrightarrow>
     (\<exists>r h' b' w. run = Some (Inr ((r, h'), b')) \<and> fuzz_ok env b' \<and> hint_ok b' h' \<and> same_targets b b' \<and>
        hAmount h' = p \<and> big_get (bigs b') p = Inr w \<and> w \<le> v \<and> TxCount b \<le> TxCount b' \<and>
        (\<forall>L. v < 2 ^ L \<longrightarrow> TxCount b' \<le> TxCount b + n L))"

lemma ends_wellI:
  "run = Some (Inr ((r, h'), b')) \<Longrightarrow> fuzz_ok env b' \<Longrightarrow> hint_ok b' h' \<Longrightarrow> same_targets b b' \<Longrightarrow> hAmount h' = p \<Longrightarrow>
   big_get (bigs b') p = Inr w \<Longrightarrow> w \<le> v \<Longrightarrow> TxCount b \<le> TxCount b' \<Longrightarrow>
   (\<And>L. v < 2 ^ L \<Longrightarrow> TxCount b' \<le> TxCount b + n L) \<Longrightarrow> ends_well env b p v n run"
  unfolding ends_well_def by blast

lemma ends_wellE:
  assumes "ends_well env b p v n run"
  obtains r h' b' w where "run = Some (Inr ((r, h'), b'))" and "fuzz_ok env b'" and "hint_ok b' h'" and "same_targets b b'"
    and "hAmount h' = p" and "big_get (bigs b') p = Inr w" and "w \<le> v" and "TxCount b \<le> TxCount b'"
    and "\<forall>L. v < 2 ^ L \<longrightarrow> TxCount b' \<le> TxCount b + n L"
  using assms unfolding ends_well_def by blast

lemma ends_well_after:
  assumes "same_targets a b" and "ends_well env b p w n run" and "w \<le> v" and "TxCount a \<le> TxCount b"
    and "\<And>L. v < 2 ^ L \<Longrightarrow> \<exists>K. w < 2 ^ K \<and> TxCount b + n K \<le> TxCount a + m L"
  shows "ends_well env a p v m run"
proof -
  from assms(2) obtain r h' b' u where u: "run = Some (Inr ((r, h'), b'))" "fuzz_ok env b'" "hint_ok b' h'" "same_targets b b'"
    "hAmount h' = p" "big_get (bigs b') p = Inr u" "u \<le> w" "TxCount b \<le> TxCount b'"
    and n: "\<forall>L. w < 2 ^ L \<longrightarrow> TxCount b' \<le> TxCount b + n L" by (rule ends_wellE)
  show ?thesis
  proof (rule ends_wellI [OF u(1-3) same_targets_trans [OF assms(1) u(4)] u(5,6)])
    show "u \<le> v" "TxCount a \<le> TxCount b'" using u(7,8) assms(3,4) by simp_all
    show "TxCount b' \<le> TxCount a + m L" if "v < 2 ^ L" for L using assms(5) [OF that] n by force
  qed
qed

text \<open>The heuristics after a reverted attempt: half the amount, then another sender.\<close>

definition retryHalf ::
  "('h, 's, 'e) chainenv_scheme \<Rightarrow> Options \<Rightarrow> OptMode \<Rightarrow> nat \<Rightarrow> ethTx \<Rightarrow> Hint \<Rightarrow> ('h, 's, 'z) fuzzst_scheme \<Rightarrow>
   (Hint \<times> ('h, 's, 'z) fuzzst_scheme) run" where
  "retryHalf env opt mode depth tx h b =
     (if RetryHalfEther mode \<and> txValue tx > 0
      then bindT (Some (halveAmount h b)) (\<lambda>(h, b).
           bindT (Rec env opt mode (depth + 1) h b) (\<lambda>((_, h), b). Some (Inr (h, b))))
      else Some (Inr (h, b)))"

definition retrySender ::
  "('h, 's, 'e) chainenv_scheme \<Rightarrow> Options \<Rightarrow> OptMode \<Rightarrow> nat \<Rightarrow> Hint \<Rightarrow> ('h, 's, 'z) fuzzst_scheme \<Rightarrow>
   ((bool \<times> Hint) \<times> ('h, 's, 'z) fuzzst_scheme) run" where
  "retrySender env opt mode depth h b =
     bindT (if RetryDiffSender mode \<and> depth < 4
            then bindT (Rec env opt mode (depth + 1) (h\<lparr>hSender := None\<rparr>) b) (\<lambda>((_, h), b). Some (Inr (h, b)))
            else Some (Inr (h, b))) (\<lambda>(h, b). Some (Inr ((False, h), b)))"

lemma Rec_retries:
  assumes "attempt env opt mode h b = Some (Inr (((returned, tx), h'), b'))"
  shows "Rec env opt mode depth h b =
    (case returned of Some r \<Rightarrow> Some (Inr ((r, h'), b'))
     | None \<Rightarrow> bindT (retryHalf env opt mode depth tx h' b') (\<lambda>(h, b). retrySender env opt mode depth h b))"
  unfolding Rec.simps [of env opt mode depth h b] assms bindT_simps prod.case retryHalf_def retrySender_def ..

lemma Rec_attempt_crash:
  "\<not> crashes faulty (Rec env opt mode depth h b) \<Longrightarrow> \<not> crashes faulty (attempt env opt mode h b)"
  unfolding Rec.simps [of env opt mode depth h b] by (rule crashes_part)

text \<open>
  They return if every call with a smaller amount, or the same amount and a greater depth,
  returns.
\<close>

lemma retryHalf_ends:
  fixes b :: "('h, 's, 'z) fuzzst_scheme"
  assumes IH: "\<And>h (b :: ('h, 's, 'z) fuzzst_scheme). v > 0 \<Longrightarrow> fuzz_ok env b \<Longrightarrow> hint_ok b h \<Longrightarrow> hAmount h = p \<Longrightarrow>
      big_get (bigs b) p = Inr (v div 2) \<Longrightarrow> \<not> crashes (underflows env) (Rec env opt mode (depth + 1) h b) \<Longrightarrow>
      ends_well env b p (v div 2) (most_txs mode (depth + 1)) (Rec env opt mode (depth + 1) h b)"
    and b: "fuzz_ok env b" "hint_ok b h" "hAmount h = p" "big_get (bigs b) p = Inr v" "txValue tx = v"
      "LastTxIn b = Some i" "liSender i \<in> dom (addressToKey b)"
      "\<not> crashes (underflows env) (retryHalf env opt mode depth tx h b)"
  obtains h' b' w where "retryHalf env opt mode depth tx h b = Some (Inr (h', b'))" and "fuzz_ok env b'" and "hint_ok b' h'"
    and "same_targets b b'" and "hAmount h' = p" and "big_get (bigs b') p = Inr w" and "w \<le> v" and "TxCount b \<le> TxCount b'"
    and "\<And>L. v < 2 ^ L \<Longrightarrow> \<exists>K. w < 2 ^ K \<and>
      TxCount b' + (if RetryDiffSender mode \<and> depth < 4 then most_txs mode (depth + 1) K else 0) + 1 \<le> TxCount b + most_txs mode depth L"
proof (cases "RetryHalfEther mode \<and> v > 0")
  case True
  have val: "big_get (bigs b) (hAmount h) = Inr v" and pos: "v > 0" using b(3,4) True by simp_all
  obtain h1 b1 where h1: "halveAmount h b = Inr (h1, b1)" "fuzz_ok env b1" "hint_ok b1 h1" "hAmount h1 = p"
    "big_get (bigs b1) p = Inr (v div 2)" "same_targets b b1" "TxCount b1 = TxCount b"
    using halveAmount_ok [OF b(1,2) val pos b(6,7)] b(3) by metis
  have "\<not> crashes (underflows env) (Rec env opt mode (depth + 1) h1 b1)"
    by (rule crashes_part) (use b(8) h1(1) True b(5) in \<open>simp add: retryHalf_def\<close>)
  from IH [OF pos h1(2-5) this] obtain r h' b' w where e: "Rec env opt mode (depth + 1) h1 b1 = Some (Inr ((r, h'), b'))" "fuzz_ok env b'" "hint_ok b' h'"
    "same_targets b1 b'" "hAmount h' = p" "big_get (bigs b') p = Inr w" "w \<le> v div 2" "TxCount b1 \<le> TxCount b'"
    and n: "\<forall>K. v div 2 < 2 ^ K \<longrightarrow> TxCount b' \<le> TxCount b1 + most_txs mode (depth + 1) K" by (rule ends_wellE)
  show ?thesis
  proof (rule that [OF _ e(2,3) same_targets_trans [OF h1(6) e(4)] e(5,6)])
    show "retryHalf env opt mode depth tx h b = Some (Inr (h', b'))" using h1(1) e(1) True b(5) by (simp add: retryHalf_def)
    show "w \<le> v" "TxCount b \<le> TxCount b'" using e(7,8) h1(7) pos by linarith+
    show "\<exists>K. w < 2 ^ K \<and> TxCount b' + (if RetryDiffSender mode \<and> depth < 4 then most_txs mode (depth + 1) K else 0) + 1
        \<le> TxCount b + most_txs mode depth L" if L: "v < 2 ^ L" for L
    proof -
      obtain K where K: "L = Suc K" using L pos by (cases L) auto
      have less: "v div 2 < 2 ^ K" using L unfolding K by simp
      then have "TxCount b' \<le> TxCount b + most_txs mode (depth + 1) K" using n h1(7) by simp
      then show ?thesis using most_txs_half [of mode depth K] True less e(7) unfolding K by (intro exI [of _ K]) linarith
    qed
  qed
next
  case False
  then have "retryHalf env opt mode depth tx h b = Some (Inr (h, b))" using b(5) by (auto simp: retryHalf_def)
  then show ?thesis
  proof (rule that [OF _ b(1,2) _ b(3,4)])
    show "\<exists>K. v < 2 ^ K \<and> TxCount b + (if RetryDiffSender mode \<and> depth < 4 then most_txs mode (depth + 1) K else 0) + 1
        \<le> TxCount b + most_txs mode depth L" if "v < 2 ^ L" for L
      using that most_txs_sender [of mode depth L] by (intro exI [of _ L]) linarith
  qed simp_all
qed

lemma retries_end:
  fixes b :: "('h, 's, 'z) fuzzst_scheme"
  assumes IH: "\<And>h depth' (b :: ('h, 's, 'z) fuzzst_scheme) w. nat w < nat v \<or> w \<le> v \<and> 4 - depth' < 4 - depth \<Longrightarrow> fuzz_ok env b \<Longrightarrow> hint_ok b h \<Longrightarrow>
      hAmount h = p \<Longrightarrow> big_get (bigs b) p = Inr w \<Longrightarrow> \<not> crashes (underflows env) (Rec env opt mode depth' h b) \<Longrightarrow>
      ends_well env b p w (most_txs mode depth') (Rec env opt mode depth' h b)"
    and b: "fuzz_ok env b" "hint_ok b h" "hAmount h = p" "big_get (bigs b) p = Inr v" "txValue tx = v"
      "LastTxIn b = Some i" "liSender i \<in> dom (addressToKey b)"
    and crash: "\<not> crashes (underflows env)
      (bindT (retryHalf env opt mode depth tx h b) (\<lambda>(h, b). retrySender env opt mode depth h b))"
  shows "ends_well env b p v (\<lambda>L. most_txs mode depth L - 1)
    (bindT (retryHalf env opt mode depth tx h b) (\<lambda>(h, b). retrySender env opt mode depth h b))"
proof -
  have less: "nat (v div 2) < nat v" if "v > 0" using that by simp
  obtain h1 b1 w where
    h1: "retryHalf env opt mode depth tx h b = Some (Inr (h1, b1))" "fuzz_ok env b1" "hint_ok b1 h1"
      "same_targets b b1" "hAmount h1 = p" "big_get (bigs b1) p = Inr w" "w \<le> v" "TxCount b \<le> TxCount b1"
    and n: "\<And>L. v < 2 ^ L \<Longrightarrow> \<exists>K. w < 2 ^ K \<and>
      TxCount b1 + (if RetryDiffSender mode \<and> depth < 4 then most_txs mode (depth + 1) K else 0) + 1 \<le> TxCount b + most_txs mode depth L"
    by (rule retryHalf_ends [OF IH [OF disjI1 [OF less]] b crashes_part [OF crash], rotated -1]) (assumption | blast)+
  have crash1: "\<not> crashes (underflows env) (retrySender env opt mode depth h1 b1)" using crash h1(1) by simp
  have "ends_well env b1 p w (\<lambda>K. if RetryDiffSender mode \<and> depth < 4 then most_txs mode (depth + 1) K else 0)
    (retrySender env opt mode depth h1 b1)"
  proof (cases "RetryDiffSender mode \<and> depth < 4")
    case True
    have hint: "hint_ok b1 (h1\<lparr>hSender := None\<rparr>)" "hAmount (h1\<lparr>hSender := None\<rparr>) = p" using h1(3,5) by (simp_all add: hint_ok_def)
    have "w \<le> v \<and> 4 - (depth + 1) < 4 - depth" using True h1(7) by linarith
    note less' = disjI2 [OF this]
    have "\<not> crashes (underflows env) (Rec env opt mode (depth + 1) (h1\<lparr>hSender := None\<rparr>) b1)"
      by (rule crashes_part [OF crashes_part]) (use crash1 True in \<open>simp add: retrySender_def\<close>)
    from IH [OF less' h1(2) hint h1(6) this] obtain r h' b' u where
      e: "Rec env opt mode (depth + 1) (h1\<lparr>hSender := None\<rparr>) b1 = Some (Inr ((r, h'), b'))" "fuzz_ok env b'" "hint_ok b' h'"
        "same_targets b1 b'" "hAmount h' = p" "big_get (bigs b') p = Inr u" "u \<le> w" "TxCount b1 \<le> TxCount b'"
      and m: "\<forall>L. w < 2 ^ L \<longrightarrow> TxCount b' \<le> TxCount b1 + most_txs mode (depth + 1) L" by (rule ends_wellE)
    have "retrySender env opt mode depth h1 b1 = Some (Inr ((False, h'), b'))" using e(1) True by (simp add: retrySender_def)
    then show ?thesis by (rule ends_wellI [OF _ e(2-8)]) (use m True in simp)
  next
    case False
    then have "retrySender env opt mode depth h1 b1 = Some (Inr ((False, h1), b1))" by (auto simp: retrySender_def)
    then show ?thesis by (rule ends_wellI [OF _ h1(2,3) same_targets_refl h1(5,6)]) (use False in auto)
  qed
  then show ?thesis unfolding h1(1) bindT_simps prod.case by (rule ends_well_after [OF h1(4) _ h1(7,8)]) (use n in force)
qed

text \<open>The amount decreases, or it stays and the depth grows towards 4: the recursion ends.\<close>

lemma Rec_ends_amount:
  fixes b :: "('h, 's, 'z) fuzzst_scheme"
  assumes "fuzz_ok env b" and "hint_ok b h" and "hAmount h = p" and "p \<noteq> 0" and "big_get (bigs b) p = Inr v"
    and "eth_ok env" and "\<not> CheckDeployedContract opt" and "\<not> crashes (underflows env) (Rec env opt mode depth h b)"
  shows "ends_well env b p v (most_txs mode depth) (Rec env opt mode depth h b)"
  using assms(1,2,3,5,8)
proof (induction "(nat v, 4 - depth)" arbitrary: v depth h b rule: wf_induct_rule [OF wf_lex_prod [OF wf_less_than wf_less_than]])
  case 1
  from attempt_ok [OF "1.prems"(1,2) assms(6,7) Rec_attempt_crash [OF "1.prems"(5)]] obtain returned tx h' b' i k where
    a: "attempt env opt mode h b = Some (Inr (((returned, tx), h'), b'))"
      "fuzz_ok env b'" "hint_ok b' h'" "same_targets b b'" "bigs b' = bigs b @ k"
      "big_get (bigs b') (hAmount h') = Inr (txValue tx)" "hAmount h \<noteq> 0 \<longrightarrow> hAmount h' = hAmount h"
      "LastTxIn b' = Some i" "liSender i \<in> dom (addressToKey b')" "TxCount b' = TxCount b + 1" by metis
  have p: "hAmount h' = p" using a(7) "1.prems"(3) assms(4) by simp
  then have val: "txValue tx = v" using a(5,6) big_get_append [OF "1.prems"(4), of k] by simp
  have get: "big_get (bigs b') p = Inr v" using a(6) p val by simp
  show ?case
  proof (cases returned)
    case None
    have "ends_well env b' p v (\<lambda>L. most_txs mode depth L - 1)
      (bindT (retryHalf env opt mode depth tx h' b') (\<lambda>(h, b). retrySender env opt mode depth h b))"
    proof (rule retries_end [OF _ a(2,3) p get val a(8,9)])
      show "\<not> crashes (underflows env) (bindT (retryHalf env opt mode depth tx h' b') (\<lambda>(h, b). retrySender env opt mode depth h b))"
        using "1.prems"(5) Rec_retries [OF a(1)] None by simp
      fix g depth' w and c :: "('h, 's, 'z) fuzzst_scheme"
      assume less: "nat w < nat v \<or> w \<le> v \<and> 4 - depth' < 4 - depth"
        and c: "fuzz_ok env c" "hint_ok c g" "hAmount g = p" "big_get (bigs c) p = Inr w"
          "\<not> crashes (underflows env) (Rec env opt mode depth' g c)"
      have "((nat w, 4 - depth'), (nat v, 4 - depth)) \<in> less_than <*lex*> less_than" using less by auto
      from "1.hyps" [OF this c] show "ends_well env c p w (most_txs mode depth') (Rec env opt mode depth' g c)" .
    qed
    then have "ends_well env b' p v (\<lambda>L. most_txs mode depth L - 1) (Rec env opt mode depth h b)" using Rec_retries [OF a(1)] None by simp
    then show ?thesis by (rule ends_well_after [OF a(4)]) (use a(10) in auto)
  next
    case (Some r)
    then have run: "Rec env opt mode depth h b = Some (Inr ((r, h'), b'))" using Rec_retries [OF a(1)] by simp
    show ?thesis
      by (rule ends_wellI [OF run a(2,3,4) p get]) (use a(10) most_txs_sender [of mode depth] most_txs_pos in simp_all)
  qed
qed

text \<open>The outermost call: its amount is what the first attempt leaves in the hint.\<close>

lemma Rec_count:
  fixes b :: "('h, 's, 'z) fuzzst_scheme"
  assumes "fuzz_ok env b" and "hint_ok b h" and "eth_ok env" and "\<not> CheckDeployedContract opt"
    and "\<not> crashes (underflows env) (Rec env opt mode depth h b)"
  shows "\<exists>returned tx h1 b1 h' b' w. attempt env opt mode h b = Some (Inr (((returned, tx), h1), b1)) \<and>
    Rec env opt mode depth h b = Some (Inr ((returned = Some True, h'), b')) \<and>
    (returned \<noteq> None \<longrightarrow> h' = h1 \<and> b' = b1) \<and> fuzz_ok env b' \<and> hint_ok b' h' \<and> same_targets b b' \<and>
    hAmount h' = hAmount h1 \<and> big_get (bigs b') (hAmount h1) = Inr w \<and> w \<le> txValue tx \<and>
    TxCount b < TxCount b' \<and> (\<forall>L. txValue tx < 2 ^ L \<longrightarrow> TxCount b' \<le> TxCount b + most_txs mode depth L)"
proof -
  from attempt_ok [OF assms(1-4) Rec_attempt_crash [OF assms(5)]] obtain returned tx h1 b1 i where
    a: "attempt env opt mode h b = Some (Inr (((returned, tx), h1), b1))" "fuzz_ok env b1" "hint_ok b1 h1" "same_targets b b1"
      "big_get (bigs b1) (hAmount h1) = Inr (txValue tx)" "LastTxIn b1 = Some i" "liSender i \<in> dom (addressToKey b1)"
      "TxCount b1 = TxCount b + 1" by metis
  show ?thesis
  proof (cases returned)
    case None
    have nil: "hAmount h1 \<noteq> 0" using a(5) by (cases "hAmount h1") auto
    have "ends_well env b1 (hAmount h1) (txValue tx) (\<lambda>L. most_txs mode depth L - 1)
        (bindT (retryHalf env opt mode depth tx h1 b1) (\<lambda>(h, b). retrySender env opt mode depth h b))"
    proof (rule retries_end [OF _ a(2,3) refl a(5) refl a(6,7)])
      show "\<not> crashes (underflows env) (bindT (retryHalf env opt mode depth tx h1 b1) (\<lambda>(h, b). retrySender env opt mode depth h b))"
        using assms(5) Rec_retries [OF a(1)] None by simp
    qed (rule Rec_ends_amount [OF _ _ _ nil _ assms(3,4)])
    then have "ends_well env b1 (hAmount h1) (txValue tx) (\<lambda>L. most_txs mode depth L - 1) (Rec env opt mode depth h b)"
      using Rec_retries [OF a(1)] None by simp
    then obtain r h' b' w where
      e: "Rec env opt mode depth h b = Some (Inr ((r, h'), b'))" "fuzz_ok env b'" "hint_ok b' h'" "same_targets b1 b'"
      "hAmount h' = hAmount h1" "big_get (bigs b') (hAmount h1) = Inr w" "w \<le> txValue tx" "TxCount b1 \<le> TxCount b'"
      "\<forall>L. txValue tx < 2 ^ L \<longrightarrow> TxCount b' \<le> TxCount b1 + (most_txs mode depth L - 1)" by (rule ends_wellE)
    have "\<not> r" using e(1) Rec_retries [OF a(1)] None by (auto simp: retrySender_def bindT_eq_Some_Inr)
    then show ?thesis using a(1,8) e None same_targets_trans [OF a(4) e(4)]
      by (intro exI [of _ returned] exI [of _ tx] exI [of _ h1] exI [of _ b1] exI [of _ h'] exI [of _ b'] exI [of _ w] conjI) simp_all
  next
    case (Some r)
    then have "Rec env opt mode depth h b = Some (Inr ((returned = Some True, h1), b1))" using Rec_retries [OF a(1)] by (cases r) simp_all
    then show ?thesis using a Some most_txs_pos
      by (intro exI [of _ returned] exI [of _ tx] exI [of _ h1] exI [of _ b1] exI [of _ h1] exI [of _ b1] exI [of _ "txValue tx"] conjI)
        simp_all
  qed
qed

lemma Rec_ok:
  fixes b :: "('h, 's, 'z) fuzzst_scheme"
  assumes "fuzz_ok env b" and "hint_ok b h" and "eth_ok env" and "\<not> CheckDeployedContract opt"
    and "\<not> crashes (underflows env) (Rec env opt mode depth h b)"
  shows "\<exists>returned tx h1 b1 h' b' w. attempt env opt mode h b = Some (Inr (((returned, tx), h1), b1)) \<and>
    Rec env opt mode depth h b = Some (Inr ((returned = Some True, h'), b')) \<and>
    (returned \<noteq> None \<longrightarrow> h' = h1 \<and> b' = b1) \<and> fuzz_ok env b' \<and> hint_ok b' h' \<and> same_targets b b' \<and>
    hAmount h' = hAmount h1 \<and> big_get (bigs b') (hAmount h1) = Inr w \<and> w \<le> txValue tx"
  using Rec_count [OF assms] by (elim exE conjE) (intro exI conjI; assumption)

section \<open>Properties\<close>

text \<open>
  C5: On a chain ready for fuzzing the recursion with its retries ends, whatever the options and the depth, however often
  transactions revert, and also when the first call has no amount in its hint: no call recurses forever. It panics in one
  way only, with an index out of range, and only if there is a transaction whose trace makes the scan panic (C9), that is a contract
  that underflows the stack in an arithmetic instruction. Otherwise it returns: the chain stays ready, no contract, ABI, account or snapshot
  changes, and the amount behind the hint's pointer never grows. The result is that of the first attempt: a retry that finds
  a violated property does not stop the fuzzer.
\<close>

theorem rec_returns:
  fixes b :: "('h, 's, 'z) fuzzst_scheme"
  assumes "fuzz_ok env b" and "hint_ok b h" and "eth_ok env" and "\<not> CheckDeployedContract opt"
  shows "Rec env opt mode depth h b = Some (Inl IndexOutOfRange) \<and> underflows env \<or>
   (\<exists>returned tx h1 b1 h' b' w. attempt env opt mode h b = Some (Inr (((returned, tx), h1), b1)) \<and>
    Rec env opt mode depth h b = Some (Inr ((returned = Some True, h'), b')) \<and>
    (returned \<noteq> None \<longrightarrow> h' = h1 \<and> b' = b1) \<and> fuzz_ok env b' \<and> hint_ok b' h' \<and> same_targets b b' \<and>
    hAmount h' = hAmount h1 \<and> big_get (bigs b') (hAmount h1) = Inr w \<and> w \<le> txValue tx)"
proof (cases "crashes (underflows env) (Rec env opt mode depth h b)")
  case True
  then show ?thesis by (simp add: crashes_def)
next
  case False
  show ?thesis by (rule disjI2, rule Rec_ok [OF assms False])
qed

text \<open>
  C7: What one attempt records, for the contract and method it called: an overflow only if the
  transaction was not reverted, an assertion failure in any case, and for a method whose name starts
  with \<open>fuzz_always_true\<close> a violation when it returned a word that does not end in 1, or a revert. The
  attempt asks to stop exactly in these last two cases and to retry exactly when the transaction reverted
  otherwise; it counts as one transaction, and no other result changes. An output of another length than 32 is no violation, nor is one
  whose last byte is 1, such as 257, though neither is 1 or true. An attempt always ends, and it panics only on a trace that makes the scan panic.
\<close>

theorem attempt_verdicts:
  fixes b :: "('h, 's, 'z) fuzzst_scheme"
  assumes "fuzz_ok env b" and "hint_ok b h" and "eth_ok env" and "\<not> CheckDeployedContract opt"
  shows "attempt env opt mode h b = Some (Inl IndexOutOfRange) \<and> underflows env \<or>
   (\<exists>returned tx h' b' i. attempt env opt mode h b = Some (Inr (((returned, tx), h'), b')) \<and> LastTxIn b' = Some i \<and>
    TxCount b' = TxCount b + 1 \<and> (\<forall>c. c \<noteq> liContract i \<longrightarrow> result b' c = result b c) \<and>
    (let last = LastTxRes b'; m = liMethod i; rev = (RevertAtDepth last = 1);
         always = (take 16 m = ''fuzz_always_true'');
         violation = (always \<and> \<not> rev \<and> (\<exists>out. map_option slOutput (StructLogger last) = Some out \<and> length out = 32 \<and> out ! 31 \<noteq> 1)) in
     returned = (if violation \<or> always \<and> rev then Some True else if rev then None else Some False) \<and>
     (\<exists>r. result b' (liContract i) = Some r \<and>
        (\<forall>s. r s =
          (if s = m @ '': Overflow'' \<and> Overflow last \<noteq> [] \<and> \<not> rev then Some (Overflow last)
           else if s = m @ '': AssertionFailure'' \<and> AssertionAtDepth last \<noteq> -1 then Some []
           else if s = m @ '': Property violation'' \<and> violation then Some []
           else if s = m @ '': Revert in fuzz function'' \<and> always \<and> rev then Some []
           else case result b (liContract i) of None \<Rightarrow> None | Some q \<Rightarrow> q s)))))"
proof (cases "crashes (underflows env) (attempt env opt mode h b)")
  case True
  then show ?thesis by (simp add: crashes_def)
next
  case False
  from attempt_ok [OF assms False] obtain returned tx h' b' i where
    a: "attempt env opt mode h b = Some (Inr (((returned, tx), h'), b'))" "TxCount b' = TxCount b + 1" "LastTxIn b' = Some i"
      "result b' = (result b)(liContract i \<mapsto> verdict i b' (resultsOf b (liContract i)))"
      "returned = (if stops i b' then Some True else if reverted b' then None else Some False)" by metis
  have always: "index_is_0 m ''fuzz_always_true'' = (take 16 m = ''fuzz_always_true'')" for m
  proof -
    have "length ''fuzz_always_true'' = 16" by simp
    show ?thesis unfolding index_is_0_def \<open>length ''fuzz_always_true'' = 16\<close> ..
  qed
  have viol: "violated i b' = (index_is_0 (liMethod i) ''fuzz_always_true'' \<and> \<not> reverted b' \<and>
      (\<exists>out. map_option slOutput (StructLogger (LastTxRes b')) = Some out \<and> length out = 32 \<and> out ! 31 \<noteq> 1))"
    unfolding violated_def by auto
  have stop: "(stops i b' \<and> reverted b') = (index_is_0 (liMethod i) ''fuzz_always_true'' \<and> reverted b')"
    unfolding stops_def violated_def by blast
  have "resultsOf b c s = (case result b c of None \<Rightarrow> None | Some q \<Rightarrow> q s)" for c s
    by (simp add: resultsOf_def split: option.split)
  then have entry: "verdict i b' (resultsOf b (liContract i)) s =
      (if s = liMethod i @ '': Overflow'' \<and> Overflow (LastTxRes b') \<noteq> [] \<and> \<not> reverted b' then Some (Overflow (LastTxRes b'))
       else if s = liMethod i @ '': AssertionFailure'' \<and> AssertionAtDepth (LastTxRes b') \<noteq> -1 then Some []
       else if s = liMethod i @ '': Property violation'' \<and> violated i b' then Some []
       else if s = liMethod i @ '': Revert in fuzz function'' \<and> index_is_0 (liMethod i) ''fuzz_always_true'' \<and> reverted b' then Some []
       else case result b (liContract i) of None \<Rightarrow> None | Some q \<Rightarrow> q s)" for s
    unfolding verdict_def stop by (simp only:)
  have res: "result b' (liContract i) = Some (verdict i b' (resultsOf b (liContract i)))" using a(4) by simp
  show ?thesis
  proof (intro disjI2 exI [of _ returned] exI [of _ tx] exI [of _ h'] exI [of _ b'] exI [of _ i] conjI a(1-3))
    show "\<forall>c. c \<noteq> liContract i \<longrightarrow> result b' c = result b c" using a(4) by simp
  qed (unfold Let_def always [symmetric] reverted_def [symmetric] viol [symmetric] a(5) stops_def,
      intro conjI exI [of _ "verdict i b' (resultsOf b (liContract i))"] res allI entry refl)
qed

text \<open>
  C23: The traces that one attempt dumps: a file for an overflow that was not reverted and one for a failed assertion, both
  named after the number of the transaction, and one for a violated property or a reverted property call, which stop the fuzzer. They hold the trace
  of this one transaction, not of the sequence that led to it, and no other file changes. What an earlier transaction with the same number wrote is lost: the
  initial transactions of \<^verbatim>\<open>fuzz\<close> and those of its loop are both counted from the start. The attempt always ends, and it panics only on a trace that makes
  the scan panic.
\<close>

theorem trace_dumped:
  fixes b :: "('h, 's, 'z) fuzzst_scheme"
  assumes "fuzz_ok env b" and "hint_ok b h" and "eth_ok env" and "\<not> CheckDeployedContract opt"
  shows "attempt env opt mode h b = Some (Inl IndexOutOfRange) \<and> underflows env \<or>
   (\<exists>returned tx h' b' tracer. attempt env opt mode h b = Some (Inr (((returned, tx), h'), b')) \<and>
    TxCount b' = TxCount b + 1 \<and> StructLogger (LastTxRes b') = Some tracer \<and>
    (let last = LastTxRes b'; rev = (RevertAtDepth last = 1); stopped = (returned = Some True); n = dec_int (TxCount b + 1) in
     \<forall>f. dumps b' f =
       (if f = ''/tmp/overflow_'' @ n @ ''.json'' \<and> Overflow last \<noteq> [] \<and> \<not> rev \<or>
           f = ''/tmp/assertion_'' @ n @ ''.json'' \<and> AssertionAtDepth last \<noteq> -1 \<or>
           f = ''/tmp/violation.json'' \<and> stopped \<and> \<not> rev \<or> f = ''/tmp/reverted_fuzz.json'' \<and> stopped \<and> rev
        then Some (slLogs tracer) else dumps b f)))"
proof (cases "crashes (underflows env) (attempt env opt mode h b)")
  case True
  then show ?thesis by (simp add: crashes_def)
next
  case False
  from attempt_ok [OF assms False] obtain returned tx h' b' i where
    a: "attempt env opt mode h b = Some (Inr (((returned, tx), h'), b'))" "TxCount b' = TxCount b + 1"
      "dumps b' = dumped i b' (dumps b)" "StructLogger (LastTxRes b') \<noteq> None"
      "returned = (if stops i b' then Some True else if reverted b' then None else Some False)" by metis
  obtain tracer where tr: "StructLogger (LastTxRes b') = Some tracer" using a(4) by blast
  have stop: "(returned = Some True) = stops i b'" using a(5) by simp
  have "violated i b' = (stops i b' \<and> \<not> reverted b')" by (auto simp: stops_def violated_def)
  then have files: "f \<in> set (dumpFiles i b') \<longleftrightarrow>
      f = ''/tmp/overflow_'' @ dec_int (TxCount b') @ ''.json'' \<and> Overflow (LastTxRes b') \<noteq> [] \<and> \<not> reverted b' \<or>
      f = ''/tmp/assertion_'' @ dec_int (TxCount b') @ ''.json'' \<and> AssertionAtDepth (LastTxRes b') \<noteq> -1 \<or>
      f = ''/tmp/violation.json'' \<and> stops i b' \<and> \<not> reverted b' \<or> f = ''/tmp/reverted_fuzz.json'' \<and> stops i b' \<and> reverted b'" for f
    unfolding dumpFiles_def chosen_files by (cases "stops i b'"; cases "reverted b'") (simp_all only: simp_thms)
  have "dumps b' f = (if f \<in> set (dumpFiles i b') then Some (slLogs tracer) else dumps b f)" for f
    by (simp only: a(3) dumped_def lastLogs_def tr option.case)
  then show ?thesis unfolding Let_def files reverted_def a(2) stop [symmetric]
    by (intro disjI2 exI [of _ returned] exI [of _ tx] exI [of _ h'] exI [of _ b'] exI [of _ tracer] conjI a(1,2) tr allI)
qed

text \<open>
  C21: Halving the amount of a hint that the pool of big integers also holds changes the pool: the
  amount before is in it no more, and it cannot be added again, since the pool's table still lists its printed
  form.
\<close>

theorem halving_loses_amount:
  fixes b :: "('h, 's, 'z) fuzzst_scheme"
  assumes "pools b (BigIntPool b) = Some p" and "dec_int v \<in> p_storageMap p" and "hAmount h \<in> set (bigptrs b)"
    and "big_get (bigs b) (hAmount h) = Inr v" and "v > 0"
    and "\<forall>q \<in> set (bigptrs b). big_get (bigs b) q = Inr v \<longrightarrow> q = hAmount h" and "halveAmount h b = Inr (h', b')"
  shows "bigptrs b' = bigptrs b \<and> hAmount h' = hAmount h \<and> big_get (bigs b') (hAmount h) = Inr (v div 2) \<and>
    (\<forall>q \<in> set (bigptrs b'). big_get (bigs b') q \<noteq> Inr v) \<and>
    (\<forall>q. big_get (bigs b') q = Inr v \<longrightarrow> ArgPool_AddBigInt fa q b' = Inr b')"
proof -
  obtain heap where set: "big_set (hAmount h) (drop_bit 1 v) (bigs b) = Inr heap" using big_set_some [OF assms(4)] by blast
  have run: "(case LastTxIn b of None \<Rightarrow> Inl NilDeref
      | Some i \<Rightarrow> Inr (h\<lparr>hSender := Some (liSender i)\<rparr>, b\<lparr>bigs := heap\<rparr>)) = Inr (h', b')"
    using assms(7) unfolding halveAmount_def assms(4) bindR_simps set .
  then obtain i where i: "LastTxIn b = Some i" by (cases "LastTxIn b") simp_all
  have heap: "big_set (hAmount h) (drop_bit 1 v) (bigs b) = Inr heap"
    "h' = h\<lparr>hSender := Some (liSender i)\<rparr>" "b' = b\<lparr>bigs := heap\<rparr>"
    using set run i by simp_all
  have get: "big_get heap q = (if q = hAmount h then Inr (v div 2) else big_get (bigs b) q)" for q
    using big_get_set [OF heap(1)] by (simp add: drop_bit_eq_div)
  have "v div 2 \<noteq> v" using assms(5) by simp
  moreover have "ArgPool_AddBigInt fa q b' = Inr b'" if "big_get heap q = Inr v" for q
    using assms(1,2) that by (simp add: ArgPool_AddBigInt_def pool_at_def heap(3) ring_Contains_def big_sprint_def)
  moreover have "bigptrs b' = bigptrs b" by (simp add: heap(3) bigptrs_def)
  moreover have "bigs b' = heap" "hAmount h' = hAmount h" by (simp_all add: heap(2,3))
  moreover have "big_get heap q \<noteq> Inr v" if "q \<in> set (bigptrs b)" for q
    using assms(6) that \<open>v div 2 \<noteq> v\<close> by (auto simp: get)
  ultimately show ?thesis using get [of "hAmount h"] by simp
qed

text \<open>
  The optimisations of the command line are the four lowest bits, in the order of the struct's fields, whatever the
  other bits are.
\<close>

lemma set_flag_bits:
  "SetFlag w \<lparr>RetryHalfEther = False, RetryDiffSender = False, SnapshotsEnabled = False, GenStatistics = False\<rparr> =
   \<lparr>RetryHalfEther = bit w 0, RetryDiffSender = bit w 1, SnapshotsEnabled = bit w 2, GenStatistics = bit w 3\<rparr>"
proof -
  have mask: "w AND 2 ^ n \<noteq> 0 \<longleftrightarrow> bit w n" for n by (simp add: and_exp_eq_0_iff_not_bit)
  show ?thesis using mask [of 0] mask [of 1] mask [of 2] mask [of 3] by (simp add: SetFlag_def Let_def)
qed

section \<open>Witnesses\<close>

definition all_modes :: OptMode where
  "all_modes = \<lparr>RetryHalfEther = True, RetryDiffSender = True, SnapshotsEnabled = True, GenStatistics = True\<rparr>"

definition no_hint :: Hint where
  "no_hint = \<lparr>hContract = [], hMethod = [], hArgs = None, hAmount = 0, hSender = None, hFallback = False\<rparr>"

lemma no_hint_ok [simp]: "hint_ok b no_hint"
  by (simp add: no_hint_def hint_ok_def)

abbreviation example_loop :: "(nat \<Rightarrow> nat, nat) fuzzst" where
  "example_loop \<equiv> example_fuzz\<lparr>backendSnapshot := Some 0\<rparr>"

lemma example_loop_ok: "fuzz_ok example_chainenv example_loop" "eth_ok example_chainenv" "\<not> CheckDeployedContract loop_options"
proof -
  show "fuzz_ok example_chainenv example_loop" using example_fuzz_ok stats_inv_zero by (simp add: fuzz_ok_def)
  show "eth_ok example_chainenv" using example_chainenv_ok by (simp add: eth_ok_def)
qed (simp add: loop_options_def)

theorem rec_returns_witness:
  "\<exists>r h' b'. Rec example_chainenv loop_options all_modes 0 no_hint example_loop = Some (Inr ((r, h'), b')) \<and>
     fuzz_ok example_chainenv b'"
  using rec_returns [OF example_loop_ok(1) no_hint_ok example_loop_ok(2,3), of all_modes 0] example_chainenv_ok(7) by blast

theorem attempt_verdicts_witness:
  "\<exists>returned tx h' b' i. attempt example_chainenv loop_options all_modes no_hint example_loop =
     Some (Inr (((returned, tx), h'), b')) \<and> LastTxIn b' = Some i \<and> TxCount b' = 1 \<and> result b' (liContract i) \<noteq> None"
proof -
  note outcome = attempt_verdicts [OF example_loop_ok(1) no_hint_ok example_loop_ok(2,3), of all_modes]
  have "\<not> (attempt example_chainenv loop_options all_modes no_hint example_loop = Some (Inl IndexOutOfRange) \<and> underflows example_chainenv)"
    using example_chainenv_ok(7) by simp
  note returns = mp [OF iffD1 [OF disj_imp outcome] this]
  from returns obtain returned tx h' b' i r where
    "attempt example_chainenv loop_options all_modes no_hint example_loop = Some (Inr (((returned, tx), h'), b'))"
    "LastTxIn b' = Some i" "TxCount b' = TxCount example_loop + 1" "result b' (liContract i) = Some r"
    unfolding Let_def by (elim exE conjE) (rule that)
  then show ?thesis
    by (intro exI [of _ returned] exI [of _ tx] exI [of _ h'] exI [of _ b'] exI [of _ i]) simp
qed

theorem trace_dumped_witness:
  "\<exists>returned tx h' b'. attempt example_chainenv loop_options all_modes no_hint example_loop = Some (Inr (((returned, tx), h'), b')) \<and>
     dumps b' ''/tmp/overflow_2.json'' = None"
proof -
  have names: "''/tmp/overflow_2.json'' \<noteq> ''/tmp/overflow_'' @ dec_int 1 @ ''.json''"
    "''/tmp/overflow_2.json'' \<noteq> ''/tmp/assertion_'' @ dec_int 1 @ ''.json''" by code_simp+
  note outcome = trace_dumped [OF example_loop_ok(1) no_hint_ok example_loop_ok(2,3), of all_modes]
  have "\<not> (attempt example_chainenv loop_options all_modes no_hint example_loop = Some (Inl IndexOutOfRange) \<and> underflows example_chainenv)"
    using example_chainenv_ok(7) by simp
  note returns = mp [OF iffD1 [OF disj_imp outcome] this]
  from returns obtain returned tx h' b' and tracer :: structLogger where
    a: "attempt example_chainenv loop_options all_modes no_hint example_loop = Some (Inr (((returned, tx), h'), b'))"
    and d: "\<forall>f. dumps b' f =
       (if f = ''/tmp/overflow_'' @ dec_int (TxCount example_loop + 1) @ ''.json'' \<and>
             Overflow (LastTxRes b') \<noteq> [] \<and> RevertAtDepth (LastTxRes b') \<noteq> 1 \<or>
           f = ''/tmp/assertion_'' @ dec_int (TxCount example_loop + 1) @ ''.json'' \<and> AssertionAtDepth (LastTxRes b') \<noteq> -1 \<or>
           f = ''/tmp/violation.json'' \<and> returned = Some True \<and> RevertAtDepth (LastTxRes b') \<noteq> 1 \<or>
           f = ''/tmp/reverted_fuzz.json'' \<and> returned = Some True \<and> RevertAtDepth (LastTxRes b') = 1
        then Some (slLogs tracer) else dumps example_loop f)"
    unfolding Let_def by (elim exE conjE) (rule that)
  have "dumps b' ''/tmp/overflow_2.json'' = None" using names by (subst d [rule_format]) simp
  with a show ?thesis by blast
qed

lemma backst_extend_pools:
  "pools (backst.extend b f) = pools b" "BigIntPool (backst.extend b f) = BigIntPool b"
  by (cases b; simp add: backst.defs)+

theorem halving_loses_amount_witness:
  "\<exists>h' b'. halveAmount (no_hint\<lparr>hAmount := 1\<rparr>) (example_loop\<lparr>LastTxIn := Some example_input, bigs := [50, 0, 50]\<rparr>) = Inr (h', b') \<and>
     big_get (bigs b') 1 = Inr 25 \<and> ArgPool_AddBigInt (fmtAddress example_env) 3 b' = Inr b'"
proof -
  let ?b = "example_loop\<lparr>LastTxIn := Some example_input, bigs := [50, 0, 50]\<rparr>" and ?h = "no_hint\<lparr>hAmount := 1\<rparr>"
  let ?p = "\<lparr>p_idx = 0, p_storage = [IBigInt 1, IBigInt 2], p_storageMap = {''50'', ''0''}\<rparr>"
  have p: "pools ?b (BigIntPool ?b) = Some ?p" by (simp add: example_fuzz_def backst_extend_pools)
  have key: "dec_int 50 \<in> p_storageMap ?p" by code_simp
  have ptrs: "bigptrs ?b = [1, 2]" using p by (simp add: bigptrs_def)
  have run: "halveAmount ?h ?b = Inr (?h\<lparr>hSender := Some 4097\<rparr>, ?b\<lparr>bigs := [25, 0, 50]\<rparr>)"
    by (simp add: halveAmount_def example_input_def drop_bit_eq_div)
  have "hAmount ?h \<in> set (bigptrs ?b)" "big_get (bigs ?b) (hAmount ?h) = Inr 50"
    "\<forall>q \<in> set (bigptrs ?b). big_get (bigs ?b) q = Inr 50 \<longrightarrow> q = hAmount ?h"
    unfolding ptrs by (simp_all add: numeral_2_eq_2)
  from halving_loses_amount [OF p key this(1,2) _ this(3) run, of "fmtAddress example_env"]
  have "ArgPool_AddBigInt (fmtAddress example_env) 3 (?b\<lparr>bigs := [25, 0, 50]\<rparr>) = Inr (?b\<lparr>bigs := [25, 0, 50]\<rparr>)"
    by (simp add: numeral_3_eq_3)
  with run show ?thesis by simp
qed

end
