(* ===== verification/Fuzzer.thy ===== *)
theory Fuzzer
  imports Startup HeuristicsResults
begin

unbundle bit_operations_syntax

text \<open>
  \<^verbatim>\<open>fuzzer.go\<close>: the options of the command line, the initial transactions, the loop, and the report of the
  coverage.
\<close>

section \<open>Data\<close>

text \<open>
  The flags, as the structs of the library \<^verbatim>\<open>cli\<close> declare them: a name, the text of the help, and the
  value without the flag (\<^verbatim>\<open>false\<close> for a boolean flag).
\<close>

datatype cliFlag = IntFlag string string "64 word" | StringFlag string string string | BoolFlag string string

text \<open>\<^verbatim>\<open>log.LvlInfo\<close> is a constant of go-ethereum, a parameter here.\<close>

definition logLevelFlag :: "64 word \<Rightarrow> cliFlag" where
  "logLevelFlag LvlInfo = IntFlag ''loglevel'' ''log level to emit to the screen'' LvlInfo"

definition metadataFileFlag :: cliFlag where
  "metadataFileFlag = StringFlag ''metadata'' ''metadata file of truffle project to fuzz (generated from extract.sh script)'' []"

definition contractFlag :: cliFlag where
  "contractFlag = StringFlag ''contract'' ''name of contract to fuzz'' []"

definition limitFlag :: cliFlag where
  "limitFlag = IntFlag ''limit'' ''stop fuzzing after specified number of transactions'' 10000"

definition optimizationsFlag :: cliFlag where
  "optimizationsFlag = IntFlag ''o'' ''bitset of optimizations mode (check struct OptMode for more)'' 0"

definition interactiveModeFlag :: cliFlag where
  "interactiveModeFlag = BoolFlag ''it'' ''Interactive mode for guiding fuzzer/checking state''"

definition accountsFlag :: cliFlag where
  "accountsFlag = IntFlag ''a'' ''number of accounts to use during fuzzing (additionally to  what is was during deployment)'' 1"

definition cpuProfileFlag :: cliFlag where
  "cpuProfileFlag = StringFlag ''cpuprofile'' ''flag for profiling cpu, specify filename to save profile'' []"

definition memProfileFlag :: cliFlag where
  "memProfileFlag = StringFlag ''memprofile'' ''flag for profiling memory, specify filename to save profile'' []"

text \<open>The flags that \<^verbatim>\<open>init\<close> registers.\<close>

definition appFlags :: "64 word \<Rightarrow> cliFlag list" where
  "appFlags LvlInfo =
     [metadataFileFlag, contractFlag, limitFlag, optimizationsFlag, interactiveModeFlag, logLevelFlag LvlInfo, cpuProfileFlag,
      memProfileFlag]"

fun flagName :: "cliFlag \<Rightarrow> string" where
  "flagName (IntFlag n _ _) = n"
| "flagName (StringFlag n _ _) = n"
| "flagName (BoolFlag n _) = n"

text \<open>The command line as the library \<^verbatim>\<open>cli\<close> hands it over: the value of each flag.\<close>

record cliContext =
  GlobalString :: "string \<Rightarrow> string"
  GlobalInt :: "string \<Rightarrow> 64 word"
  GlobalBool :: "string \<Rightarrow> bool"
  ContextInt :: "string \<Rightarrow> 64 word"

record Flags =
  flMetadata :: string
  flContract :: string
  flLimit :: "64 word"
  flInteractive :: bool
  flOptMode :: OptMode
  flAccounts :: "64 word"
  flLogLevel :: "64 word"

definition getCLFlags :: "cliContext \<Rightarrow> Flags outcome" where
  "getCLFlags ctx =
     (let metadata = GlobalString ctx (flagName metadataFileFlag) in
      if metadata = [] then Exit 1
      else let contract = GlobalString ctx (flagName contractFlag);
               limit = GlobalInt ctx (flagName limitFlag);
               optimizations = GlobalInt ctx (flagName optimizationsFlag);
               optMode = SetFlag optimizations
                 \<lparr>RetryHalfEther = False, RetryDiffSender = False, SnapshotsEnabled = False, GenStatistics = False\<rparr>;
               accounts = GlobalInt ctx (flagName accountsFlag) in
        Returned \<lparr>flMetadata = metadata, flContract = contract, flLimit = limit,
          flInteractive = GlobalBool ctx (flagName interactiveModeFlag), flOptMode = optMode, flAccounts = accounts,
          flLogLevel = ContextInt ctx (flagName (logLevelFlag 0))\<rparr>)"

text \<open>
  What the library documents: a registered flag has the value given on the command line, or its declared one;
  any other name gives the zero value. Names given without being registered are rejected before \<^verbatim>\<open>fuzz\<close> is called.
\<close>

record cliArgs =
  intArgs :: "string \<rightharpoonup> 64 word"
  stringArgs :: "string \<rightharpoonup> string"
  boolArgs :: "string \<rightharpoonup> bool"

fun intValue :: "cliArgs \<Rightarrow> string \<Rightarrow> cliFlag list \<Rightarrow> 64 word" where
  "intValue args n [] = 0"
| "intValue args n (IntFlag m u v # fs) =
     (if m = n then (case intArgs args n of None \<Rightarrow> v | Some i \<Rightarrow> i) else intValue args n fs)"
| "intValue args n (f # fs) = intValue args n fs"

fun stringValue :: "cliArgs \<Rightarrow> string \<Rightarrow> cliFlag list \<Rightarrow> string" where
  "stringValue args n [] = []"
| "stringValue args n (StringFlag m u v # fs) =
     (if m = n then (case stringArgs args n of None \<Rightarrow> v | Some i \<Rightarrow> i) else stringValue args n fs)"
| "stringValue args n (f # fs) = stringValue args n fs"

fun boolValue :: "cliArgs \<Rightarrow> string \<Rightarrow> cliFlag list \<Rightarrow> bool" where
  "boolValue args n [] = False"
| "boolValue args n (BoolFlag m u # fs) =
     (if m = n then (case boolArgs args n of None \<Rightarrow> False | Some i \<Rightarrow> i) else boolValue args n fs)"
| "boolValue args n (f # fs) = boolValue args n fs"

definition cli_ok :: "64 word \<Rightarrow> cliArgs \<Rightarrow> cliContext \<Rightarrow> bool" where
  "cli_ok LvlInfo args ctx \<longleftrightarrow>
     (\<forall>n. GlobalInt ctx n = intValue args n (appFlags LvlInfo) \<and> ContextInt ctx n = intValue args n (appFlags LvlInfo) \<and>
        GlobalString ctx n = stringValue args n (appFlags LvlInfo) \<and> GlobalBool ctx n = boolValue args n (appFlags LvlInfo))"

section \<open>Operations\<close>

text \<open>\<^verbatim>\<open>Reset\<close> works on the package variables of \<^verbatim>\<open>argpool\<close> and \<^verbatim>\<open>utils\<close>.\<close>

definition Reset :: "argpkg \<Rightarrow> 'z utilst_scheme \<Rightarrow> argpkg \<times> 'z utilst_scheme" where
  "Reset g st = (let st = ResetContractData st in (ResetArgPool g, st))"

text \<open>The covered program counters of the first address, and the number of instructions.\<close>

definition getCoverage ::
  "('h, 's, 'e) chainenv_scheme \<Rightarrow> (bytes \<Rightarrow> 64 word list) \<Rightarrow> string \<Rightarrow> string \<Rightarrow> ('h, 's, 'z) fuzzst_scheme \<Rightarrow>
   ((nat \<times> nat) \<times> ('h, 's, 'z) fuzzst_scheme) res" where
  "getCoverage env decode metadata contract b =
     bindR (GetOpcodeIndices env decode metadata contract b) (\<lambda>(indices, b).
     bindR (contractAddr contract b) (\<lambda>a.
     Inr ((card (case OpcodeIndices b a of None \<Rightarrow> {} | Some cov \<Rightarrow> cov), length indices), b)))"

definition fuzz_options :: Options where
  "fuzz_options = \<lparr>UpdateCoverage = True, CheckDeployedContract = False, UpdateArgPool = True, ExtractTimestamps = False\<rparr>"

text \<open>The initial transactions; what they return is dropped.\<close>

definition fallbackHint :: "string \<Rightarrow> Hint" where
  "fallbackHint contract =
     \<lparr>hContract = contract, hMethod = [], hArgs = None, hAmount = 0, hSender = None, hFallback = True\<rparr>"

definition payHint :: "string \<Rightarrow> string \<Rightarrow> bigptr \<Rightarrow> Hint" where
  "payHint contract m amount =
     \<lparr>hContract = contract, hMethod = m, hArgs = None, hAmount = amount, hSender = None, hFallback = False\<rparr>"

definition tryMethod ::
  "('h, 's, 'e) chainenv_scheme \<Rightarrow> OptMode \<Rightarrow> string \<Rightarrow> string \<Rightarrow> ('h, 's, 'z) fuzzst_scheme \<Rightarrow> ('h, 's, 'z) fuzzst_scheme run" where
  "tryMethod env mode contract m b =
     (if \<not> IsPayable contract m b \<and> \<not> index_is_0 m ''fuzz_always_true''
      then let (amount, heap) = big_new 1 (bigs b) in
        bindT (Rec env fuzz_options mode 0 (payHint contract m amount) (b\<lparr>bigs := heap\<rparr>)) (\<lambda>(_, b). Some (Inr b))
      else Some (Inr b))"

definition tryContract ::
  "('h, 's, 'e) chainenv_scheme \<Rightarrow> OptMode \<Rightarrow> string \<Rightarrow> ('h, 's, 'z) fuzzst_scheme \<Rightarrow> ('h, 's, 'z) fuzzst_scheme run" where
  "tryContract env mode contract b =
     (if contract = ''Migrations'' then Some (Inr b)
      else bindT (Rec env fuzz_options mode 0 (fallbackHint contract) b) (\<lambda>(_, b).
        case DeployedContracts b contract of
          None \<Rightarrow> Some (Inl NilDeref)
        | Some k \<Rightarrow> foldT (tryMethod env mode contract) (Methods k) b))"

definition emptyHint :: Hint where
  "emptyHint = \<lparr>hContract = [], hMethod = [], hArgs = None, hAmount = 0, hSender = None, hFallback = False\<rparr>"

text \<open>The main loop, over the values of its counter that are left.\<close>

fun fuzzLoop ::
  "('h, 's, 'e) chainenv_scheme \<Rightarrow> OptMode \<Rightarrow> int \<Rightarrow> int list \<Rightarrow> ('h, 's, 'z) fuzzst_scheme \<Rightarrow> ('h, 's, 'z) fuzzst_scheme run" where
  "fuzzLoop env mode limit [] b = Some (Inr b)"
| "fuzzLoop env mode limit (i # is) b =
     bindT (Rec env fuzz_options mode 0 emptyHint b) (\<lambda>((terminate, _), b).
     if terminate \<or> TxCount b > limit then Some (Inr b)
     else bindT (Some (if SnapshotsEnabled mode \<and> i AND 8192 \<noteq> 0 then RevertBackend b else Inr b))
       (fuzzLoop env mode limit is))"

text \<open>The percentage is an integer division: it panics for a contract without instructions.\<close>

definition reportContract ::
  "('h, 's, 'e) chainenv_scheme \<Rightarrow> (bytes \<Rightarrow> 64 word list) \<Rightarrow> string \<Rightarrow> string \<Rightarrow> ('h, 's, 'z) fuzzst_scheme \<Rightarrow>
   ('h, 's, 'z) fuzzst_scheme res" where
  "reportContract env decode metadata contract b =
     (case result b contract of None \<Rightarrow> Inr b | Some r \<Rightarrow>
       bindR (getCoverage env decode metadata contract b) (\<lambda>((cov, total), b).
       if total = 0 then Inl DivideByZero
       else setResult contract ''covered'' (dec_nat cov @ ''/'' @ dec_nat total @ '', '' @ dec_nat (100 * cov div total) @ ''%'') b))"

definition reportCoverage ::
  "('h, 's, 'e) chainenv_scheme \<Rightarrow> (bytes \<Rightarrow> 64 word list) \<Rightarrow> string \<Rightarrow> ('h, 's, 'z) fuzzst_scheme \<Rightarrow> ('h, 's, 'z) fuzzst_scheme res" where
  "reportCoverage env decode metadata b =
     foldR (reportContract env decode metadata) (rangeOrder env (dom (DeployedContracts b))) b"

definition fuzz ::
  "('h, 's, 'e) chainenv_scheme \<Rightarrow> (bytes \<Rightarrow> 64 word list) \<Rightarrow> cliContext \<Rightarrow> ('h, 's, 'z) fuzzst_scheme \<Rightarrow>
   ('h, 's, 'z) fuzzst_scheme outcome run" where
  "fuzz env decode ctx b =
     (case getCLFlags ctx of Exit n \<Rightarrow> Some (Inr (Exit n)) | Returned flags \<Rightarrow>
      bindT (Some (NewBackend env (flMetadata flags) b)) (\<lambda>out.
      case out of Exit n \<Rightarrow> Some (Inr (Exit n)) | Returned b \<Rightarrow>
      let b = SnapshotBackend env (b\<lparr>result := Map.empty\<rparr>); mode = flOptMode flags in
      bindT (foldT (tryContract env mode) (rangeOrder env (dom (DeployedContracts b))) b) (\<lambda>b.
      let b = b\<lparr>TxCount := 0\<rparr>; limit = sint (flLimit flags) + TxCount b in
      bindT (fuzzLoop env mode limit [TxCount b..limit - 1] b) (\<lambda>b.
      bindT (Some (reportCoverage env decode (flMetadata flags) b)) (\<lambda>b.
      Some (Inr (Returned b)))))))"

end
