(* ===== verification/InitPools.thy ===== *)
theory InitPools
  imports ProcessorFrame
begin

text \<open>
  \<^verbatim>\<open>InitArgPool\<close> makes a pool that the generator can use: every pooled pointer is that of a number, one of
  the numbers is 0, there is an address, and byte words have 32 bytes. It changes nothing but the pool and
  the random source.
\<close>

section \<open>A pool with valid pointers\<close>

definition pool_sound :: "(address \<Rightarrow> string) \<Rightarrow> 'z argst_scheme \<Rightarrow> bool" where
  "pool_sound fa b \<longleftrightarrow> arg_inv fa b \<and> b32_ok b \<and> (\<forall>p \<in> set (bigptrs b). \<exists>v. big_get (bigs b) p = Inr v)"

lemma pools_ok_sound:
  "pools_ok env b \<longleftrightarrow> pool_sound (fmtAddress env) b \<and> addresses b \<noteq> [] \<and> (\<exists>p \<in> set (bigptrs b). \<exists>v. big_get (bigs b) p = Inr v \<and> v \<le> 0)"
  by (auto simp: pools_ok_def pool_sound_def amounts_ok_def)

lemma sound_adds:
  assumes "pool_sound fa b"
  shows "pool_sound fa (ArgPool_AddInt8 i8 b)" "pool_sound fa (ArgPool_AddInt16 i16 b)" "pool_sound fa (ArgPool_AddInt32 i32 b)"
    "pool_sound fa (ArgPool_AddInt64 i64 b)" "pool_sound fa (ArgPool_AddString s b)" "pool_sound fa (ArgPool_AddTimestamp t b)"
proof -
  have inv: "arg_inv fa b" using assms by (simp add: pool_sound_def)
  show "pool_sound fa (ArgPool_AddInt8 i8 b)" "pool_sound fa (ArgPool_AddInt16 i16 b)" "pool_sound fa (ArgPool_AddInt32 i32 b)"
    "pool_sound fa (ArgPool_AddInt64 i64 b)" "pool_sound fa (ArgPool_AddString s b)"
    using assms arg_inv_adds [OF inv] by (simp_all add: pool_sound_def add_offer b32_ok_def bigptrs_def)
  show "pool_sound fa (ArgPool_AddTimestamp t b)"
    using assms arg_inv_adds(7) [OF inv] by (simp add: pool_sound_def ArgPool_AddTimestamp_def b32_ok_def bigptrs_def Let_def)
qed

text \<open>What the additions to the shared pools change.\<close>

lemma AddBigInt_pools: "ArgPool_AddBigInt fa p b = Inr b' \<Longrightarrow> \<exists>f. b' = b\<lparr>pools := f\<rparr>"
  by (rule exI [of _ "pools b'"]) (auto simp: ArgPool_AddBigInt_def set_pool_def Let_def elim!: bindR_InrE split: if_splits)

lemma AddAddress_pools: "ArgPool_AddAddress fa a b = Inr b' \<Longrightarrow> \<exists>f. b' = b\<lparr>pools := f\<rparr>"
  by (rule exI [of _ "pools b'"]) (auto simp: ArgPool_AddAddress_def set_pool_def Let_def elim!: bindR_InrE split: if_splits)

lemma sound_AddBigInt:
  assumes "pool_sound fa b" and "big_get (bigs b) p = Inr v" and "ArgPool_AddBigInt fa p b = Inr b'"
  shows "pool_sound fa b'"
proof -
  have inv: "arg_inv fa b" using assms(1) by (simp add: pool_sound_def)
  obtain f where f: "b' = b\<lparr>pools := f\<rparr>" using AddBigInt_pools [OF assms(3)] by blast
  have "arg_inv fa b'" using ArgPool_AddBigInt_total [OF inv, of p] assms(3) by auto
  moreover have "set (bigptrs b') \<subseteq> insert p (set (bigptrs b))" using AddBigInt_ptrs [OF inv assms(3)] by blast
  ultimately show ?thesis using assms(1,2) by (auto simp: pool_sound_def f b32_ok_def)
qed

lemma sound_AddAddress:
  assumes "pool_sound fa b" and "ArgPool_AddAddress fa a b = Inr b'"
  shows "pool_sound fa b'"
proof -
  have inv: "arg_inv fa b" using assms(1) by (simp add: pool_sound_def)
  obtain f where f: "b' = b\<lparr>pools := f\<rparr>" using AddAddress_pools [OF assms(2)] by blast
  have "arg_inv fa b'" using ArgPool_AddAddress_total [OF inv, of a] assms(2) by auto
  moreover have "bigptrs b' = bigptrs b" using AddAddress_grows [OF inv assms(2)] by blast
  ultimately show ?thesis using assms(1) by (simp add: pool_sound_def f b32_ok_def)
qed

lemma sound_big_new:
  assumes "pool_sound fa b" and "big_new v (bigs b) = (p, h)" and "ArgPool_AddBigInt fa p (b\<lparr>bigs := h\<rparr>) = Inr b'"
  shows "pool_sound fa b'"
proof -
  have h: "h = bigs b @ [v]" "big_get h p = Inr v" using assms(2) by (auto simp: big_new_def)
  have "pool_sound fa (b\<lparr>bigs := h\<rparr>)"
    using assms(1) big_get_append [of "bigs b" _ _ "[v]"] unfolding pool_sound_def h(1) by (simp add: b32_ok_def bigptrs_def) blast
  from sound_AddBigInt [OF this _ assms(3)] h(2) show ?thesis by simp
qed

section \<open>The steps of the initialisation\<close>

text \<open>A step only adds numbers and leaves the state around the pool alone.\<close>

definition grows :: "'z argst_scheme \<Rightarrow> 'z argst_scheme \<Rightarrow> bool" where
  "grows b b' \<longleftrightarrow> argst.more b' = argst.more b \<and> (\<exists>k. bigs b' = bigs b @ k)"

lemma grows_refl [simp]: "grows b b"
  by (simp add: grows_def)

lemma grows_trans: "grows a b \<Longrightarrow> grows b c \<Longrightarrow> grows a c"
  by (auto simp: grows_def)

lemma initPow_body_sound:
  assumes "pool_sound fa b" and "initPow_body fa i b = Inr b'"
  shows "pool_sound fa b' \<and> grows b b'"
proof -
  define u where "u = (if i \<le> 32767 then ArgPool_AddInt16 (word_of_int i)
      (if i \<le> 2147483647 then ArgPool_AddInt32 (word_of_int i) b else b)
    else (if i \<le> 2147483647 then ArgPool_AddInt32 (word_of_int i) b else b))"
  have u: "pool_sound fa u" "argst.more u = argst.more b" "bigs u = bigs b"
  proof -
    show "pool_sound fa u" using assms(1) by (simp add: u_def sound_adds)
  qed (simp_all add: u_def add_offer)
  obtain p h where new: "big_new i (bigs u) = (p, h)" by (cases "big_new i (bigs u)")
  obtain w where w: "ArgPool_AddBigInt fa p (u\<lparr>bigs := h\<rparr>) = Inr w" "b' = ArgPool_AddInt64 (word_of_int i) w"
    using assms(2) new by (auto simp: initPow_body_def Let_def u_def [symmetric] elim!: bindR_InrE)
  obtain f where "w = u\<lparr>bigs := h, pools := f\<rparr>" using AddBigInt_pools [OF w(1)] by auto
  moreover have "h = bigs b @ [i]" using new u(3) by (auto simp: big_new_def)
  ultimately have "grows b b'" using u(2) by (simp add: w(2) add_offer grows_def)
  with sound_adds(4) [OF sound_big_new [OF u(1) new w(1)]] w(2) show ?thesis by simp
qed

lemma initPow_sound:
  assumes "pool_sound fa b" and "initPow fa b = Inr b'"
  shows "pool_sound fa b' \<and> grows b b'"
  using assms(2) unfolding initPow_foldR
proof (rule foldR_invariant [where P = "\<lambda>u. pool_sound fa u \<and> grows b u"])
  fix x u u' assume "pool_sound fa u \<and> grows b u" "initPow_body fa x u = Inr u'"
  with initPow_body_sound [of fa u x u'] show "pool_sound fa u' \<and> grows b u'" by (auto intro: grows_trans)
qed (use assms(1) in simp)

lemma initPow_grows:
  assumes "initPow fa b = Inr b'"
  shows "grows b b'"
  using assms unfolding initPow_foldR
proof (rule foldR_invariant [where P = "grows b"])
  fix i u u' assume u: "grows b u" and step: "initPow_body fa i u = Inr u'"
  define v where "v = (if i \<le> 32767 then ArgPool_AddInt16 (word_of_int i)
      (if i \<le> 2147483647 then ArgPool_AddInt32 (word_of_int i) u else u)
    else (if i \<le> 2147483647 then ArgPool_AddInt32 (word_of_int i) u else u))"
  obtain p h where p: "big_new i (bigs v) = (p, h)" by fastforce
  obtain w where w: "ArgPool_AddBigInt fa p (v\<lparr>bigs := h\<rparr>) = Inr w" "u' = ArgPool_AddInt64 (word_of_int i) w"
    using step unfolding initPow_body_def Let_def v_def [symmetric] p prod.case by (auto elim!: bindR_InrE)
  obtain f where f: "w = v\<lparr>bigs := h, pools := f\<rparr>" using AddBigInt_pools [OF w(1)] by auto
  have "argst.more v = argst.more u" "bigs v = bigs u" by (simp_all add: v_def add_offer)
  moreover have "h = bigs v @ [i]" using p by (auto simp: big_new_def)
  ultimately show "grows b u'" using u by (auto simp: w(2) f add_offer grows_def)
qed simp

lemma initBytes_sound:
  assumes "pool_sound fa st" and "initBytes st = Inr st'"
  shows "pool_sound fa st' \<and> genst.more st' = genst.more st \<and> bigs st' = bigs st"
proof -
  have inv: "arg_inv fa st" using assms(1) by (simp add: pool_sound_def)
  obtain r p where st': "arg_inv fa st'" "st' = st\<lparr>rnd := r, Bytes32Pool := p\<rparr>" using initBytes_total [OF inv] assms(2) by auto
  have "b32_ok st'"
    using assms(2) unfolding initBytes_def
  proof (rule foldR_invariant [where P = b32_ok])
    fix x :: nat and u u' :: "'a genst_scheme"
    assume u: "b32_ok u" and step: "bindR (repeatR 32 rand_byte u) (\<lambda>(b, st'). Inr (ArgPool_AddBytes32 b st')) = Inr u'"
    obtain bs v where v: "repeatR 32 rand_byte u = Inr (bs, v)" "u' = ArgPool_AddBytes32 bs v"
      using step by (auto elim!: bindR_InrE)
    have "(\<exists>r. v = u\<lparr>rnd := r\<rparr>) \<and> length bs = 32 \<and> (\<forall>x \<in> set bs. True)"
      by (rule repeatR_invariant [OF v(1), where P = "\<lambda>w. \<exists>r. w = u\<lparr>rnd := r\<rparr>"])
         (auto dest!: rand_byte_frame intro: exI [of _ "rnd u"])
    then show "b32_ok u'" using u by (auto simp: v(2) b32_ok_def add_offer offer_def ring_Add_def)
  qed (use assms(1) in \<open>simp add: pool_sound_def\<close>)
  then show ?thesis using assms(1) st' by (auto simp: pool_sound_def bigptrs_def)
qed

lemma initSmall_sound:
  fixes b :: "'z argst_scheme"
  assumes "pool_sound fa b"
  shows "pool_sound fa (initSmall b) \<and> argst.more (initSmall b) = argst.more b"
proof -
  let ?P = "\<lambda>u. pool_sound fa u \<and> argst.more u = argst.more b"
  have more: "argst.more (ArgPool_AddInt64 i64 (ArgPool_AddInt32 i32 (ArgPool_AddInt16 i16 (ArgPool_AddInt8 i8 u)))) = argst.more u"
    for i64 i32 i16 i8 and u :: "'z argst_scheme" by (simp add: add_offer)
  show ?thesis unfolding initSmall_def
    by (rule fold_invariant [where P = ?P]) (simp_all add: assms sound_adds more)
qed

lemma initAccounts_sound:
  fixes b :: "'z argst_scheme"
  assumes "pool_sound fa b" and "initAccounts fa accs b = Inr b'" and "\<forall>(a, p) \<in> set accs. \<exists>v. big_get (bigs b) p = Inr v"
  shows "pool_sound fa b' \<and> argst.more b' = argst.more b"
proof -
  let ?P = "\<lambda>u. pool_sound fa u \<and> argst.more u = argst.more b \<and> bigs u = bigs b"
  have "?P b'" using assms(2) unfolding initAccounts_def
  proof (rule foldR_invariant [where P = ?P])
    fix x and u u' :: "'z argst_scheme"
    assume x: "x \<in> set accs" and u: "?P u"
      and step: "(\<lambda>(addr, amount) st. bindR (ArgPool_AddAddress fa addr st) (ArgPool_AddBigInt fa amount)) x u = Inr u'"
    obtain a p where x': "x = (a, p)" by fastforce
    obtain w where w: "ArgPool_AddAddress fa a u = Inr w" "ArgPool_AddBigInt fa p w = Inr u'"
      using step by (auto simp: x' elim!: bindR_InrE)
    obtain f g where fg: "w = u\<lparr>pools := f\<rparr>" "u' = w\<lparr>pools := g\<rparr>"
      using AddAddress_pools [OF w(1)] AddBigInt_pools [OF w(2)] by blast
    obtain v where "big_get (bigs b) p = Inr v" using assms(3) x by (auto simp: x')
    then have "big_get (bigs w) p = Inr v" using u by (simp add: fg(1))
    from sound_AddBigInt [OF sound_AddAddress [OF conjunct1 [OF u] w(1)] this w(2)] show "?P u'" using u by (simp add: fg)
  qed (use assms(1) in simp)
  then show ?thesis by simp
qed

section \<open>The initialised pool\<close>

lemma InitArgPool_sound:
  fixes st :: "'z genst_scheme"
  assumes "pool_sound fa st" and "InitArgPool fa accs st = Inr st'" and "\<forall>(a, p) \<in> set accs. \<exists>v. big_get (bigs st) p = Inr v"
  shows "pool_sound fa st' \<and> genst.more st' = genst.more st"
proof -
  obtain z h where z: "big_new 0 (bigs st) = (z, h)" by (cases "big_new 0 (bigs st)")
  obtain A B C where steps: "ArgPool_AddBigInt fa z (st\<lparr>bigs := h\<rparr>) = Inr A" "initPow fa (ArgPool_AddInt64 (- 1) A) = Inr B"
    "initBytes B = Inr C" "initAccounts fa accs (initSmall (ArgPool_AddString ''ChainSecurity'' C)) = Inr st'"
    using assms(2) z by (auto simp: InitArgPool_def elim!: bindR_InrE)
  let ?S = "initSmall (ArgPool_AddString ''ChainSecurity'' C)"
  obtain f where f: "A = st\<lparr>bigs := h, pools := f\<rparr>" using AddBigInt_pools [OF steps(1)] by auto
  have A: "pool_sound fa A" by (rule sound_big_new [OF assms(1) z steps(1)])
  have B: "pool_sound fa B" "grows (ArgPool_AddInt64 (- 1) A) B"
    using initPow_sound [OF sound_adds(4) [OF A] steps(2)] by simp_all
  have C: "pool_sound fa C" "genst.more C = genst.more B" "bigs C = bigs B" using initBytes_sound [OF B(1) steps(3)] by simp_all
  have S: "pool_sound fa ?S" "argst.more ?S = argst.more (ArgPool_AddString ''ChainSecurity'' C)"
    using initSmall_sound [OF sound_adds(5) [OF C(1)]] by simp_all
  have "bigs ?S = bigs B" using C(3) by (simp add: initSmall_frame add_offer)
  moreover have "\<exists>k. bigs B = bigs st @ k" using B(2) z by (auto simp: grows_def f add_offer big_new_def)
  ultimately obtain k where k: "bigs ?S = bigs st @ k" by auto
  have "\<exists>v. big_get (bigs ?S) p = Inr v" if "\<exists>v. big_get (bigs st) p = Inr v" for p
    using that big_get_append unfolding k by blast
  then have "\<forall>(a, p) \<in> set accs. \<exists>v. big_get (bigs ?S) p = Inr v" using assms(3) by fast
  from initAccounts_sound [OF S(1) steps(4) this] have F: "pool_sound fa st'" "argst.more st' = argst.more ?S" by simp_all
  have more: "genst.more u = genst.more w" if "argst.more u = argst.more w" for u w :: "'z genst_scheme"
    using that by (cases u; cases w) simp
  have "genst.more st' = genst.more st"
    using more [OF F(2)] more [OF S(2)] C(2) more [of B "ArgPool_AddInt64 (- 1) A"] B(2)
    by (simp add: grows_def f add_offer)
  with F(1) show ?thesis by simp
qed

text \<open>With an account and a fresh pool of numbers, the pool is what the generator needs.\<close>

lemma InitArgPool_pools_ok:
  fixes st :: "'z genst_scheme"
  assumes "pool_sound (fmtAddress env) st" and "pools st (BigIntPool st) = Some ring_new"
    and "InitArgPool (fmtAddress env) accs st = Inr st'" and "accs \<noteq> []" and "\<forall>(a, p) \<in> set accs. \<exists>v. big_get (bigs st) p = Inr v"
  shows "pools_ok env st' \<and> genst.more st' = genst.more st"
proof -
  have inv: "arg_inv (fmtAddress env) st" using assms(1) by (simp add: pool_sound_def)
  note sound = InitArgPool_sound [OF assms(1,3,5)]
  obtain F where F: "InitArgPool (fmtAddress env) accs st = Inr F"
    "\<forall>v \<in> set (0 # map (\<lambda>k. 2 ^ k) [0..<60]). \<exists>z \<in> set (bigptrs F). big_get (bigs F) z = Inr v"
    "fmtAddress env ` fst ` set accs \<subseteq> fmtAddress env ` set (addresses F)"
    using InitArgPool_result [OF inv assms(2), of accs] by blast
  have F': "F = st'" using F(1) assms(3) by simp
  have "\<exists>p \<in> set (bigptrs st'). \<exists>v. big_get (bigs st') p = Inr v \<and> v \<le> 0" using F(2) unfolding F' by force
  moreover have "addresses st' \<noteq> []" using F(3) assms(4) unfolding F' by (cases accs) auto
  ultimately show ?thesis using sound by (simp add: pools_ok_sound)
qed

end
