(* ===== verification/StartupStages.thy ===== *)
theory StartupStages
  imports Startup InitPools
begin

text \<open>
  What \<^verbatim>\<open>NewBackend\<close> makes of a project: each stage of the start-up keeps an invariant, and a
  backend that it returns is ready for fuzzing.
\<close>

section \<open>What is asked of a project\<close>

text \<open>An ABI whose methods have names and arguments that can be made.\<close>

definition usable :: "abi \<Rightarrow> bool" where
  "usable evmABI \<longleftrightarrow> finite (dom (ABIMethods evmABI)) \<and> [] \<notin> dom (ABIMethods evmABI) \<and>
     list_all fillable (Inputs (Constructor evmABI)) \<and> (\<forall>mt \<in> ran (ABIMethods evmABI). list_all fillable (Inputs mt))"

text \<open>
  The files of a project: artifacts with a name and a usable ABI, at least one account, each with an amount, and
  configurations with finitely many entries.
\<close>

definition project_ok :: "'e env_scheme \<Rightarrow> bool" where
  "project_ok env \<longleftrightarrow>
     (\<forall>d files f. readBuildDir env d = Some files \<longrightarrow> f \<in> set files \<longrightarrow> getFilename f \<noteq> []) \<and>
     (\<forall>f a evmABI. readArtifact env f = Some a \<longrightarrow> artABI a = Some evmABI \<longrightarrow> usable evmABI) \<and>
     (\<forall>f js. readAccounts env f = Some js \<longrightarrow> js \<noteq> [] \<and> (\<forall>j \<in> set js. jsonAmount j \<noteq> None))"

text \<open>The state of a new process, as far as the start-up relies on it.\<close>

definition new_pool :: "'e env_scheme \<Rightarrow> 'z argst_scheme \<Rightarrow> bool" where
  "new_pool env b \<longleftrightarrow> arg_inv (fmtAddress env) b \<and> b32_ok b \<and> pools b (BigIntPool b) = Some ring_new"

definition fresh_start :: "'e env_scheme \<Rightarrow> 'z utilst_scheme \<Rightarrow> bool" where
  "fresh_start env b \<longleftrightarrow> new_pool env b \<and> ABIMap b = None \<and> accounts b = None"

section \<open>The invariant until the pools are filled\<close>

lemma new_pool_sound: "new_pool env b \<Longrightarrow> pool_sound (fmtAddress env) b"
  by (auto simp: new_pool_def pool_sound_def bigptrs_def ring_new_def)

lemma new_pool_cong:
  assumes "argst.truncate u = argst.truncate (b\<lparr>bigs := h\<rparr>)"
  shows "new_pool env u = new_pool env b"
  using assms by (cases u; cases b) (simp add: new_pool_def arg_inv_def b32_ok_def argst.truncate_def)

definition known_abis :: "'z utilst_scheme \<Rightarrow> bool" where
  "known_abis b \<longleftrightarrow> (\<exists>abis. ABIMap b = Some abis \<and> (\<forall>c evmABI. abis c = Some evmABI \<longrightarrow> c \<noteq> [] \<and> usable evmABI))"

definition paid_accounts :: "'e env_scheme \<Rightarrow> 'z utilst_scheme \<Rightarrow> bool" where
  "paid_accounts env b \<longleftrightarrow> acc_inv env b \<and> (\<exists>as. accounts b = Some as \<and> as \<noteq> [] \<and>
     (\<forall>a \<in> set as. \<exists>v. big_get (bigs b) (Amount a) = Inr v))"

text \<open>Contracts as the deployments record them: an address each, and no method yet.\<close>

definition new_contracts :: "('db, 'z) backst_scheme \<Rightarrow> bool" where
  "new_contracts b \<longleftrightarrow> finite (dom (DeployedContracts b)) \<and> ContractsList b = [] \<and> backStats b = stats_zero \<and>
     (\<forall>k \<in> ran (DeployedContracts b). Addresses k \<noteq> [] \<and> Methods k = [])"

definition boot_inv :: "'e env_scheme \<Rightarrow> ('db, 'z) backst_scheme \<Rightarrow> bool" where
  "boot_inv env b \<longleftrightarrow> new_pool env b \<and> known_abis b \<and> paid_accounts env b \<and> new_contracts b"

section \<open>Files\<close>

lemma addABI_frame:
  "addABI env d f st = Inr st' \<Longrightarrow> \<exists>x y z. st' = st\<lparr>ABIMap := x, Payable := y, Libraries := z\<rparr>"
proof -
  assume "addABI env d f st = Inr st'"
  then have "st' = st\<lparr>ABIMap := ABIMap st', Payable := Payable st', Libraries := Libraries st'\<rparr>"
    by (auto simp: addABI_def Let_def split: option.splits prod.splits if_splits)
  then show ?thesis by blast
qed

lemma GetABIMap_frame:
  assumes "GetABIMap env metadata st = Inr (m, st')" and "ABIMap st = None"
  shows "\<exists>f x y z. st' = st\<lparr>metadataJSONMap := f, ABIMap := x, Payable := y, Libraries := z\<rparr>"
proof -
  obtain d st1 files where r: "getTruffleDir env metadata st = Inr (d, st1)" "foldR (addABI env d) files
      (st1\<lparr>ABIMap := Some Map.empty, Payable := Some Map.empty, Libraries := Some Map.empty\<rparr>) = Inr st'"
    using assms by (auto simp: GetABIMap_def elim!: bindR_InrE)
  obtain f where f: "st1 = st\<lparr>metadataJSONMap := f\<rparr>" using getTruffleDir_frame [OF r(1)] by blast
  let ?P = "\<lambda>u. \<exists>x y z. u = st\<lparr>metadataJSONMap := f, ABIMap := x, Payable := y, Libraries := z\<rparr>"
  have "?P st'" using r(2)
  proof (rule foldR_invariant [where P = ?P])
    fix a u u' assume "?P u" "addABI env d a u = Inr u'"
    then show "?P u'" by (auto dest!: addABI_frame) (intro exI, rule refl)
  qed (simp add: f, intro exI, rule refl)
  then show ?thesis by blast
qed

lemma GetABIMap_known:
  assumes "project_ok env" and "ABIMap st = None" and "GetABIMap env metadata st = Inr (m, st')"
  shows "known_abis st'"
proof -
  from GetABIMap_fresh [OF assms(2,3)] obtain d files where r: "buildFiles env d = Inr files" "abi_ok env d files st'" by metis
  obtain abis where abis: "ABIMap st' = Some abis" using r(2) by (auto simp: abi_ok_def)
  have "c \<noteq> [] \<and> usable evmABI" if e: "abis c = Some evmABI" for c evmABI
  proof -
    have dom: "dom (nil_map (ABIMap st')) = dom (nil_map (Payable st'))"
      and entry: "\<And>flags. nil_map (Payable st') c = Some flags \<Longrightarrow> abi_entry env d files c evmABI flags"
      using r(2) e abis by (simp_all add: abi_ok_def)
    obtain flags where "nil_map (Payable st') c = Some flags" using dom e abis by (metis domD domI nil_map_simps(2))
    from entry [OF this] show ?thesis using assms(1) r(1)
      by (fastforce simp: abi_entry_def project_ok_def buildFiles_def split: option.splits)
  qed
  with abis show ?thesis by (auto simp: known_abis_def)
qed

section \<open>Accounts\<close>

lemma addAccount_boot:
  assumes "new_pool env b" and "addAccount env j b = Inr b'"
  shows "new_pool env b' \<and> ABIMap b' = ABIMap b"
proof -
  obtain secret where s: "HexToECDSA env (jsonKey j) = Some secret" using assms(2) by (auto simp: addAccount_def split: option.splits)
  from addAccount_Some [OF s, of b] obtain a h where "b' = b\<lparr>keys := keys b @ [secret], bigs := bigs b @ h,
       accounts := Some (account_list b @ [a]), addressToKey := (addressToKey b)(Address a \<mapsto> Key a),
       keyToAddress := (keyToAddress b)(Key a \<mapsto> Address a)\<rparr>" using assms(2) by (metis Inr_inject)
  moreover from this have "new_pool env b' = new_pool env b"
    by (intro new_pool_cong [of _ "bigs b @ h"]) (simp add: argst.truncate_def)
  ultimately show ?thesis using assms(1) by simp
qed

lemma ReadAccounts_boot:
  assumes "project_ok env" and "new_pool env b" and "accounts b = None" and "ReadAccounts env metadata b = Inr (as, b')"
  shows "new_pool env b' \<and> paid_accounts env b' \<and> ABIMap b' = ABIMap b \<and> accounts b' = Some as"
proof -
  obtain f b1 js where r: "getAccountsJSONFile env metadata b = Inr (f, b1)" "readAccounts env f = Some js"
    "foldR (addAccount env) js (b1\<lparr>accounts := Some [], keyToAddress := Map.empty, addressToKey := Map.empty\<rparr>) = Inr b'"
    "as = account_list b'"
    using assms(3,4) by (auto simp: ReadAccounts_def elim!: bindR_InrE split: option.splits)
  obtain g where g: "b1 = b\<lparr>metadataJSONMap := g\<rparr>" using getAccountsJSONFile_frame [OF r(1)] by blast
  let ?P = "\<lambda>u. new_pool env u \<and> ABIMap u = ABIMap b"
  have P: "?P b'" using r(3)
  proof (rule foldR_invariant [where P = ?P])
    fix j u u' assume "?P u" "addAccount env j u = Inr u'"
    with addAccount_boot [of env u j u'] show "?P u'" by simp
  next
    let ?s = "b1\<lparr>accounts := Some [], keyToAddress := Map.empty, addressToKey := Map.empty\<rparr>"
    have "new_pool env ?s = new_pool env b" by (rule new_pool_cong [of _ "bigs b"]) (simp add: g argst.truncate_def)
    then show "?P ?s" using assms(2) by (simp add: g)
  qed
  from addAccount_loop [OF r(3) acc_inv_empty] have loop: "acc_inv env b'" "accounts b' \<noteq> None"
    "list_all2 (account_of env (keys b') (bigs b')) js as" by (auto simp: account_list_def r(4))
  have accs: "accounts b' = Some as" using loop(2) by (auto simp: r(4) account_list_def)
  have js: "js \<noteq> []" "\<And>j. j \<in> set js \<Longrightarrow> jsonAmount j \<noteq> None" using assms(1) r(2) by (auto simp: project_ok_def)
  have "as \<noteq> []" using loop(3) js(1) by auto
  moreover have "\<exists>v. big_get (bigs b') (Amount a) = Inr v" if a: "a \<in> set as" for a
  proof -
    obtain j where "j \<in> set js" "account_of env (keys b') (bigs b') j a" 
      using loop(3) a by (metis in_set_conv_nth list_all2_conv_all_nth)
    then show ?thesis using js(2) by (force simp: account_of_def)
  qed
  ultimately show ?thesis using P loop(1) accs by (simp add: paid_accounts_def)
qed

text \<open>A deployment transaction marks its sender, which changes no number, key or address.\<close>

lemma markUsed_amounts:
  assumes "markUsed addr st = Inr st'"
  shows "\<exists>acs. st' = st\<lparr>accounts := acs\<rparr>" and "map Amount (account_list st') = map Amount (account_list st)"
    and "accounts st' = None \<longleftrightarrow> accounts st = None"
proof -
  obtain j where j: "findAccount addr 0 (account_list st) = Inr j"
      "st' = st\<lparr>accounts := map_option (\<lambda>as. as[j := (as ! j)\<lparr>Used := True\<rparr>]) (accounts st)\<rparr>"
    using assms by (auto simp: markUsed_def GetAccountFromAddress_def elim!: bindR_InrE)
  then show "\<exists>acs. st' = st\<lparr>accounts := acs\<rparr>" "accounts st' = None \<longleftrightarrow> accounts st = None" by auto
  from findAccount_Inr [OF j(1)] have "j < length (account_list st)" by auto
  then show "map Amount (account_list st') = map Amount (account_list st)"
    by (cases "accounts st") (auto simp: j(2) account_list_def list_eq_iff_nth_eq nth_list_update)
qed

lemma paid_accounts_alt:
  "paid_accounts env b \<longleftrightarrow> acc_inv env b \<and> accounts b \<noteq> None \<and> map Amount (account_list b) \<noteq> [] \<and>
     (\<forall>p \<in> set (map Amount (account_list b)). \<exists>v. big_get (bigs b) p = Inr v)"
  by (cases "accounts b") (simp_all add: paid_accounts_def account_list_def)

lemma boot_inv_accounts:
  assumes "boot_inv env b" and "paid_accounts env (b\<lparr>accounts := acs\<rparr>)"
  shows "boot_inv env (b\<lparr>accounts := acs\<rparr>)"
proof -
  have "new_pool env (b\<lparr>accounts := acs\<rparr>) = new_pool env b"
    by (rule new_pool_cong [of _ "bigs b"]) (simp add: argst.truncate_def)
  then show ?thesis using assms by (simp add: boot_inv_def known_abis_def new_contracts_def)
qed

lemma convertAndSign_boot:
  assumes "boot_inv env b" and "convertAndSign env t b = Inr (tx, b')"
  shows "boot_inv env b'"
proof -
  have mark: "markUsed (HexToAddress env (From t)) b = Inr b'"
    using assms(2) by (auto simp: convertAndSign_unsigned elim!: bindR_InrE split: option.splits)
  obtain acs where b': "b' = b\<lparr>accounts := acs\<rparr>" using markUsed_amounts(1) [OF mark] by blast
  have paid: "paid_accounts env b" using assms(1) by (simp add: boot_inv_def)
  then have "acc_inv env b" by (simp add: paid_accounts_def)
  then have "acc_inv env b'" using markUsed_inv [OF _ mark] by blast
  then have "paid_accounts env b'"
    using paid markUsed_amounts(2,3) [OF mark] unfolding paid_accounts_alt by (simp add: b')
  then show ?thesis using boot_inv_accounts [OF assms(1)] by (simp add: b')
qed

lemma ReadTransactions_boot:
  assumes "boot_inv env b" and "ReadTransactions env f b = Inr (txs, b')"
  shows "boot_inv env b'"
proof -
  obtain lines where "foldR (\<lambda>line (txs, st). case line of None \<Rightarrow> Inl (Panic ''error unmarshalling transaction'')
      | Some t \<Rightarrow> bindR (convertAndSign env t st) (\<lambda>(tx, st). Inr (txs @ [tx], st))) lines ([], b) = Inr (txs, b')"
    using assms(2) by (auto simp: ReadTransactions_def elim!: bindR_InrE split: option.splits if_splits)
  then have "boot_inv env (snd (txs, b'))"
    by (rule foldR_invariant [where P = "\<lambda>r. boot_inv env (snd r)"])
       (auto simp: assms(1) split: option.splits elim!: bindR_InrE dest: convertAndSign_boot)
  then show ?thesis by simp
qed

section \<open>Deployments\<close>

text \<open>What the invariant does not look at.\<close>

lemma boot_inv_updates [simp]:
  fixes b :: "('h, 's, 'z) fuzzst_scheme"
  shows "boot_inv env (b\<lparr>StateDB := w\<rparr>) = boot_inv env b" "boot_inv env (b\<lparr>LastTxRes := r\<rparr>) = boot_inv env b"
    "boot_inv env (b\<lparr>TxCount := n\<rparr>) = boot_inv env b" "boot_inv env (b\<lparr>defaultHeader := hdr\<rparr>) = boot_inv env b"
    "boot_inv env (b\<lparr>clock := c\<rparr>) = boot_inv env b" "boot_inv env (b\<lparr>metadataJSONMap := f\<rparr>) = boot_inv env b"
    "boot_inv env (b\<lparr>ContractHashes := g\<rparr>) = boot_inv env b" "boot_inv env (b\<lparr>OpcodeIndices := m\<rparr>) = boot_inv env b"
  by (simp_all add: boot_inv_def known_abis_def paid_accounts_def new_contracts_def acc_inv_def account_list_def new_pool_def
      arg_inv_def b32_ok_def)

lemma boot_tables [simp]:
  fixes b :: "('h, 's, 'z) fuzzst_scheme"
  shows "paid_accounts env (b\<lparr>TimestampPool := p\<rparr>) = paid_accounts env b" "known_abis (b\<lparr>TimestampPool := p\<rparr>) = known_abis b"
    "new_contracts (b\<lparr>TimestampPool := p\<rparr>) = new_contracts b"
    "paid_accounts env (b\<lparr>DeployedContracts := d\<rparr>) = paid_accounts env b" "known_abis (b\<lparr>DeployedContracts := d\<rparr>) = known_abis b"
    "new_pool env (b\<lparr>DeployedContracts := d\<rparr>) = new_pool env b"
  by (simp_all add: paid_accounts_def acc_inv_def account_list_def known_abis_def new_contracts_def new_pool_def arg_inv_def b32_ok_def)

lemma extractTimestamps_boot:
  fixes b :: "('h, 's, 'z) fuzzst_scheme"
  assumes "boot_inv env b"
  shows "boot_inv env (extractTimestamps vs b)"
proof -
  obtain p where p: "extractTimestamps vs b = b\<lparr>TimestampPool := p\<rparr>" using extractTimestamps_frame [of vs b] by blast
  have "arg_inv (fmtAddress env) (extractTimestamps vs b)"
    using extractTimestamps_pools [of b vs] assms by (simp add: same_pools_def boot_inv_def new_pool_def)
  then show ?thesis using assms unfolding p by (simp add: boot_inv_def new_pool_def b32_ok_def)
qed

lemma recordDeployment_boot:
  fixes b :: "('h, 's, 'z) fuzzst_scheme"
  assumes "boot_inv env b" and "recordDeployment env tx log b = Inr b'"
  shows "boot_inv env b'"
proof -
  obtain hash found where h: "GetSwarmHash (hex_encode (Memory log)) = Inr (hash, found)"
    using assms(2) by (auto simp: recordDeployment_def elim!: bindR_InrE)
  show ?thesis
  proof (cases found)
    case False
    then show ?thesis using assms h by (simp add: recordDeployment_def)
  next
    case True
    let ?c = "\<lambda>u name. case DeployedContracts u name of None \<Rightarrow> \<lparr>Addresses = [], Methods = []\<rparr> | Some c \<Rightarrow> c"
    obtain name u addr where u: "GetContractNameByHash env hash (backMetadata b) b = Inr (name, u)"
      "b' = u\<lparr>DeployedContracts := (DeployedContracts u)(name \<mapsto> (?c u name)\<lparr>Addresses := Addresses (?c u name) @ [addr]\<rparr>)\<rparr>"
      using assms h True by (auto simp: recordDeployment_def Let_def elim!: bindR_InrE)
    obtain f g where "u = b\<lparr>metadataJSONMap := f, ContractHashes := g\<rparr>" using GetContractNameByHash_frame [OF u(1)] by blast
    then have inv: "boot_inv env u" using assms(1) by simp
    then have "new_contracts u" by (simp add: boot_inv_def)
    then have "Methods (?c u name) = []"
      by (auto simp: new_contracts_def ran_def split: option.splits)
    then have "new_contracts b'" using \<open>new_contracts u\<close> unfolding u(2) by (auto simp: new_contracts_def ran_def)
    then show ?thesis using inv unfolding u(2) by (simp add: boot_inv_def)
  qed
qed

lemma processLog_boot:
  fixes b :: "('h, 's, 'z) fuzzst_scheme"
  assumes "boot_inv env b" and "processLog env tx (Some opt) logs i (cs, b) = Inr (cs', b')"
  shows "boot_inv env b'"
proof -
  define u where "u = (if ExtractTimestamps opt then extractTimestamps (Stack (logs ! i)) b else b)"
  have u: "boot_inv env u" using assms(1) extractTimestamps_boot [OF assms(1)] by (simp add: u_def)
  obtain r where r: "checkOverflow env logs i (LastTxRes u) = Inr r"
    using assms(2) by (auto simp: processLog_def Let_def u_def elim!: bindR_InrE)
  let ?v = "u\<lparr>LastTxRes := checkRevert (logs ! i) (checkAssertion (logs ! i) r)\<rparr>"
  obtain m w where w: "w = ?v\<lparr>OpcodeIndices := m\<rparr>" and dep: "b' = w \<or> recordDeployment env tx (logs ! i) w = Inr b'"
  proof -
    obtain cs'' w where cov: "(if UpdateCoverage opt \<and> txTo tx \<noteq> None
                then bindR (coverLog env logs i (cs, OpcodeIndices ?v)) (\<lambda>(callSt, m). Inr (callSt, ?v\<lparr>OpcodeIndices := m\<rparr>))
                else Inr (cs, ?v)) = Inr (cs'', w)"
      and dep: "if \<not> CheckDeployedContract opt \<or> Op (logs ! i) \<noteq> op_RETURN then b' = w
        else recordDeployment env tx (logs ! i) w = Inr b'"
      using assms(2) r by (auto simp: processLog_def Let_def u_def [symmetric] elim!: bindR_InrE split: if_splits)
    have "w = ?v\<lparr>OpcodeIndices := OpcodeIndices w\<rparr>" using cov by (auto split: if_splits elim!: bindR_InrE)
    with dep show ?thesis using that [of w "OpcodeIndices w"] by (auto split: if_splits)
  qed
  have "boot_inv env w" using u by (simp add: w)
  with dep show ?thesis using recordDeployment_boot by blast
qed

lemma processLogs_boot:
  fixes b :: "('h, 's, 'z) fuzzst_scheme"
  assumes "boot_inv env b" and "processLogs env receipt tx (Some opt) b = Inr b'" and "\<not> UpdateArgPool opt"
  shows "boot_inv env b'"
proof -
  obtain tracer where tr: "StructLogger (LastTxRes b) = Some tracer" using assms(2) by (auto simp: processLogs_def split: option.splits)
  from processLogs_loop [OF assms(2) tr] obtain u cs where u:
    "updateFromOutput env (Some opt) (slOutput tracer)
       (b\<lparr>LastTxRes := (LastTxRes b)\<lparr>Output := slOutput tracer, Receipt := Some receipt\<rparr>\<rparr>) = Inr u"
    "foldR (processLog env tx (Some opt) (slLogs tracer)) [0..<length (slLogs tracer)]
       ([txTo tx], u\<lparr>LastTxRes := (LastTxRes u)\<lparr>AssertionAtDepth := -1, RevertAtDepth := -1, Overflow := []\<rparr>\<rparr>) = Inr (cs, b')" .
  have "boot_inv env u" using u(1) assms(1,3) by (auto simp: updateFromOutput_def)
  then have "boot_inv env (snd (cs, b'))"
    using u(2) by (elim foldR_invariant [where P = "\<lambda>s. boot_inv env (snd s)"]) (auto dest: processLog_boot)
  then show ?thesis by simp
qed

lemma CommitTransaction_boot:
  fixes b :: "('h, 's, 'z) fuzzst_scheme"
  assumes "boot_inv env b" and "CommitTransaction env tx (Some opt) hdr b = Inr (r, hdr', b')" and "\<not> UpdateArgPool opt"
  shows "boot_inv env b'"
proof -
  obtain snap w where snap: "Snapshot env (StateDB b) = (snap, w)" by (cases "Snapshot env (StateDB b)")
  obtain outcome tracer used w' where ap: "ApplyTransaction env w hdr maxGasPool tx = (outcome, tracer, used, w')"
    by (cases "ApplyTransaction env w hdr maxGasPool tx")
  let ?u = "b\<lparr>TxCount := TxCount b + 1, StateDB := w', LastTxRes := (LastTxRes b)\<lparr>Receipt := None, StructLogger := Some tracer\<rparr>\<rparr>"
  show ?thesis
  proof (cases outcome)
    case (Inl err)
    then show ?thesis using assms(1,2) snap ap by (auto simp: CommitTransaction_def commitTransaction_def)
  next
    case (Inr receipt)
    then have "processLogs env receipt tx (Some opt) ?u = Inr b'"
      using assms(2) snap ap by (auto simp: CommitTransaction_def commitTransaction_def elim!: bindR_InrE)
    from processLogs_boot [OF _ this assms(3)] assms(1) show ?thesis by simp
  qed
qed

lemma deployAll_boot:
  fixes b :: "('h, 's, 'z) fuzzst_scheme"
  assumes "boot_inv env b" and "deployAll env txs b = Inr b'"
  shows "boot_inv env b'"
  using assms(2) unfolding deployAll_def
proof (rule foldR_invariant [where P = "boot_inv env"])
  fix tx and u u' :: "('h, 's, 'z) fuzzst_scheme"
  assume u: "boot_inv env u" and step: "(let (hdr, b) = GetDefaultHeader u in
       bindR (CommitTransaction env tx (Some deploy_options) hdr b) (\<lambda>(_, hdr, b). Inr (b\<lparr>defaultHeader := Some hdr\<rparr>))) = Inr u'"
  obtain hdr v where v: "GetDefaultHeader u = (hdr, v)" by (cases "GetDefaultHeader u")
  have "boot_inv env v" using u v by (auto simp: GetDefaultHeader_def now_def Let_def split: option.splits)
  moreover have "\<not> UpdateArgPool deploy_options" by (simp add: deploy_options_def)
  moreover obtain r hdr' w where "CommitTransaction env tx (Some deploy_options) hdr v = Inr (r, hdr', w)"
    "u' = w\<lparr>defaultHeader := Some hdr'\<rparr>" using step v by (auto elim!: bindR_InrE)
  ultimately show "boot_inv env u'" using CommitTransaction_boot [of env v tx deploy_options hdr r hdr' w] by simp
qed (rule assms(1))

section \<open>The invariant once the pools are filled\<close>

definition some_accounts :: "'e env_scheme \<Rightarrow> 'z utilst_scheme \<Rightarrow> bool" where
  "some_accounts env b \<longleftrightarrow> acc_inv env b \<and> (\<exists>as. accounts b = Some as \<and> as \<noteq> [])"

text \<open>Contracts with an address, an ABI, and methods of this ABI; the list names some of them, each once.\<close>

definition listed_contracts :: "('db, 'z) backst_scheme \<Rightarrow> bool" where
  "listed_contracts b \<longleftrightarrow> finite (dom (DeployedContracts b)) \<and> backStats b = stats_zero \<and>
     (\<forall>c k. DeployedContracts b c = Some k \<longrightarrow>
        Addresses k \<noteq> [] \<and> (\<exists>evmABI. abi_at b c = Some evmABI \<and> set (Methods k) \<subseteq> dom (ABIMethods evmABI))) \<and>
     distinct (ContractsList b) \<and> set (ContractsList b) \<subseteq> dom (DeployedContracts b) - {''Migrations''}"

definition ready_inv :: "'e env_scheme \<Rightarrow> ('db, 'z) backst_scheme \<Rightarrow> bool" where
  "ready_inv env b \<longleftrightarrow> pools_ok env b \<and> known_abis b \<and> some_accounts env b \<and> listed_contracts b"

lemma more_tables:
  fixes b :: "('db, 'z) backst_scheme"
  assumes "genst.more b' = genst.more b"
  shows "known_abis b' = known_abis b" "some_accounts env b' = some_accounts env b" "new_contracts b' = new_contracts b"
proof -
  have "ABIMap b' = ABIMap b" "accounts b' = accounts b" "keys b' = keys b" "addressToKey b' = addressToKey b"
    "keyToAddress b' = keyToAddress b" "DeployedContracts b' = DeployedContracts b" "ContractsList b' = ContractsList b"
    "backStats b' = backStats b"
    using assms by (cases b; cases b'; simp)+
  then show "known_abis b' = known_abis b" "some_accounts env b' = some_accounts env b" "new_contracts b' = new_contracts b"
    by (simp_all add: known_abis_def some_accounts_def new_contracts_def acc_inv_def account_list_def)
qed

lemma ready_tables [simp]:
  fixes b :: "('db, 'z) backst_scheme"
  shows "pools_ok env (b\<lparr>DeployedContracts := d, ContractsList := l\<rparr>) = pools_ok env b"
    "known_abis (b\<lparr>DeployedContracts := d, ContractsList := l\<rparr>) = known_abis b"
    "some_accounts env (b\<lparr>DeployedContracts := d, ContractsList := l\<rparr>) = some_accounts env b"
    "pools_ok env (b\<lparr>DeployedContracts := d\<rparr>) = pools_ok env b" "some_accounts env (b\<lparr>DeployedContracts := d\<rparr>) = some_accounts env b"
    "known_abis (b\<lparr>TimestampPool := p\<rparr>) = known_abis b" "some_accounts env (b\<lparr>TimestampPool := p\<rparr>) = some_accounts env b"
    "listed_contracts (b\<lparr>TimestampPool := p\<rparr>) = listed_contracts b"
    "ready_inv env (b\<lparr>metadataJSONMap := f, fuzzingConfig := g\<rparr>) = ready_inv env b"
  by (simp_all add: ready_inv_def pools_ok_def arg_inv_def b32_ok_def addresses_def bigptrs_def known_abis_def some_accounts_def
      acc_inv_def account_list_def listed_contracts_def abi_at_def)

lemma InitArgPool_boot:
  fixes b :: "('h, 's, 'z) fuzzst_scheme"
  assumes "boot_inv env b" and "accounts b = Some as"
    and "InitArgPool (fmtAddress env) (map (\<lambda>a. (Address a, Amount a)) as) b = Inr b'"
  shows "pools_ok env b' \<and> known_abis b' \<and> some_accounts env b' \<and> new_contracts b'"
proof -
  have pool: "pool_sound (fmtAddress env) b" "pools b (BigIntPool b) = Some ring_new"
    using assms(1) new_pool_sound [of env b] by (simp_all add: boot_inv_def new_pool_def)
  have as: "as \<noteq> []" "\<forall>a \<in> set as. \<exists>v. big_get (bigs b) (Amount a) = Inr v" "acc_inv env b"
    using assms(1,2) by (simp_all add: boot_inv_def paid_accounts_def)
  have "pools_ok env b' \<and> genst.more b' = genst.more b"
    by (rule InitArgPool_pools_ok [OF pool assms(3)]) (use as in auto)
  moreover from this have more: "genst.more b' = genst.more b" by simp
  note more_tables(1,3) [OF more] more_tables(2) [OF more, of env]
  moreover have "known_abis b" "some_accounts env b" "new_contracts b" using assms(1,2) as
    by (simp_all add: boot_inv_def some_accounts_def)
  ultimately show ?thesis by simp
qed

section \<open>Listing and configuration\<close>

lemma RemoveLibraries_frame:
  fixes b :: "('db, 'z) backst_scheme"
  shows "\<exists>d. RemoveLibraries env b = b\<lparr>DeployedContracts := d\<rparr> \<and> d \<subseteq>\<^sub>m DeployedContracts b"
  unfolding RemoveLibraries_def
proof (rule fold_invariant [where P = "\<lambda>u. \<exists>d. u = b\<lparr>DeployedContracts := d\<rparr> \<and> d \<subseteq>\<^sub>m DeployedContracts b"])
  show "\<exists>d. b = b\<lparr>DeployedContracts := d\<rparr> \<and> d \<subseteq>\<^sub>m DeployedContracts b" by (rule exI [of _ "DeployedContracts b"]) simp
  fix c and u :: "('db, 'z) backst_scheme"
  assume "\<exists>d. u = b\<lparr>DeployedContracts := d\<rparr> \<and> d \<subseteq>\<^sub>m DeployedContracts b"
  then obtain d where d: "u = b\<lparr>DeployedContracts := d\<rparr>" "d \<subseteq>\<^sub>m DeployedContracts b" by blast
  have "d(c := None) \<subseteq>\<^sub>m DeployedContracts b" using d(2) by (auto simp: map_le_def split: if_splits)
  then show "\<exists>d. (if DeployedContracts u c \<noteq> None then u\<lparr>DeployedContracts := (DeployedContracts u)(c := None)\<rparr> else u)
      = b\<lparr>DeployedContracts := d\<rparr> \<and> d \<subseteq>\<^sub>m DeployedContracts b"
  proof (cases "d c = None")
    case True
    then show ?thesis using d by (intro exI [of _ d]) (simp add: d(1))
  next
    case False
    then show ?thesis using \<open>d(c := None) \<subseteq>\<^sub>m DeployedContracts b\<close> by (intro exI [of _ "d(c := None)"]) (simp add: d(1))
  qed
qed

lemma listContracts_frame:
  fixes b :: "('h, 's, 'z) fuzzst_scheme"
  assumes "foldR (listContract env metadata) cs b = Inr b'" and "ABIMap b = Some abis"
    and "\<forall>c \<in> set cs. DeployedContracts b c \<noteq> None"
  shows "(\<forall>c \<in> set cs. abis c \<noteq> None) \<and> (\<exists>d l. b' = b\<lparr>DeployedContracts := d, ContractsList := l\<rparr>)"
  using assms
proof (induction cs arbitrary: b)
  case Nil
  then show ?case by (intro conjI exI [of _ "DeployedContracts b'"] exI [of _ "ContractsList b'"]) simp_all
next
  case (Cons c cs)
  obtain u where u: "listContract env metadata c b = Inr u" "foldR (listContract env metadata) cs u = Inr b'"
    using Cons.prems(1) by (auto elim: bindR_InrE)
  have abi: "abis c \<noteq> None"
    using u(1) abimap.hit [OF Cons.prems(2), of env metadata] by (auto simp: listContract_def GetContractABI_def elim!: bindR_InrE split: option.splits)
  obtain k where k: "DeployedContracts b c = Some k" using Cons.prems(3) by auto
  have u': "u = b\<lparr>DeployedContracts := (DeployedContracts b)(c \<mapsto> k\<lparr>Methods := Methods k @ methodNames env abis c\<rparr>),
      ContractsList := ContractsList b @ (if isListed abis c then [c] else [])\<rparr>"
    using listContract_eq [OF Cons.prems(2) abi k, of env metadata] u(1) by simp
  have "ABIMap u = Some abis" "\<forall>c \<in> set cs. DeployedContracts u c \<noteq> None" using Cons.prems(2,3) by (simp_all add: u')
  from Cons.IH [OF u(2) this] obtain d l where "\<forall>c \<in> set cs. abis c \<noteq> None" "b' = u\<lparr>DeployedContracts := d, ContractsList := l\<rparr>" by blast
  then show ?case using abi by (auto simp: u')
qed

lemma listContracts_ready:
  fixes b :: "('h, 's, 'z) fuzzst_scheme"
  assumes "range_ok env" and "pools_ok env b" and "known_abis b" and "some_accounts env b" and "new_contracts b"
    and "listContracts env metadata b = Inr b'"
  shows "ready_inv env b'"
proof -
  let ?cs = "rangeOrder env (dom (DeployedContracts b))"
  have cs: "distinct ?cs" "set ?cs = dom (DeployedContracts b)"
    using range_okD [OF assms(1)] assms(5) by (simp_all add: new_contracts_def)
  obtain abis where abis: "ABIMap b = Some abis" "\<forall>c e. abis c = Some e \<longrightarrow> c \<noteq> [] \<and> usable e"
    using assms(3) by (auto simp: known_abis_def)
  have dep: "\<forall>c \<in> set ?cs. DeployedContracts b c \<noteq> None" using cs(2) by auto
  from listContracts_frame [OF assms(6) [unfolded listContracts_def] abis(1) dep] obtain d l where
    f: "\<forall>c \<in> set ?cs. abis c \<noteq> None" "b' = b\<lparr>DeployedContracts := d, ContractsList := l\<rparr>" by blast
  have "\<forall>c \<in> set ?cs. abis c \<noteq> None \<and> DeployedContracts b c \<noteq> None" using f(1) dep by blast
  from listContracts_fold [OF abis(1) cs(1) this, of env metadata] assms(6) have
    res: "ContractsList b' = ContractsList b @ filter (isListed abis) ?cs"
    "\<And>c. DeployedContracts b' c = (if c \<in> set ?cs
       then map_option (\<lambda>k. k\<lparr>Methods := Methods k @ methodNames env abis c\<rparr>) (DeployedContracts b c) else DeployedContracts b c)"
    by (auto simp: listContracts_def)
  have new: "\<forall>k \<in> ran (DeployedContracts b). Addresses k \<noteq> [] \<and> Methods k = []" "ContractsList b = []" "finite (dom (DeployedContracts b))"
    "backStats b = stats_zero" using assms(5) by (simp_all add: new_contracts_def)
  have dom: "dom (DeployedContracts b') = dom (DeployedContracts b)" using res(2) cs(2) by (auto split: if_splits)
  have "Addresses k \<noteq> [] \<and> (\<exists>e. abi_at b' c = Some e \<and> set (Methods k) \<subseteq> dom (ABIMethods e))"
    if k: "DeployedContracts b' c = Some k" for c k
  proof -
    have "c \<in> set ?cs" using k dom cs(2) by blast
    then obtain k0 e where k0: "DeployedContracts b c = Some k0" "k = k0\<lparr>Methods := Methods k0 @ methodNames env abis c\<rparr>"
      "abis c = Some e"
    proof -
      obtain k0 where "DeployedContracts b c = Some k0" "k = k0\<lparr>Methods := Methods k0 @ methodNames env abis c\<rparr>"
        using res(2) [of c] k \<open>c \<in> set ?cs\<close> by (cases "DeployedContracts b c") simp_all
      moreover obtain e where "abis c = Some e" using f(1) \<open>c \<in> set ?cs\<close> by blast
      ultimately show ?thesis using that by blast
    qed
    have "usable e" using abis(2) k0(3) by blast
    then have "set (methodNames env abis c) = dom (ABIMethods e)"
      using range_okD [OF assms(1)] k0(3) by (simp add: methodNames_def usable_def)
    then show ?thesis using new(1) k0 abis(1) by (auto simp: ran_def abi_at_def f(2))
  qed
  moreover have "distinct (ContractsList b')" using res(1) new(2) cs(1) by simp
  moreover have "set (ContractsList b') \<subseteq> dom (DeployedContracts b') - {''Migrations''}"
    unfolding dom res(1) new(2) using cs(2) by (auto simp: isListed_def)
  moreover have "backStats b' = stats_zero" using new(4) by (simp add: f(2))
  ultimately have "listed_contracts b'" using new(3) dom unfolding listed_contracts_def by simp
  moreover have "pools_ok env b'" "known_abis b'" "some_accounts env b'" using assms(2-4) unfolding f(2) by simp_all
  ultimately show ?thesis by (simp add: ready_inv_def)
qed

text \<open>The configuration ignores contracts and methods, and adds timestamps.\<close>

lemma delete_set:
  "set (deleteFromSlice v a) \<subseteq> set a" "distinct a \<Longrightarrow> distinct (deleteFromSlice v a) \<and> set (deleteFromSlice v a) = set a - {v}"
proof -
  have m: "mset (deleteFromSlice v a) = mset (remove1 v a)" by (simp add: deleteFromSlice_mset)
  show "set (deleteFromSlice v a) \<subseteq> set a" using mset_eq_setD [OF m] set_remove1_subset by fastforce
  show "distinct (deleteFromSlice v a) \<and> set (deleteFromSlice v a) = set a - {v}" if "distinct a"
    using mset_eq_setD [OF m] mset_eq_imp_distinct_iff [OF m] that by simp
qed

lemma ready_contracts:
  fixes b :: "('h, 's, 'z) fuzzst_scheme"
  assumes "ready_inv env b" and "listed_contracts (b\<lparr>DeployedContracts := d, ContractsList := l\<rparr>)"
  shows "ready_inv env (b\<lparr>DeployedContracts := d, ContractsList := l\<rparr>)"
  using assms by (simp add: ready_inv_def)

lemma IgnoreContract_ready:
  fixes b :: "('h, 's, 'z) fuzzst_scheme"
  assumes "ready_inv env b"
  shows "ready_inv env (IgnoreContract c b)"
proof (cases "DeployedContracts b c")
  case (Some k)
  let ?b = "b\<lparr>DeployedContracts := (DeployedContracts b)(c := None), ContractsList := deleteFromSlice c (ContractsList b)\<rparr>"
  have "listed_contracts b" using assms by (simp add: ready_inv_def)
  then have "listed_contracts ?b" using delete_set(2) [of "ContractsList b" c]
    by (auto simp: listed_contracts_def abi_at_def split: if_splits)
  then show ?thesis using ready_contracts [OF assms] Some by (simp add: IgnoreContract_def)
qed (use assms in \<open>simp add: IgnoreContract_def\<close>)

lemma IgnoreContractMethod_ready:
  fixes b :: "('h, 's, 'z) fuzzst_scheme"
  assumes "ready_inv env b"
  shows "ready_inv env (IgnoreContractMethod c m b)"
proof (cases "DeployedContracts b c")
  case (Some k)
  let ?d = "(DeployedContracts b)(c \<mapsto> k\<lparr>Methods := deleteFromSlice m (Methods k)\<rparr>)"
  let ?b = "b\<lparr>DeployedContracts := ?d, ContractsList := ContractsList b\<rparr>"
  have "listed_contracts b" using assms by (simp add: ready_inv_def)
  then have "listed_contracts ?b" using delete_set(1) [of m "Methods k"] Some
    by (auto simp: listed_contracts_def abi_at_def split: if_splits) blast
  then have "ready_inv env ?b" by (rule ready_contracts [OF assms])
  then show ?thesis using Some by (simp add: IgnoreContractMethod_def)
qed (use assms in \<open>simp add: IgnoreContractMethod_def\<close>)

lemma AddTimestamp_ready:
  fixes b :: "('h, 's, 'z) fuzzst_scheme"
  assumes "ready_inv env b"
  shows "ready_inv env (ArgPool_AddTimestamp t b)"
proof -
  obtain p where p: "ArgPool_AddTimestamp t b = b\<lparr>TimestampPool := p\<rparr>"
    by (rule that [of "TimestampPool (ArgPool_AddTimestamp t b)"]) (simp add: ArgPool_AddTimestamp_def Let_def)
  have "pool_sound (fmtAddress env) (ArgPool_AddTimestamp t b)"
    using assms by (intro sound_adds(6)) (simp add: ready_inv_def pools_ok_sound)
  then have "pools_ok env (ArgPool_AddTimestamp t b)"
    using assms unfolding pools_ok_sound ready_inv_def p by (simp add: addresses_def bigptrs_def)
  then show ?thesis using assms unfolding p by (simp add: ready_inv_def)
qed

lemma ProcessConfig_ready:
  fixes b :: "('h, 's, 'z) fuzzst_scheme"
  assumes "ready_inv env b" and "ProcessConfig env metadata b = Inr b'"
  shows "ready_inv env b'"
proof -
  obtain conf u where u: "GetConfig env metadata b = Inr (conf, u)"
    "b' = fold (configStep conf) (rangeOrder env (dom conf)) u" using assms(2) by (auto simp: ProcessConfig_def elim!: bindR_InrE)
  have "\<exists>f g. u = b\<lparr>metadataJSONMap := f, fuzzingConfig := g\<rparr>"
  proof (rule exI [of _ "metadataJSONMap u"], rule exI [of _ "fuzzingConfig u"])
    show "u = b\<lparr>metadataJSONMap := metadataJSONMap u, fuzzingConfig := fuzzingConfig u\<rparr>"
      using u(1) by (auto simp: GetConfig_def elim!: bindR_InrE split: option.splits dest!: getMeta_frame)
  qed
  then have "ready_inv env u" using assms(1) by auto
  moreover have "ready_inv env (applyConfig c config v)" if "ready_inv env v" for c config and v :: "('h, 's, 'z) fuzzst_scheme"
  proof -
    let ?v = "fold ArgPool_AddTimestamp (ConfigTimestamps config) v"
    have v: "ready_inv env ?v" by (rule fold_invariant [where P = "ready_inv env"]) (simp_all add: that AddTimestamp_ready)
    have "ready_inv env (fold (IgnoreContractMethod c) (IgnoredFunctions config) ?v)"
      by (rule fold_invariant [where P = "ready_inv env"]) (simp_all add: v IgnoreContractMethod_ready)
    then show ?thesis using IgnoreContract_ready [OF v] by (simp add: applyConfig_def Let_def)
  qed
  ultimately show ?thesis unfolding u(2)
    by (intro fold_invariant [where P = "ready_inv env"]) (auto split: option.split)
qed

section \<open>The whole start-up\<close>

lemma freshBackend_boot:
  fixes b :: "('h, 's, 'z) fuzzst_scheme"
  assumes "new_pool env b" and "known_abis b" and "paid_accounts env b"
  shows "boot_inv env (setBalances env as (freshBackend w metadata b))"
proof -
  have "new_pool env (freshBackend w metadata b) = new_pool env b"
    by (rule new_pool_cong [of _ "bigs b"]) (simp add: freshBackend_def argst.truncate_def)
  moreover have "known_abis (freshBackend w metadata b) = known_abis b" by (simp add: freshBackend_def known_abis_def)
  moreover have "paid_accounts env (freshBackend w metadata b) = paid_accounts env b"
    by (simp add: freshBackend_def paid_accounts_def acc_inv_def account_list_def)
  moreover have "new_contracts (freshBackend w metadata b)" by (simp add: freshBackend_def new_contracts_def)
  ultimately have "boot_inv env (freshBackend w metadata b)" using assms by (simp add: boot_inv_def)
  then show ?thesis unfolding setBalances_def by (intro fold_invariant [where P = "boot_inv env"]) simp_all
qed

text \<open>The stages of a start-up that returned, in their order.\<close>

lemma NewBackend_stages:
  assumes "NewBackend env metadata b0 = Inr out"
  obtains m b1 w as b2 f b3 txs b4 b5 as' b6 b7 b8 where "GetABIMap env metadata b0 = Inr (m, b1)"
    and "ReadAccounts env metadata b1 = Inr (as, b2)"
    and "getTxJSONFile env metadata (setBalances env as (freshBackend w metadata b2)) = Inr (f, b3)"
    and "ReadTransactions env f b3 = Inr (txs, b4)" and "deployAll env txs b4 = Inr b5"
    and "ReadAccounts env metadata b5 = Inr (as', b6)"
    and "InitArgPool (fmtAddress env) (map (\<lambda>a. (Address a, Amount a)) as') b6 = Inr b7"
    and "listContracts env metadata (RemoveLibraries env b7) = Inr b8"
    and "\<exists>b. ProcessConfig env metadata b8 = Inr b \<and> out = (if ContractsList b = [] then Exit 0 else Returned b)"
  using assms by (auto simp: NewBackend_def elim!: bindR_InrE split: option.splits)

lemma NewBackend_ready:
  fixes b0 b :: "('h, 's, 'z) fuzzst_scheme"
  assumes "range_ok env" and "project_ok env" and "fresh_start env b0" and "NewBackend env metadata b0 = Inr (Returned b)"
  shows "ready_inv env b \<and> ContractsList b \<noteq> []"
proof -
  from NewBackend_stages [OF assms(4)] obtain m b1 w as b2 f b3 txs b4 b5 as' b6 b7 b8 where
    r: "GetABIMap env metadata b0 = Inr (m, b1)" "ReadAccounts env metadata b1 = Inr (as, b2)"
    "getTxJSONFile env metadata (setBalances env as (freshBackend w metadata b2)) = Inr (f, b3)"
    "ReadTransactions env f b3 = Inr (txs, b4)" "deployAll env txs b4 = Inr b5" "ReadAccounts env metadata b5 = Inr (as', b6)"
    "InitArgPool (fmtAddress env) (map (\<lambda>a. (Address a, Amount a)) as') b6 = Inr b7"
    "listContracts env metadata (RemoveLibraries env b7) = Inr b8"
    "\<exists>u. ProcessConfig env metadata b8 = Inr u \<and> Returned b = (if ContractsList u = [] then Exit 0 else Returned u)" .
  have new: "new_pool env b0" "ABIMap b0 = None" "accounts b0 = None" using assms(3) by (simp_all add: fresh_start_def)
  obtain fm x y z where b1: "b1 = b0\<lparr>metadataJSONMap := fm, ABIMap := x, Payable := y, Libraries := z\<rparr>"
    using GetABIMap_frame [OF r(1) new(2)] by blast
  have known: "known_abis b1" by (rule GetABIMap_known [OF assms(2) new(2) r(1)])
  have "new_pool env b1 = new_pool env b0" by (rule new_pool_cong [of _ "bigs b0"]) (simp add: b1 argst.truncate_def)
  then have pool: "new_pool env b1" and none: "accounts b1 = None" using new by (simp_all add: b1)
  from ReadAccounts_boot [OF assms(2) pool none r(2)] have
    accs: "new_pool env b2" "paid_accounts env b2" "known_abis b2" using known by (simp_all add: known_abis_def)
  obtain meta where "getMeta env metadata (setBalances env as (freshBackend w metadata b2)) = Inr (meta, b3)"
    using r(3) by (auto simp: getTxJSONFile_def elim!: bindR_InrE)
  from getMeta_frame [OF this] obtain g where "b3 = (setBalances env as (freshBackend w metadata b2))\<lparr>metadataJSONMap := g\<rparr>" by blast
  then have "boot_inv env b3" using freshBackend_boot [OF accs(1,3,2), of as w metadata] by simp
  then have b5: "boot_inv env b5" using r(4,5) ReadTransactions_boot deployAll_boot by blast
  then obtain as5 where as5: "accounts b5 = Some as5" by (auto simp: boot_inv_def paid_accounts_def)
  have same: "as' = as5" "b6 = b5" using r(6) acc.hit [OF as5, of env metadata] by simp_all
  from InitArgPool_boot [OF b5 as5 r(7) [unfolded same]] have
    filled: "pools_ok env b7" "known_abis b7" "some_accounts env b7" "new_contracts b7" by simp_all
  obtain d where d: "RemoveLibraries env b7 = b7\<lparr>DeployedContracts := d\<rparr>" "d \<subseteq>\<^sub>m DeployedContracts b7"
    using RemoveLibraries_frame [of env b7] by blast
  have tables: "pools_ok env (b7\<lparr>DeployedContracts := d\<rparr>)" "known_abis (b7\<lparr>DeployedContracts := d\<rparr>)"
    "some_accounts env (b7\<lparr>DeployedContracts := d\<rparr>)"
    using filled(1-3) by simp_all
  have "DeployedContracts b7 c = Some k" if "d c = Some k" for c k using d(2) that by (metis domI map_le_def)
  then have "ran d \<subseteq> ran (DeployedContracts b7)" unfolding ran_def by blast
  moreover have "finite (dom d)" using filled(4) map_le_implies_dom_le [OF d(2)] finite_subset by (auto simp: new_contracts_def)
  ultimately have "new_contracts (b7\<lparr>DeployedContracts := d\<rparr>)" using filled(4) by (auto simp: new_contracts_def)
  from listContracts_ready [OF assms(1) tables this r(8) [unfolded d(1)]] have "ready_inv env b8" .
  with r(9) show ?thesis using ProcessConfig_ready by (auto split: if_splits)
qed

lemma ready_chain:
  fixes b :: "('h, 's, 'z) fuzzst_scheme"
  assumes "ready_inv env b" and "ContractsList b \<noteq> []"
    and "\<forall>c k. DeployedContracts b c = Some k \<longrightarrow> c \<noteq> ''Migrations'' \<longrightarrow> Methods k \<noteq> []"
  shows "chain_ok env b \<and> (\<forall>c \<in> dom (DeployedContracts b). c \<noteq> ''Migrations'' \<longrightarrow> c \<noteq> [] \<and> contract_ready b c \<and> callable b c [])"
proof -
  obtain abis where abis: "ABIMap b = Some abis" "\<forall>c e. abis c = Some e \<longrightarrow> c \<noteq> [] \<and> usable e"
    using assms(1) by (auto simp: ready_inv_def known_abis_def)
  have ready: "c \<noteq> [] \<and> contract_ready b c \<and> callable b c []" if c: "DeployedContracts b c = Some k" "c \<noteq> ''Migrations''" for c k
  proof -
    obtain e where e: "abis c = Some e" "set (Methods k) \<subseteq> dom (ABIMethods e)" "Addresses k \<noteq> []"
      using assms(1) c(1) abis(1) by (fastforce simp: ready_inv_def listed_contracts_def abi_at_def)
    have u: "usable e" "c \<noteq> []" using abis(2) e(1) by simp_all
    have "m \<noteq> [] \<and> callable b c m" if m: "m \<in> set (Methods k)" for m
    proof -
      obtain mt where mt: "ABIMethods e m = Some mt" using m e(2) by blast
      then have "list_all fillable (Inputs mt)" "m \<noteq> []" using u(1) by (auto simp: usable_def ran_def)
      then show ?thesis using c(1) e mt abis(1) by (simp add: callable_def abi_at_def method_of_def)
    qed
    moreover have "callable b c []" using c(1) e u(1) abis(1) by (simp add: callable_def abi_at_def method_of_def usable_def)
    moreover have "Methods k \<noteq> []" using assms(3) c by blast
    ultimately show ?thesis using c(1) u(2) by (auto simp: contract_ready_def)
  qed
  have "set (ContractsList b) \<subseteq> dom (DeployedContracts b) - {''Migrations''}"
    using assms(1) by (simp add: ready_inv_def listed_contracts_def)
  then have "\<forall>c \<in> set (ContractsList b). c \<noteq> [] \<and> contract_ready b c" using ready by blast
  then have "chain_ok env b" using assms(1,2) by (simp add: chain_ok_split ready_inv_def some_accounts_def)
  then show ?thesis using ready by blast
qed

end
