(* ===== verification/StartupResults.thy ===== *)
theory StartupResults
  imports StartupStages HeuristicsResults
begin

text \<open>
  The property of \<^verbatim>\<open>NewBackend\<close>, and the start-up of the example project: a chain on which the recorded
  transaction deploys the contract \<open>Token\<close>.
\<close>

section \<open>Property\<close>

text \<open>
  C4: A backend that \<^verbatim>\<open>NewBackend\<close> returns is ready for fuzzing, whatever the recorded deployments do and in
  whatever order maps are visited: if the artifacts have usable ABIs and the accounts amounts, and the configuration leaves every contract
  but \<open>Migrations\<close> a method, then the pools hold what the generator draws from, the accounts have keys, the list for random choices
  is not empty, and every deployed contract but \<open>Migrations\<close> has an address, methods of its ABI, and arguments that can be made.
\<close>

theorem startup_ready:
  fixes b0 b :: "('h, 's, 'z) fuzzst_scheme"
  assumes "range_ok env" and "project_ok env" and "fresh_start env b0" and "NewBackend env metadata b0 = Inr (Returned b)"
    and "\<forall>c k. DeployedContracts b c = Some k \<longrightarrow> c \<noteq> ''Migrations'' \<longrightarrow> Methods k \<noteq> []"
  shows "chain_ok env b \<and> backStats b = stats_zero \<and> finite (dom (DeployedContracts b)) \<and>
    (\<forall>c \<in> dom (DeployedContracts b). c \<noteq> ''Migrations'' \<longrightarrow> c \<noteq> [] \<and> contract_ready b c \<and> callable b c [])"
proof -
  have ready: "ready_inv env b" "ContractsList b \<noteq> []" using NewBackend_ready [OF assms(1-4)] by simp_all
  from ready_chain [OF this assms(5)] ready(1) show ?thesis by (simp add: ready_inv_def listed_contracts_def)
qed

section \<open>The example project\<close>

text \<open>The memory that a deployment returns: the code of \<open>Token\<close>.\<close>

definition token_memory :: bytes where
  "token_memory = [0x60, 0x01, 0x00] @ ([0xa1, 0x65] @ map of_char ''bzzr0'') @ replicate 32 0x11"

lemma token_memory_code: "hex_encode token_memory = token_code"
proof -
  have digit: "hex_digit 0 = CHR ''0''" "hex_digit 1 = CHR ''1''" "hex_digit 6 = CHR ''6''" by code_simp+
  have "hex_encode (replicate n 0x11) = replicate (2 * n) CHR ''1''" for n
    by (induction n) (simp_all add: hex_encode_Cons digit(2) [simplified])
  moreover have "hex_encode [0x60, 0x01, 0x00] = ''600100''" by (simp add: hex_encode_Cons digit [simplified])
  ultimately show ?thesis by (simp only: token_memory_def token_code_def bzzr0_def hex_encode_simps) simp
qed

definition deploy_log :: structLog where
  "deploy_log = \<lparr>Pc = 0, Op = op_RETURN, Depth = 1, Stack = [0, 0], Memory = token_memory\<rparr>"

definition deploy_env :: "(nat \<Rightarrow> nat, nat) chainenv" where
  "deploy_env = example_chainenv\<lparr>readTxLines := \<lambda>_. Some ([Some example_tx], False),
     ApplyTransaction := \<lambda>w hdr gp tx.
       if txTo tx = None then (Inr [], \<lparr>slOutput = token_memory, slLogs = [deploy_log]\<rparr>, 21000, w)
       else ApplyTransaction example_chainenv w hdr gp tx\<rparr>"

lemma example_chainenv_env:
  "readMeta example_chainenv = readMeta example_env" "readConfig example_chainenv = readConfig example_env"
  "readBuildDir example_chainenv = readBuildDir example_env" "readArtifact example_chainenv = readArtifact example_env"
  "readAccounts example_chainenv = readAccounts example_env" "HexToECDSA example_chainenv = HexToECDSA example_env"
  "rangeOrder example_chainenv = rangeOrder example_env"
  "HexToAddress example_chainenv s = word_of_nat (undec s)" "CreateAddress example_chainenv a n = a + ucast n"
  "newCanonical example_chainenv = Some (\<lambda>_. 0, 0)" "SetBalance example_chainenv w a p hp = w"
  by (simp_all add: example_chainenv_def example_procenv_def example_txenv_def env.defs txenv.defs procenv.defs genenv.defs
      chainenv.defs example_env_def)

lemma deploy_env_simps [simp]:
  "readMeta deploy_env = readMeta example_env" "readConfig deploy_env = readConfig example_env"
  "readBuildDir deploy_env = readBuildDir example_env" "readArtifact deploy_env = readArtifact example_env"
  "readAccounts deploy_env = readAccounts example_env" "HexToECDSA deploy_env = HexToECDSA example_env"
  "PubkeyToAddress deploy_env k = word_of_int (k + 4096)" "fmtAddress deploy_env = fmtAddress example_env"
  "rangeOrder deploy_env = rangeOrder example_env" "HexToAddress deploy_env s = word_of_nat (undec s)"
  "CreateAddress deploy_env a n = a + ucast n" "newCanonical deploy_env = Some (\<lambda>_. 0, 0)" "SetBalance deploy_env w a p hp = w"
  "readTxLines deploy_env f = Some ([Some example_tx], False)" "SignTx deploy_env tx k = Some (tx\<lparr>txSig := Some k\<rparr>)"
  "Sender deploy_env tx = map_option (\<lambda>k. word_of_int (k + 4096)) (txSig tx)" "UnpackValues deploy_env Ts out bs = (([], None), bs)"
  "Pack deploy_env e m vs bs = Some [1]" "GetBalance deploy_env (h, j) a = int (h j)" "GetNonce deploy_env w a = 3"
  "Snapshot deploy_env (h, j) = (h j, (h, j))"
  "ApplyTransaction deploy_env w hdr gp tx = (if txTo tx = None then (Inr [], \<lparr>slOutput = token_memory, slLogs = [deploy_log]\<rparr>, 21000, w)
     else ApplyTransaction example_chainenv w hdr gp tx)"
  by (simp_all add: deploy_env_def example_chainenv_env)

lemma deploy_env_ok: "range_ok deploy_env" "eth_ok deploy_env" "project_ok deploy_env" "\<not> underflows deploy_env"
proof -
  show "range_ok deploy_env" using range_ok_example by (simp add: range_ok_def)
  have "sign_ok deploy_env" unfolding sign_ok_def by (intro allI exI [of _ "Some k" for k]) simp
  moreover have "traces_ok deploy_env"
    using example_chainenv_ok(5)
    by (auto simp: traces_ok_def evm_calls_def deploy_log_def split: if_splits)
  ultimately show "eth_ok deploy_env"
    by (auto simp: eth_ok_def pack_ok_def balances_ok_def unpack_ok_def)
  show "\<not> underflows deploy_env"
    using example_chainenv_ok(7)
    by (auto simp: underflows_def scan_panics_def operands_missing_def deploy_log_def operators_def op_defs split: if_splits)
  show "project_ok deploy_env"
    by (auto simp: project_ok_def getFilename_examples usable_def token_abi_def token_artifact_def safemath_artifact_def example_env_def
        split: if_splits)
qed

section \<open>The start-up of the example project\<close>

text \<open>The state of a new process.\<close>

definition example_start :: "(nat \<Rightarrow> nat, nat) fuzzst" where
  "example_start = backst.extend (new_backend (\<lambda>_. 0, 0) [] st0) (fuzzst.fields None None (\<lambda>_. 1500000000) Map.empty Map.empty)"

lemma example_start_simps [simp]:
  "ABIMap example_start = None" "accounts example_start = None" "metadataJSONMap example_start = Map.empty"
  "ContractHashes example_start = None" "DeployedBytecodes example_start = None" "fuzzingConfig example_start = None"
  "keys example_start = []" "bigs example_start = []" "defaultHeader example_start = None"
  "clock example_start = (\<lambda>_. 1500000000)"
  by (simp_all add: example_start_def backst.defs fuzzst.defs new_backend_def utils_init_def utilst.defs genst.defs start_with_eq)

lemma example_start_fresh: "fresh_start deploy_env example_start"
proof -
  have "argst.truncate example_start = argst.truncate (start_with (\<lambda>n. n))"
    by (simp add: example_start_def backst.defs fuzzst.defs new_backend_def utils_init_def utilst.defs genst.defs argst.truncate_def start_with_eq)
  then have "new_pool deploy_env example_start = new_pool deploy_env (start_with (\<lambda>n. n))"
    by (intro new_pool_cong [of _ "bigs (start_with (\<lambda>n. n))"]) simp
  moreover have "new_pool deploy_env (start_with (\<lambda>n. n))"
    using arg_inv_start_with by (simp add: new_pool_def b32_ok_def start_with_eq ring_new_def)
  ultimately show ?thesis by (simp add: fresh_start_def)
qed

definition example_meta :: MetadataJSON where
  "example_meta = \<lparr>TruffleDir = ''t'', Transactions = ''x'', AccountsFile = ''a'', ConfigFile = ''c''\<rparr>"

lemma example_abis:
  assumes "ABIMap b = None" and "metadataJSONMap b = Map.empty"
  shows "GetABIMap deploy_env ''m'' b = Inr ([''Token'' \<mapsto> token_abi], b\<lparr>metadataJSONMap := [''m'' \<mapsto> example_meta],
    ABIMap := Some [''Token'' \<mapsto> token_abi], Payable := Some [''Token'' \<mapsto> [''mint'' \<mapsto> True]], Libraries := Some [''SafeMath'' \<mapsto> True]\<rparr>)"
  using assms
  by (simp add: GetABIMap_def getTruffleDir_def getMeta_def buildFiles_def contractFile_def addABI_def example_meta_def
      token_artifact_def safemath_artifact_def getFilename_examples noteLibraries_def payableFlags_def Let_def del: not_None_eq)

definition example_accounts :: "bool \<Rightarrow> Account list" where
  "example_accounts used = [\<lparr>Key = 0, Address = 4097, Amount = 1, Used = used\<rparr>, \<lparr>Key = 1, Address = 4098, Amount = 2, Used = False\<rparr>]"

lemma example_ReadAccounts:
  assumes "accounts b = None" and "metadataJSONMap b = [''m'' \<mapsto> example_meta]" and "keys b = []" and "bigs b = []"
  shows "ReadAccounts deploy_env ''m'' b = Inr (example_accounts False, b\<lparr>bigs := [100, 7], accounts := Some (example_accounts False),
    keyToAddress := [0 \<mapsto> 4097, 1 \<mapsto> 4098], addressToKey := [4097 \<mapsto> 0, 4098 \<mapsto> 1], keys := [1, 2]\<rparr>)"
  using assms
  by (simp add: ReadAccounts_def getAccountsJSONFile_def getMeta_def addAccount_def Let_def account_list_def
        undec_def big_new_def example_accounts_def)

lemma example_ReadTransactions:
  fixes b :: "(nat \<Rightarrow> nat, nat) fuzzst"
  assumes "accounts b = Some (example_accounts False)" and "addressToKey b = [4097 \<mapsto> 0, 4098 \<mapsto> 1]" and "keys b = [1, 2]"
  shows "\<exists>tx. ReadTransactions deploy_env f b = Inr ([tx], b\<lparr>accounts := Some (example_accounts True)\<rparr>) \<and> txTo tx = None \<and>
    txNonce tx = 3 \<and> txSig tx = Some 1"
proof -
  have mark: "markUsed 4097 b = Inr (b\<lparr>accounts := Some (example_accounts True)\<rparr>)"
    using assms(1) by (simp add: markUsed_def GetAccountFromAddress_def account_list_def example_accounts_def)
  let ?tx = "(unsigned_tx deploy_env example_tx [0x60, 1])\<lparr>txSig := Some 1\<rparr>"
  have "HexToAddress deploy_env (From example_tx) = 4097" by (simp add: example_tx_def undec_4097)
  then have "convertAndSign deploy_env example_tx b = Inr (?tx, b\<lparr>accounts := Some (example_accounts True)\<rparr>)"
    using mark assms(2,3) by (simp add: convertAndSign_unsigned example_payload GetKeyFromAddress_def)
  moreover have "txTo ?tx = None" "txNonce ?tx = 3" by (simp_all add: unsigned_tx_def isContractCreation_def example_tx_def)
  ultimately show ?thesis by (intro exI [of _ ?tx]) (simp add: ReadTransactions_def)
qed

lemma example_name:
  fixes b :: "(nat \<Rightarrow> nat, nat) fuzzst"
  assumes "metadataJSONMap b = [''m'' \<mapsto> example_meta]" and "ContractHashes b = None" and "DeployedBytecodes b = None"
  shows "\<exists>g. GetContractNameByHash deploy_env (replicate 64 CHR ''1'') ''m'' b = Inr (''Token'', b\<lparr>ContractHashes := g\<rparr>)"
proof -
  let ?codes = "[''Token'' \<mapsto> token_code, ''SafeMath'' \<mapsto> ''6002'']"
  have codes: "ReadDeployedBytecodes deploy_env ''m'' b = Inr (?codes, b)" using assms
    by (simp add: ReadDeployedBytecodes_def getTruffleDir_def getMeta_def buildFiles_def contractFile_def example_meta_def
        token_artifact_def safemath_artifact_def slice_def getFilename_examples)
  have has: "has_hash ?codes n h \<longleftrightarrow> n = ''Token'' \<and> h = replicate 64 CHR ''1''" for n h
    using token_hash library_hash by (auto simp: has_hash_def)
  have all: "\<forall>n code. ?codes n = Some code \<longrightarrow> (\<exists>r. GetSwarmHash code = Inr r)"
    using token_hash library_hash by (auto split: if_splits)
  note fresh = ReadContractsHashes_fresh [OF deploy_env_ok(1) assms(2,3) codes]
  obtain hs st' where r: "ReadContractsHashes deploy_env ''m'' b = Inr (hs, st')" using fresh(2) [OF all] by blast
  obtain n where n: "hs (replicate 64 CHR ''1'') = Some n" using fresh(1) [OF r] has by blast
  then have "n = ''Token''" using fresh(1) [OF r] has by blast
  then have "GetContractNameByHash deploy_env (replicate 64 CHR ''1'') ''m'' b = Inr (''Token'', st')"
    using r n by (simp add: GetContractNameByHash_def)
  moreover have "st' = b\<lparr>ContractHashes := ContractHashes st'\<rparr>"
    using r codes assms(2) by (auto simp: ReadContractsHashes_def Let_def elim!: bindR_InrE)
  ultimately show ?thesis by (intro exI [of _ "ContractHashes st'"]) simp
qed

lemma example_deployment:
  fixes b :: "(nat \<Rightarrow> nat, nat) fuzzst"
  assumes "metadataJSONMap b = [''m'' \<mapsto> example_meta]" and "ContractHashes b = None" and "DeployedBytecodes b = None"
    and "backMetadata b = ''m''" and "DeployedContracts b = Map.empty" and "txSig tx = Some 1"
  shows "\<exists>g a. recordDeployment deploy_env tx deploy_log b = Inr (b\<lparr>ContractHashes := g,
    DeployedContracts := [''Token'' \<mapsto> \<lparr>Addresses = [a], Methods = []\<rparr>]\<rparr>)"
proof -
  have "GetSwarmHash (hex_encode (Memory deploy_log)) = Inr (replicate 64 CHR ''1'', True)"
    unfolding deploy_log_def structLog.simps token_memory_code by (rule token_hash)
  moreover obtain g where "GetContractNameByHash deploy_env (replicate 64 CHR ''1'') ''m'' b = Inr (''Token'', b\<lparr>ContractHashes := g\<rparr>)"
    using example_name [OF assms(1-3)] by blast
  ultimately have "recordDeployment deploy_env tx deploy_log b = Inr (b\<lparr>ContractHashes := g,
      DeployedContracts := [''Token'' \<mapsto> \<lparr>Addresses = [4097 + ucast (txNonce tx)], Methods = []\<rparr>]\<rparr>)"
    using assms(4-6) by (simp add: recordDeployment_def getDeployedContractAddress_def)
  then show ?thesis by blast
qed

text \<open>The one step of the trace, from a state before the loop.\<close>

lemma example_step:
  fixes v :: "(nat \<Rightarrow> nat, nat) fuzzst"
  assumes "Overflow (LastTxRes v) = []" and "txTo tx = None"
  shows "foldR (processLog deploy_env tx (Some deploy_options) [deploy_log]) [0..<length [deploy_log]] ([None], v) =
    bindR (recordDeployment deploy_env tx deploy_log (extractTimestamps (Stack deploy_log) v)) (\<lambda>b. Inr ([None], b))"
proof -
  have ops: "operators op_RETURN = None" "op_RETURN \<noteq> assertOp" "op_RETURN \<noteq> op_REVERT" by (simp_all add: operators_def op_defs)
  let ?u = "extractTimestamps (Stack deploy_log) v"
  have "LastTxRes ?u = LastTxRes v" using extractTimestamps_rest by blast
  then have "Overflow (LastTxRes ?u) = []" using assms(1) by simp
  then have "checkOverflow deploy_env [deploy_log] 0 (LastTxRes ?u) = Inr (LastTxRes ?u)"
    by (simp add: checkOverflow_def deploy_log_def ops)
  then have "processLog deploy_env tx (Some deploy_options) [deploy_log] 0 ([None], v) =
      bindR (recordDeployment deploy_env tx deploy_log ?u) (\<lambda>b. Inr ([None], b))"
    using assms(2) by (simp add: processLog_def deploy_options_def checkAssertion_def checkRevert_def)
       (simp add: deploy_log_def ops)
  then show ?thesis by (cases "recordDeployment deploy_env tx deploy_log ?u") simp_all
qed

lemma example_processLogs:
  fixes u :: "(nat \<Rightarrow> nat, nat) fuzzst"
  assumes "metadataJSONMap u = [''m'' \<mapsto> example_meta]" and "ContractHashes u = None" and "DeployedBytecodes u = None"
    and "backMetadata u = ''m''" and "DeployedContracts u = Map.empty" and "txSig tx = Some 1" and "txTo tx = None"
    and "StructLogger (LastTxRes u) = Some \<lparr>slOutput = token_memory, slLogs = [deploy_log]\<rparr>"
  shows "\<exists>b' a. processLogs deploy_env [] tx (Some deploy_options) u = Inr b' \<and> DeployedContracts b' = [''Token'' \<mapsto> \<lparr>Addresses = [a], Methods = []\<rparr>] \<and>
    ABIMap b' = ABIMap u \<and> Libraries b' = Libraries u \<and> fuzzingConfig b' = fuzzingConfig u \<and> accounts b' = accounts u \<and>
    metadataJSONMap b' = metadataJSONMap u \<and> DeployedBytecodes b' = DeployedBytecodes u"
proof -
  define v where "v = u\<lparr>LastTxRes := (LastTxRes u)\<lparr>Output := token_memory, Receipt := Some [], AssertionAtDepth := -1, RevertAtDepth := -1, Overflow := []\<rparr>\<rparr>"
  obtain p where p: "extractTimestamps (Stack deploy_log) v = v\<lparr>TimestampPool := p\<rparr>"
    using extractTimestamps_frame [of "Stack deploy_log" v] by blast
  have "\<exists>g a. recordDeployment deploy_env tx deploy_log (v\<lparr>TimestampPool := p\<rparr>) = Inr (v\<lparr>TimestampPool := p,
      ContractHashes := g, DeployedContracts := [''Token'' \<mapsto> \<lparr>Addresses = [a], Methods = []\<rparr>]\<rparr>)"
    using example_deployment [of "v\<lparr>TimestampPool := p\<rparr>" tx] by (simp add: v_def assms)
  then obtain g a where r: "recordDeployment deploy_env tx deploy_log (v\<lparr>TimestampPool := p\<rparr>) = Inr (v\<lparr>TimestampPool := p,
      ContractHashes := g, DeployedContracts := [''Token'' \<mapsto> \<lparr>Addresses = [a], Methods = []\<rparr>]\<rparr>)" (is "_ = Inr ?w") by blast
  have "Overflow (LastTxRes v) = []" by (simp add: v_def)
  from example_step [OF this assms(7)] have
    loop: "foldR (processLog deploy_env tx (Some deploy_options) [deploy_log]) [0..<length [deploy_log]] ([None], v) = Inr ([None], ?w)"
    unfolding p r by simp
  have "\<not> UpdateArgPool deploy_options" by (simp add: deploy_options_def)
  then have "processLogs deploy_env [] tx (Some deploy_options) u = Inr ?w"
    using loop by (simp add: processLogs_def updateFromOutput_def callStack_Push_def assms(7,8) v_def)
  then show ?thesis by (intro exI [of _ ?w] exI [of _ a]) (simp add: v_def)
qed

lemma example_deployAll:
  fixes b :: "(nat \<Rightarrow> nat, nat) fuzzst"
  assumes "metadataJSONMap b = [''m'' \<mapsto> example_meta]" and "ContractHashes b = None" and "DeployedBytecodes b = None"
    and "backMetadata b = ''m''" and "DeployedContracts b = Map.empty" and "txSig tx = Some 1" and "txTo tx = None"
  shows "\<exists>b' a. deployAll deploy_env [tx] b = Inr b' \<and> DeployedContracts b' = [''Token'' \<mapsto> \<lparr>Addresses = [a], Methods = []\<rparr>] \<and>
    ABIMap b' = ABIMap b \<and> Libraries b' = Libraries b \<and> fuzzingConfig b' = fuzzingConfig b \<and> accounts b' = accounts b \<and>
    metadataJSONMap b' = metadataJSONMap b \<and> DeployedBytecodes b' = DeployedBytecodes b"
proof -
  obtain hdr u where u: "GetDefaultHeader b = (hdr, u)" by (cases "GetDefaultHeader b")
  obtain h c where hc: "u = b\<lparr>defaultHeader := h, clock := c\<rparr>" using GetDefaultHeader_frame [OF u] by blast
  obtain m j where w: "StateDB b = (m, j)" by (cases "StateDB b")
  let ?u = "u\<lparr>TxCount := TxCount b + 1, StateDB := (m, j), LastTxRes := (LastTxRes b)\<lparr>Receipt := None,
    StructLogger := Some \<lparr>slOutput = token_memory, slLogs = [deploy_log]\<rparr>\<rparr>\<rparr>"
  obtain b' a where b': "processLogs deploy_env [] tx (Some deploy_options) ?u = Inr b'"
    "DeployedContracts b' = [''Token'' \<mapsto> \<lparr>Addresses = [a], Methods = []\<rparr>]" "ABIMap b' = ABIMap b" "Libraries b' = Libraries b"
    "fuzzingConfig b' = fuzzingConfig b" "accounts b' = accounts b" "metadataJSONMap b' = metadataJSONMap b"
    "DeployedBytecodes b' = DeployedBytecodes b"
    using example_processLogs [of ?u tx] by (auto simp: hc assms)
  have "CommitTransaction deploy_env tx (Some deploy_options) hdr u = Inr ((None, Some []), hdr\<lparr>hdGasUsed := 21000\<rparr>, b')"
    using w b'(1) by (simp add: CommitTransaction_def commitTransaction_def hc assms(7))
  then have "deployAll deploy_env [tx] b = Inr (b'\<lparr>defaultHeader := Some (hdr\<lparr>hdGasUsed := 21000\<rparr>)\<rparr>)"
    by (simp add: deployAll_def u)
  then show ?thesis using b'(2-8) by (intro exI conjI) (assumption | simp)+
qed

text \<open>After the deployments: listing and configuration.\<close>

lemma example_listing:
  fixes b :: "(nat \<Rightarrow> nat, nat) fuzzst"
  assumes "DeployedContracts b = [''Token'' \<mapsto> \<lparr>Addresses = [a], Methods = []\<rparr>]" and "ABIMap b = Some [''Token'' \<mapsto> token_abi]"
    and "Libraries b = Some [''SafeMath'' \<mapsto> True]" and "fuzzingConfig b = None" and "ContractsList b = []"
    and "metadataJSONMap b = [''m'' \<mapsto> example_meta]"
  shows "\<exists>b8 b'. listContracts deploy_env ''m'' (RemoveLibraries deploy_env b) = Inr b8 \<and> ProcessConfig deploy_env ''m'' b8 = Inr b' \<and>
    ContractsList b' = [''Token''] \<and> DeployedContracts b' = [''Token'' \<mapsto> \<lparr>Addresses = [a], Methods = [''mint'']\<rparr>] \<and>
    metadataJSONMap b' = [''m'' \<mapsto> example_meta] \<and> DeployedBytecodes b' = DeployedBytecodes b"
proof -
  have lib: "RemoveLibraries deploy_env b = b" using assms(1,3) by (simp add: RemoveLibraries_def)
  have names: "methodNames deploy_env [''Token'' \<mapsto> token_abi] ''Token'' = [''mint'']" by (simp add: methodNames_def token_abi_def)
  have listed: "isListed [''Token'' \<mapsto> token_abi] ''Token''" by (simp add: isListed_def token_abi_def)
  let ?b = "b\<lparr>DeployedContracts := [''Token'' \<mapsto> \<lparr>Addresses = [a], Methods = [''mint'']\<rparr>], ContractsList := [''Token'']\<rparr>"
  have "listContract deploy_env ''m'' ''Token'' b = Inr ?b"
    using listContract_eq [OF assms(2), of "''Token''" "\<lparr>Addresses = [a], Methods = []\<rparr>" deploy_env "''m''"] assms(1,5) names listed by simp
  then have "listContracts deploy_env ''m'' b = Inr ?b" using assms(1) by (simp add: listContracts_def)
  moreover obtain u where u: "GetConfig deploy_env ''m'' ?b = Inr ([''Token'' \<mapsto> \<lparr>IgnoreAll = False, IgnoredFunctions = [], ConfigTimestamps = [1500000000]\<rparr>], u)"
    "metadataJSONMap u = [''m'' \<mapsto> example_meta]" "DeployedBytecodes u = DeployedBytecodes b"
    using assms(4,6) by (simp add: GetConfig_def getMeta_def example_meta_def)
  then have "ProcessConfig deploy_env ''m'' ?b = Inr (ArgPool_AddTimestamp 1500000000 u)"
    by (simp add: ProcessConfig_def applyConfig_def)
  moreover have "DeployedContracts (ArgPool_AddTimestamp 1500000000 u) = DeployedContracts ?b"
    "ContractsList (ArgPool_AddTimestamp 1500000000 u) = ContractsList ?b"
    using GetConfig_frame [OF u(1)] AddTimestamps_frame [of "[1500000000]" u] by simp_all
  moreover have "metadataJSONMap (ArgPool_AddTimestamp 1500000000 u) = metadataJSONMap u"
    "DeployedBytecodes (ArgPool_AddTimestamp 1500000000 u) = DeployedBytecodes u"
    by (simp_all add: ArgPool_AddTimestamp_def)
  ultimately show ?thesis using u(2,3) by (intro exI [of _ ?b] exI [of _ "ArgPool_AddTimestamp 1500000000 u"]) (simp add: lib)
qed

lemma example_startup:
  "\<exists>b a. NewBackend deploy_env ''m'' example_start = Inr (Returned b) \<and>
     DeployedContracts b = [''Token'' \<mapsto> \<lparr>Addresses = [a], Methods = [''mint'']\<rparr>] \<and>
     metadataJSONMap b = [''m'' \<mapsto> example_meta] \<and> DeployedBytecodes b = None"
proof -
  let ?b1 = "example_start\<lparr>metadataJSONMap := [''m'' \<mapsto> example_meta], ABIMap := Some [''Token'' \<mapsto> token_abi],
    Payable := Some [''Token'' \<mapsto> [''mint'' \<mapsto> True]], Libraries := Some [''SafeMath'' \<mapsto> True]\<rparr>"
  let ?b2 = "?b1\<lparr>bigs := [100, 7], accounts := Some (example_accounts False), keyToAddress := [0 \<mapsto> 4097, 1 \<mapsto> 4098],
    addressToKey := [4097 \<mapsto> 0, 4098 \<mapsto> 1], keys := [1, 2]\<rparr>"
  let ?b3 = "freshBackend (\<lambda>_. 0, 0) ''m'' ?b2"
  have b1: "GetABIMap deploy_env ''m'' example_start = Inr ([''Token'' \<mapsto> token_abi], ?b1)" by (rule example_abis) simp_all
  have b2: "ReadAccounts deploy_env ''m'' ?b1 = Inr (example_accounts False, ?b2)" by (rule example_ReadAccounts) simp_all
  have bal: "setBalances deploy_env (example_accounts False) ?b3 = ?b3" by (simp add: setBalances_def example_accounts_def)
  have b3: "getTxJSONFile deploy_env ''m'' (setBalances deploy_env (example_accounts False) ?b3) = Inr (''x'', ?b3)"
    unfolding bal by (simp add: getTxJSONFile_def getMeta_def freshBackend_def example_meta_def)
  let ?b4 = "?b3\<lparr>accounts := Some (example_accounts True)\<rparr>"
  obtain tx where b4: "ReadTransactions deploy_env ''x'' ?b3 = Inr ([tx], ?b4)" "txTo tx = None" "txSig tx = Some 1"
    using example_ReadTransactions [of ?b3 "''x''"] by (auto simp: freshBackend_def)
  obtain b5 a where b5: "deployAll deploy_env [tx] ?b4 = Inr b5" "DeployedContracts b5 = [''Token'' \<mapsto> \<lparr>Addresses = [a], Methods = []\<rparr>]"
    "ABIMap b5 = Some [''Token'' \<mapsto> token_abi]" "Libraries b5 = Some [''SafeMath'' \<mapsto> True]" "fuzzingConfig b5 = None"
    "accounts b5 = Some (example_accounts True)" "metadataJSONMap b5 = [''m'' \<mapsto> example_meta]" "DeployedBytecodes b5 = None"
    using example_deployAll [of ?b4 tx] b4(2,3) by (auto simp: freshBackend_def)
  have fresh: "new_pool deploy_env example_start" using example_start_fresh by (simp add: fresh_start_def)
  have "new_pool deploy_env ?b1 = new_pool deploy_env example_start"
    by (rule new_pool_cong [of _ "bigs example_start"]) (simp add: argst.truncate_def)
  then have "new_pool deploy_env ?b1" using fresh by simp
  from ReadAccounts_boot [OF deploy_env_ok(3) this _ b2] have acc: "new_pool deploy_env ?b2" "paid_accounts deploy_env ?b2" by simp_all
  have "known_abis ?b1" by (rule GetABIMap_known [OF deploy_env_ok(3) _ b1]) simp
  then have "known_abis ?b2" by (simp add: known_abis_def)
  from freshBackend_boot [OF acc(1) this acc(2), of "example_accounts False" "(\<lambda>_. 0, 0)" "''m''"]
  have "boot_inv deploy_env ?b3" unfolding bal .
  then have boot: "boot_inv deploy_env b5" using ReadTransactions_boot [OF _ b4(1)] deployAll_boot [OF _ b5(1)] by blast
  have pool: "arg_inv (fmtAddress deploy_env) b5" "pools b5 (BigIntPool b5) = Some ring_new" "ContractsList b5 = []"
    using boot by (simp_all add: boot_inv_def new_pool_def new_contracts_def)
  let ?accs = "map (\<lambda>a. (Address a, Amount a)) (example_accounts True)"
  obtain b7 where b7: "InitArgPool (fmtAddress deploy_env) ?accs b5 = Inr b7"
    using InitArgPool_result [OF pool(1,2), of ?accs] by blast
  have "genst.more b7 = genst.more b5"
  proof -
    have "\<forall>(a, p) \<in> set ?accs. \<exists>v. big_get (bigs b5) p = Inr v"
      using boot b5(6) by (auto simp: boot_inv_def paid_accounts_def)
    moreover have "pool_sound (fmtAddress deploy_env) b5" using boot new_pool_sound [of deploy_env b5] by (simp add: boot_inv_def)
    ultimately show ?thesis using InitArgPool_sound [OF _ b7] by blast
  qed
  then have same: "DeployedContracts b7 = DeployedContracts b5" "ABIMap b7 = ABIMap b5" "Libraries b7 = Libraries b5"
    "fuzzingConfig b7 = fuzzingConfig b5" "ContractsList b7 = ContractsList b5" "metadataJSONMap b7 = metadataJSONMap b5"
    "DeployedBytecodes b7 = DeployedBytecodes b5" by (cases b7; cases b5; simp)+
  obtain b8 b' where b8: "listContracts deploy_env ''m'' (RemoveLibraries deploy_env b7) = Inr b8" "ProcessConfig deploy_env ''m'' b8 = Inr b'"
    "ContractsList b' = [''Token'']" "DeployedContracts b' = [''Token'' \<mapsto> \<lparr>Addresses = [a], Methods = [''mint'']\<rparr>]"
    "metadataJSONMap b' = [''m'' \<mapsto> example_meta]" "DeployedBytecodes b' = None"
    using example_listing [of b7 a] same b5 pool(3) by auto
  have "NewBackend deploy_env ''m'' example_start = Inr (Returned b')"
    unfolding NewBackend_def b1 bindR_simps prod.case b2
    using b3 b4(1) b5(1) b7 b8(1-3) acc.hit [OF b5(6), of deploy_env "''m''"] by simp
  with b8(4-6) show ?thesis by blast
qed

theorem startup_ready_witness:
  "\<exists>b. NewBackend deploy_env ''m'' example_start = Inr (Returned b) \<and> chain_ok deploy_env b \<and> contract_ready b ''Token''"
proof -
  obtain b a where b: "NewBackend deploy_env ''m'' example_start = Inr (Returned b)"
    "DeployedContracts b = [''Token'' \<mapsto> \<lparr>Addresses = [a], Methods = [''mint'']\<rparr>]" using example_startup by blast
  have "\<forall>c k. DeployedContracts b c = Some k \<longrightarrow> c \<noteq> ''Migrations'' \<longrightarrow> Methods k \<noteq> []" by (simp add: b(2))
  from startup_ready [OF deploy_env_ok(1,3) example_start_fresh b(1) this] b show ?thesis by auto
qed

end
