(* ===== verification/FuzzerResults.thy ===== *)
theory FuzzerResults
  imports Fuzzer StartupResults
begin

text \<open>
  What \<^verbatim>\<open>fuzzer.go\<close> promises: what the flags are, that the fuzzer ends, how many transactions it commits, and
  which contracts the initial transactions do not survive.
\<close>

section \<open>Lemmas\<close>

lemma Rec_step:
  fixes b :: "('h, 's, 'z) fuzzst_scheme"
  assumes "fuzz_ok env b" and "hint_ok b h" and "eth_ok env" and "\<not> crashes (underflows env) (Rec env fuzz_options mode depth h b)"
  obtains r h' b' where "Rec env fuzz_options mode depth h b = Some (Inr ((r, h'), b'))" and "fuzz_ok env b'" and "same_targets b b'"
proof -
  have "\<not> CheckDeployedContract fuzz_options" by (simp add: fuzz_options_def)
  from Rec_ok [OF assms(1-3) this assms(4)] that show ?thesis by blast
qed

lemma same_targets_ready:
  assumes "same_targets b b'"
  shows "contract_ready b' = contract_ready b" "callable b' = callable b"
  using assms callable_cong [of b' b] contract_ready_cong [of b' b] by (simp_all add: same_targets_def)

text \<open>The hints of the initial transactions.\<close>

lemma fallbackHint_ok: "c \<noteq> [] \<Longrightarrow> contract_ready b c \<Longrightarrow> callable b c [] \<Longrightarrow> hint_ok b (fallbackHint c)"
  by (simp add: fallbackHint_def hint_ok_def)

lemma payHint_ok:
  "c \<noteq> [] \<Longrightarrow> m \<noteq> [] \<Longrightarrow> callable b c m \<Longrightarrow> big_get (bigs b) p = Inr v \<Longrightarrow> hint_ok b (payHint c m p)"
  by (simp add: payHint_def hint_ok_def)

lemma fuzz_ok_new:
  fixes b :: "('h, 's, 'z) fuzzst_scheme"
  assumes "fuzz_ok env b"
  shows "fuzz_ok env (b\<lparr>bigs := bigs b @ [v]\<rparr>)"
proof -
  have inv: "arg_inv (fmtAddress env) b" and chain: "chain_ok env b" using assms by (simp_all add: fuzz_ok_def chain_ok_def)
  have "chain_ok env (b\<lparr>bigs := bigs b @ [v]\<rparr>)" by (rule gen_step_chain [OF gen_step_bigs [OF inv] chain])
  then show ?thesis using assms by (simp add: fuzz_ok_def)
qed

definition loop_inv :: "('h, 's, 'e) chainenv_scheme \<Rightarrow> ('h, 's, 'z) fuzzst_scheme \<Rightarrow> ('h, 's, 'z) fuzzst_scheme \<Rightarrow> bool" where
  "loop_inv env b b' \<longleftrightarrow> fuzz_ok env b' \<and> same_targets b b'"

lemma tryMethod_returns:
  fixes b :: "('h, 's, 'z) fuzzst_scheme"
  assumes "loop_inv env a b" and "eth_ok env" and "c \<noteq> []" and "m \<noteq> []" and "callable a c m"
    and "\<not> crashes (underflows env) (tryMethod env mode c m b)"
  shows "\<exists>b'. tryMethod env mode c m b = Some (Inr b') \<and> loop_inv env a b'"
proof (cases "\<not> IsPayable c m b \<and> \<not> index_is_0 m ''fuzz_always_true''")
  case True
  let ?b = "b\<lparr>bigs := bigs b @ [1]\<rparr>" and ?h = "payHint c m (Suc (length (bigs b)))"
  have b: "fuzz_ok env ?b" "same_targets a ?b"
    using assms(1) fuzz_ok_new [of env b] by (simp_all add: loop_inv_def same_targets_def)
  have "callable ?b c m" using same_targets_ready(2) [OF b(2)] assms(5) by simp
  then have "hint_ok ?b ?h" by (intro payHint_ok [OF assms(3,4)]) (simp_all add: nth_append)
  moreover have "\<not> crashes (underflows env) (Rec env fuzz_options mode 0 ?h ?b)"
    by (rule crashes_part) (use assms(6) True in \<open>simp add: tryMethod_def big_new_def\<close>)
  ultimately obtain r h' b' where
    "Rec env fuzz_options mode 0 ?h ?b = Some (Inr ((r, h'), b'))" "fuzz_ok env b'" "same_targets ?b b'"
    using Rec_step [OF b(1) _ assms(2)] by metis
  then show ?thesis using True same_targets_trans [OF b(2)] by (simp add: tryMethod_def big_new_def loop_inv_def)
qed (use assms(1) in \<open>auto simp: tryMethod_def\<close>)

lemma tryContract_returns:
  fixes b :: "('h, 's, 'z) fuzzst_scheme"
  assumes "loop_inv env a b" and "eth_ok env" and "c = ''Migrations'' \<or> c \<noteq> [] \<and> contract_ready a c \<and> callable a c []"
    and "\<not> crashes (underflows env) (tryContract env mode c b)"
  shows "\<exists>b'. tryContract env mode c b = Some (Inr b') \<and> loop_inv env a b'"
proof (cases "c = ''Migrations''")
  case False
  then have c: "c \<noteq> []" "contract_ready a c" "callable a c []" using assms(3) by simp_all
  obtain k where k: "DeployedContracts a c = Some k" "\<forall>m \<in> set (Methods k). m \<noteq> [] \<and> callable a c m"
    using c(2) by (auto simp: contract_ready_def)
  have b: "fuzz_ok env b" "same_targets a b" using assms(1) by (simp_all add: loop_inv_def)
  have "hint_ok b (fallbackHint c)" using fallbackHint_ok [OF c(1), of b] c(2,3) same_targets_ready [OF b(2)] by simp
  moreover have "\<not> crashes (underflows env) (Rec env fuzz_options mode 0 (fallbackHint c) b)"
    by (rule crashes_part) (use assms(4) False in \<open>simp add: tryContract_def\<close>)
  ultimately obtain r h' b1 where
    r: "Rec env fuzz_options mode 0 (fallbackHint c) b = Some (Inr ((r, h'), b1))" "fuzz_ok env b1" "same_targets b b1"
    using Rec_step [OF b(1) _ assms(2)] by metis
  have b1: "loop_inv env a b1" using r(2,3) same_targets_trans [OF b(2)] by (simp add: loop_inv_def)
  have k1: "DeployedContracts b1 c = Some k" using b1 k(1) by (simp add: loop_inv_def same_targets_def)
  have crash: "\<not> crashes (underflows env) (foldT (tryMethod env mode c) (Methods k) b1)"
    using assms(4) False r(1) k1 by (simp add: tryContract_def)
  have "\<exists>b2. foldT (tryMethod env mode c) (Methods k) b1 = Some (Inr b2) \<and> loop_inv env a b2"
    by (rule foldT_returns [of "loop_inv env a", OF b1 crash]) (use tryMethod_returns [OF _ assms(2) c(1)] k(2) in blast)
  then show ?thesis using False r(1) k1 by (simp add: tryContract_def)
qed (use assms(1) in \<open>simp add: tryContract_def\<close>)

lemma emptyHint_ok [simp]: "hint_ok b emptyHint"
  by (simp add: emptyHint_def hint_ok_def)

lemma RevertBackend_ok:
  fixes b :: "('h, 's, 'z) fuzzst_scheme"
  assumes "loop_inv env a b"
  shows "\<exists>b'. RevertBackend b = Inr b' \<and> loop_inv env a b' \<and> TxCount b' = TxCount b"
  using assms by (auto simp: loop_inv_def fuzz_ok_def RevertBackend_def same_targets_def)

text \<open>A transaction of the main loop: its value is at most a balance, which bounds the retries.\<close>

lemma Rec_empty:
  fixes b :: "('h, 's, 'z) fuzzst_scheme"
  assumes "fuzz_ok env b" and "eth_ok env" and "\<not> crashes (underflows env) (Rec env fuzz_options mode 0 emptyHint b)"
  obtains r h' b' where "Rec env fuzz_options mode 0 emptyHint b = Some (Inr ((r, h'), b'))" and "fuzz_ok env b'" and "same_targets b b'"
    and "TxCount b < TxCount b'" and "\<And>L. \<forall>w a. GetBalance env w a < 2 ^ L \<Longrightarrow> TxCount b' \<le> TxCount b + most_txs mode 0 L"
proof -
  have opt: "\<not> CheckDeployedContract fuzz_options" by (simp add: fuzz_options_def)
  obtain returned tx h1 b1 and i :: LastTxInput where
    a: "attempt env fuzz_options mode emptyHint b = Some (Inr (((returned, tx), h1), b1))"
      "hAmount emptyHint = 0 \<longrightarrow> (\<exists>w. txValue tx \<le> max 0 (GetBalance env w (liSender i)))"
    by (rule attempt_ok [OF assms(1) emptyHint_ok assms(2) opt Rec_attempt_crash [OF assms(3)]], rule that, assumption, assumption)
  have val: "txValue tx < 2 ^ L" if "\<forall>w a. GetBalance env w a < 2 ^ L" for L
  proof -
    obtain w where "txValue tx \<le> max 0 (GetBalance env w (liSender i))" using a(2) by (auto simp: emptyHint_def)
    moreover have "GetBalance env w (liSender i) < 2 ^ L" using that by blast
    moreover have "0 < (2::int) ^ L" by simp
    ultimately show ?thesis by linarith
  qed
  from Rec_count [OF assms(1) emptyHint_ok assms(2) opt assms(3)] a(1) obtain r h' b' where
    r: "Rec env fuzz_options mode 0 emptyHint b = Some (Inr ((r, h'), b'))" "fuzz_ok env b'" "same_targets b b'" "TxCount b < TxCount b'"
    and n: "\<forall>L. txValue tx < 2 ^ L \<longrightarrow> TxCount b' \<le> TxCount b + most_txs mode 0 L" by auto
  show ?thesis by (rule that [OF r]) (use n val in blast)
qed

definition stopped_at ::
  "('h, 's, 'e) chainenv_scheme \<Rightarrow> OptMode \<Rightarrow> ('h, 's, 'z) fuzzst_scheme \<Rightarrow> bool" where
  "stopped_at env mode b' \<longleftrightarrow> (\<exists>b h. fuzz_ok env b \<and> Rec env fuzz_options mode 0 emptyHint b = Some (Inr ((True, h), b')))"

lemma fuzzLoop_returns:
  fixes b :: "('h, 's, 'z) fuzzst_scheme"
  assumes "loop_inv env a b" and "eth_ok env" and "\<not> crashes (underflows env) (fuzzLoop env mode limit is b)"
  shows "\<exists>b'. fuzzLoop env mode limit is b = Some (Inr b') \<and> loop_inv env a b' \<and>
    (TxCount b + int (length is) \<le> TxCount b' \<or> limit < TxCount b' \<or> stopped_at env mode b') \<and>
    (\<forall>L. (\<forall>w a. GetBalance env w a < 2 ^ L) \<longrightarrow> TxCount b \<le> limit \<longrightarrow> TxCount b' \<le> limit + most_txs mode 0 L)"
  using assms(1,3)
proof (induction "is" arbitrary: b)
  case Nil
  have "1 \<le> most_txs mode 0 L" for L by (rule most_txs_pos)
  then have "TxCount b \<le> limit \<longrightarrow> TxCount b \<le> limit + most_txs mode 0 L" for L by (smt (verit))
  then show ?case using Nil by simp
next
  case (Cons i js)
  have b: "fuzz_ok env b" "same_targets a b" using Cons.prems(1) by (simp_all add: loop_inv_def)
  have "\<not> crashes (underflows env) (Rec env fuzz_options mode 0 emptyHint b)" using Cons.prems(2) by (simp add: crashes_bindT)
  from Rec_empty [OF b(1) assms(2) this] obtain r h' b1 where
    r: "Rec env fuzz_options mode 0 emptyHint b = Some (Inr ((r, h'), b1))" "fuzz_ok env b1" "same_targets b b1" "TxCount b < TxCount b1"
    and n: "\<And>L. \<forall>w a. GetBalance env w a < 2 ^ L \<Longrightarrow> TxCount b1 \<le> TxCount b + most_txs mode 0 L" by blast
  have b1: "loop_inv env a b1" using r(2,3) same_targets_trans [OF b(2)] by (simp add: loop_inv_def)
  show ?case
  proof (cases "r \<or> TxCount b1 > limit")
    case True
    then have "limit < TxCount b1 \<or> stopped_at env mode b1" using r(1) b(1) unfolding stopped_at_def by (cases r) auto
    moreover have "fuzzLoop env mode limit (i # js) b = Some (Inr b1)" using True r(1) by auto
    ultimately show ?thesis using b1 n by (intro exI [of _ b1]) force
  next
    case False
    obtain b2 where b2: "RevertBackend b1 = Inr b2" "loop_inv env a b2" "TxCount b2 = TxCount b1" using RevertBackend_ok [OF b1] by blast
    let ?c = "if SnapshotsEnabled mode \<and> i AND 8192 \<noteq> 0 then b2 else b1"
    have c: "loop_inv env a ?c" "TxCount ?c = TxCount b1" using b2(2,3) b1 by simp_all
    have "fuzzLoop env mode limit (i # js) b = fuzzLoop env mode limit js ?c" using False r(1) b2(1) by simp
    then show ?thesis using Cons.IH [OF c(1)] Cons.prems(2) c(2) False r(4) by auto
  qed
qed

text \<open>A call of a contract without methods fails while its method is chosen.\<close>

lemma GenTransaction_no_methods:
  fixes b :: "('h, 's, 'z) fuzzst_scheme"
  assumes "DeployedContracts b c = Some k" and "Methods k = []" and "c \<noteq> []"
  shows "GenTransaction env (Some (fallbackHint c)) b = Some (Inl DivideByZero)"
proof -
  have "rand_element [] b = Inl DivideByZero" by (cases "draw_Int b") (simp add: rand_element_def)
  then have "GetRandomMethod c b = Inl DivideByZero" using assms(1,2) by (simp add: GetRandomMethod_def)
  then have m: "chooseMethod (Some (fallbackHint c)) c b = Inl DivideByZero" unfolding chooseMethod_def fallbackHint_def option.case Hint.simps
    by simp
  have c: "chooseContract (Some (fallbackHint c)) b = Inr (c, b)" using assms(3) unfolding chooseContract_def fallbackHint_def option.case Hint.simps by (rule if_P)
  show ?thesis unfolding GenTransaction_def c bindT_simps prod.case m ..
qed

text \<open>
  The initial transactions and the main loop, on a chain that is ready.
\<close>

lemma campaign_runs:
  fixes b :: "('h, 's, 'z) fuzzst_scheme"
  assumes "fuzz_ok env b" and "eth_ok env" and "range_ok env" and "finite (dom (DeployedContracts b))"
    and "\<forall>c \<in> dom (DeployedContracts b). c \<noteq> ''Migrations'' \<longrightarrow> c \<noteq> [] \<and> contract_ready b c \<and> callable b c []"
    and "\<not> crashes (underflows env) (bindT (foldT (tryContract env mode) (rangeOrder env (dom (DeployedContracts b))) b)
      (\<lambda>b. fuzzLoop env mode limit [0..limit - 1] (b\<lparr>TxCount := 0\<rparr>)))"
  shows "\<exists>b1 b2. foldT (tryContract env mode) (rangeOrder env (dom (DeployedContracts b))) b = Some (Inr b1) \<and>
    fuzzLoop env mode limit [0..limit - 1] (b1\<lparr>TxCount := 0\<rparr>) = Some (Inr b2) \<and> fuzz_ok env b2 \<and> same_targets b b2"
proof -
  let ?cs = "rangeOrder env (dom (DeployedContracts b))"
  have cs: "set ?cs = dom (DeployedContracts b)" using range_okD [OF assms(3,4)] by blast
  have b: "loop_inv env b b" using assms(1) by (simp add: loop_inv_def)
  have "\<exists>b1. foldT (tryContract env mode) ?cs b = Some (Inr b1) \<and> loop_inv env b b1"
  proof (rule foldT_returns [of "loop_inv env b", OF b crashes_part [OF assms(6)]])
    fix c and u :: "('h, 's, 'z) fuzzst_scheme"
    assume c: "c \<in> set ?cs" and u: "loop_inv env b u" and crash: "\<not> crashes (underflows env) (tryContract env mode c u)"
    show "\<exists>u'. tryContract env mode c u = Some (Inr u') \<and> loop_inv env b u'"
      by (rule tryContract_returns [OF u assms(2) _ crash]) (use assms(5) c cs in blast)
  qed
  then obtain b1 where b1: "foldT (tryContract env mode) ?cs b = Some (Inr b1)" "loop_inv env b b1" by blast
  have start: "loop_inv env b (b1\<lparr>TxCount := 0\<rparr>)" using b1(2) by (auto simp: loop_inv_def fuzz_ok_def same_targets_def)
  have "\<not> crashes (underflows env) (fuzzLoop env mode limit [0..limit - 1] (b1\<lparr>TxCount := 0\<rparr>))" using assms(6) b1(1) by simp
  from fuzzLoop_returns [OF start assms(2) this] b1(1) show ?thesis
    by (auto simp: loop_inv_def)
qed

text \<open>The whole fuzzer.\<close>

lemma fuzz_ends:
  fixes b0 :: "('h, 's, 'z) fuzzst_scheme"
  assumes "getCLFlags ctx = Returned flags" and "range_ok env" and "project_ok env" and "eth_ok env" and "fresh_start env b0"
    and "\<forall>b c k. NewBackend env (flMetadata flags) b0 = Inr (Returned b) \<longrightarrow> DeployedContracts b c = Some k \<longrightarrow>
      c \<noteq> ''Migrations'' \<longrightarrow> Methods k \<noteq> []"
  shows "case NewBackend env (flMetadata flags) b0 of
      Inl e \<Rightarrow> fuzz env decode ctx b0 = Some (Inl e)
    | Inr (Exit n) \<Rightarrow> fuzz env decode ctx b0 = Some (Inr (Exit n))
    | Inr (Returned b) \<Rightarrow> fuzz env decode ctx b0 = Some (Inl IndexOutOfRange) \<and> underflows env \<or>
        (\<exists>b'. fuzz_ok env b' \<and> DeployedContracts b' = DeployedContracts b \<and> ABIMap b' = ABIMap b \<and>
         metadataJSONMap b' = metadataJSONMap b \<and> DeployedBytecodes b' = DeployedBytecodes b \<and>
         fuzz env decode ctx b0 = Some (bindR (reportCoverage env decode (flMetadata flags) b') (\<lambda>b. Inr (Returned b))))"
proof (cases "NewBackend env (flMetadata flags) b0")
  case (Inl e)
  then show ?thesis by (simp add: fuzz_def assms(1))
next
  case (Inr out)
  show ?thesis
  proof (cases out)
    case (Exit n)
    then show ?thesis using Inr by (simp add: fuzz_def assms(1))
  next
    case (Returned b)
    have nb: "NewBackend env (flMetadata flags) b0 = Inr (Returned b)" using Inr Returned by simp
    have ready: "ready_inv env b" "ContractsList b \<noteq> []" using NewBackend_ready [OF assms(2,3,5) nb] by simp_all
    have "\<forall>c k. DeployedContracts b c = Some k \<longrightarrow> c \<noteq> ''Migrations'' \<longrightarrow> Methods k \<noteq> []" using assms(6) nb by blast
    from ready_chain [OF ready this] have chain: "chain_ok env b"
      "\<forall>c \<in> dom (DeployedContracts b). c \<noteq> ''Migrations'' \<longrightarrow> c \<noteq> [] \<and> contract_ready b c \<and> callable b c []" by simp_all
    let ?s = "SnapshotBackend env (b\<lparr>result := Map.empty\<rparr>)" and ?limit = "sint (flLimit flags)"
    obtain h j k where s: "?s = b\<lparr>result := Map.empty, StateDB := h, backendSnapshot := Some j\<rparr>"
      by (cases "StateDB b"; cases "Copy env (fst (StateDB b)) (snd (StateDB b))") (simp add: SnapshotBackend_def)
    have stats: "stats_inv (backStats b)" using ready(1) stats_inv_zero by (simp add: ready_inv_def listed_contracts_def)
    have "fuzz_ok env ?s" using chain(1) stats by (simp add: s fuzz_ok_def)
    moreover have "finite (dom (DeployedContracts ?s))" using ready(1) by (simp add: s ready_inv_def listed_contracts_def)
    moreover have "\<forall>c \<in> dom (DeployedContracts ?s). c \<noteq> ''Migrations'' \<longrightarrow> c \<noteq> [] \<and> contract_ready ?s c \<and> callable ?s c []"
      using chain(2) callable_cong [of ?s b] contract_ready_cong [of ?s b] by (simp add: s)
    ultimately have campaign: "\<not> crashes (underflows env) (bindT (foldT (tryContract env mode) (rangeOrder env (dom (DeployedContracts ?s))) ?s)
        (\<lambda>b. fuzzLoop env mode limit [0..limit - 1] (b\<lparr>TxCount := 0\<rparr>))) \<Longrightarrow>
      \<exists>b1 b2. foldT (tryContract env mode) (rangeOrder env (dom (DeployedContracts ?s))) ?s = Some (Inr b1) \<and>
        fuzzLoop env mode limit [0..limit - 1] (b1\<lparr>TxCount := 0\<rparr>) = Some (Inr b2) \<and> fuzz_ok env b2 \<and> same_targets ?s b2" for mode limit
      by (rule campaign_runs [OF _ assms(4,2)])
    let ?campaign = "bindT (foldT (tryContract env (flOptMode flags)) (rangeOrder env (dom (DeployedContracts ?s))) ?s)
        (\<lambda>b. fuzzLoop env (flOptMode flags) ?limit [0..?limit - 1] (b\<lparr>TxCount := 0\<rparr>))"
    have fuzz: "fuzz env decode ctx b0 =
        bindT ?campaign (\<lambda>b. bindT (Some (reportCoverage env decode (flMetadata flags) b)) (\<lambda>b. Some (Inr (Returned b))))"
      unfolding fuzz_def using assms(1) nb by (simp add: Let_def bindT_assoc)
    show ?thesis
    proof (cases "crashes (underflows env) ?campaign")
      case True
      then have "?campaign = Some (Inl IndexOutOfRange)" "underflows env" unfolding crashes_def by blast+
      then show ?thesis using nb unfolding fuzz by simp
    next
      case False
      from campaign [OF this] obtain b1 b2 where
        run: "foldT (tryContract env (flOptMode flags)) (rangeOrder env (dom (DeployedContracts ?s))) ?s = Some (Inr b1)"
          "fuzzLoop env (flOptMode flags) ?limit [0..?limit - 1] (b1\<lparr>TxCount := 0\<rparr>) = Some (Inr b2)" "fuzz_ok env b2" "same_targets ?s b2"
        by blast
      have "fuzz env decode ctx b0 = Some (bindR (reportCoverage env decode (flMetadata flags) b2) (\<lambda>b. Inr (Returned b)))"
        unfolding fuzz run(1) bindT_simps run(2)
        by (cases "reportCoverage env decode (flMetadata flags) b2") simp_all
      then show ?thesis using run(3,4) nb by (auto simp: same_targets_def s)
    qed
  qed
qed

section \<open>Properties\<close>

text \<open>
  C3: The whole fuzzer, from the command line to the report: with a usable project, go-ethereum as documented, and a
  configuration that leaves every deployed contract but \<open>Migrations\<close> a method, it ends, for every limit, all optimisations,
  every order in which maps are visited and every random source. It exits where the start-up exits, and a panic is one of the start-up,
  one of the final report, or an index out of range in the scan of a trace, the last only when there is a transaction whose trace makes
  the scan panic (C9), that is a contract that underflows the stack in an arithmetic instruction. Otherwise the report starts from a chain that is
  still ready, with the contracts, ABIs and caches of the start-up.
\<close>

theorem fuzz_returns:
  fixes b0 :: "('h, 's, 'z) fuzzst_scheme"
  assumes "getCLFlags ctx = Returned flags" and "range_ok env" and "project_ok env" and "eth_ok env" and "fresh_start env b0"
    and "\<forall>b c k. NewBackend env (flMetadata flags) b0 = Inr (Returned b) \<longrightarrow> DeployedContracts b c = Some k \<longrightarrow>
      c \<noteq> ''Migrations'' \<longrightarrow> Methods k \<noteq> []"
  shows "case NewBackend env (flMetadata flags) b0 of
      Inl e \<Rightarrow> fuzz env decode ctx b0 = Some (Inl e)
    | Inr (Exit n) \<Rightarrow> fuzz env decode ctx b0 = Some (Inr (Exit n))
    | Inr (Returned b) \<Rightarrow> fuzz env decode ctx b0 = Some (Inl IndexOutOfRange) \<and> underflows env \<or>
        (\<exists>b'. fuzz_ok env b' \<and> DeployedContracts b' = DeployedContracts b \<and> ABIMap b' = ABIMap b \<and>
         metadataJSONMap b' = metadataJSONMap b \<and> DeployedBytecodes b' = DeployedBytecodes b \<and>
         fuzz env decode ctx b0 = Some (bindR (reportCoverage env decode (flMetadata flags) b') (\<lambda>b. Inr (Returned b))))"
  by (rule fuzz_ends [OF assms])

text \<open>
  C8: The limit of the main loop: when no balance reaches \<open>2 ^ L\<close>, the loop ends, if it does not panic on a trace that makes the scan panic, with at most the limit and the transactions of
  one more call of \<^verbatim>\<open>Rec\<close> (1 without optimisations, 5 with other senders); it has reached the limit unless a violated property
  stopped it, since every iteration commits a transaction.
\<close>

theorem limit_respected:
  fixes b :: "('h, 's, 'z) fuzzst_scheme"
  assumes "fuzz_ok env b" and "eth_ok env" and "TxCount b = 0" and "\<forall>w a. GetBalance env w a < 2 ^ L"
  shows "fuzzLoop env mode limit [0..limit - 1] b = Some (Inl IndexOutOfRange) \<and> underflows env \<or>
   (\<exists>b'. fuzzLoop env mode limit [0..limit - 1] b = Some (Inr b') \<and>
    (limit \<le> TxCount b' \<or>
     (\<exists>u h. fuzz_ok env u \<and> Rec env fuzz_options mode 0 emptyHint u = Some (Inr ((True, h), b')))) \<and>
    TxCount b' \<le> max 0 (limit +
      (if RetryDiffSender mode then if RetryHalfEther mode then 16 * (int L + 2) - 1 else 5
       else if RetryHalfEther mode then int L + 1 else 1)))"
proof (cases "crashes (underflows env) (fuzzLoop env mode limit [0..limit - 1] b)")
  case True
  then show ?thesis by (simp add: crashes_def)
next
  case crash: False
  show ?thesis
  proof (cases "0 \<le> limit")
    case True
    have "loop_inv env b b" using assms(1) by (simp add: loop_inv_def)
    from fuzzLoop_returns [OF this assms(2) crash] obtain b' where
      b': "fuzzLoop env mode limit [0..limit - 1] b = Some (Inr b')"
        "limit \<le> TxCount b' \<or> stopped_at env mode b'" "TxCount b' \<le> limit + most_txs mode 0 L"
      using assms(3,4) True by auto
    have "most_txs mode 0 L = (if RetryDiffSender mode then if RetryHalfEther mode then 16 * (int L + 2) - 1 else 5
         else if RetryHalfEther mode then int L + 1 else 1)" by (simp add: most_txs_def)
    then show ?thesis using b' unfolding stopped_at_def by (intro disjI2) (rule exI [of _ b'], simp)
  next
    case False
    then show ?thesis using assms(3) by (intro disjI2 exI [of _ b]) simp
  qed
qed

text \<open>
  C22: What the command line sets: without a metadata file the fuzzer exits with 1; with one, the limit is the one
  given or 10000, the optimisations are the four lowest bits of the number given with \<open>o\<close> (none without it), whatever its other bits, and the number of
  accounts is 0 on every command line, since its flag is not among the registered ones.
\<close>

theorem flags_from_command_line:
  assumes "cli_ok LvlInfo args ctx"
  shows "getCLFlags ctx =
    (case stringArgs args ''metadata'' of None \<Rightarrow> Exit 1 | Some metadata \<Rightarrow>
     if metadata = [] then Exit 1
     else let w = (case intArgs args ''o'' of None \<Rightarrow> 0 | Some w \<Rightarrow> w) in
       Returned \<lparr>flMetadata = metadata, flContract = (case stringArgs args ''contract'' of None \<Rightarrow> [] | Some c \<Rightarrow> c),
         flLimit = (case intArgs args ''limit'' of None \<Rightarrow> 10000 | Some n \<Rightarrow> n),
         flInteractive = (boolArgs args ''it'' = Some True),
         flOptMode = \<lparr>RetryHalfEther = bit w 0, RetryDiffSender = bit w 1, SnapshotsEnabled = bit w 2, GenStatistics = bit w 3\<rparr>,
         flAccounts = 0, flLogLevel = (case intArgs args ''loglevel'' of None \<Rightarrow> LvlInfo | Some l \<Rightarrow> l)\<rparr>)"
proof -
  note flags = appFlags_def logLevelFlag_def metadataFileFlag_def contractFlag_def limitFlag_def optimizationsFlag_def
    interactiveModeFlag_def accountsFlag_def cpuProfileFlag_def memProfileFlag_def
  have strings: "GlobalString ctx ''metadata'' = (case stringArgs args ''metadata'' of None \<Rightarrow> [] | Some c \<Rightarrow> c)"
    "GlobalString ctx ''contract'' = (case stringArgs args ''contract'' of None \<Rightarrow> [] | Some c \<Rightarrow> c)"
    using assms unfolding cli_ok_def flags by simp_all
  have ints: "GlobalInt ctx ''limit'' = (case intArgs args ''limit'' of None \<Rightarrow> 10000 | Some n \<Rightarrow> n)"
    "GlobalInt ctx ''o'' = (case intArgs args ''o'' of None \<Rightarrow> 0 | Some n \<Rightarrow> n)" "GlobalInt ctx ''a'' = 0"
    "ContextInt ctx ''loglevel'' = (case intArgs args ''loglevel'' of None \<Rightarrow> LvlInfo | Some n \<Rightarrow> n)"
    using assms unfolding cli_ok_def flags by simp_all
  have bools: "GlobalBool ctx ''it'' = (boolArgs args ''it'' = Some True)"
    using assms unfolding cli_ok_def flags by (simp split: option.split)
  show ?thesis
  proof (cases "stringArgs args ''metadata''")
    case None
    then show ?thesis using strings(1) by (simp add: getCLFlags_def metadataFileFlag_def)
  next
    case (Some m)
    then show ?thesis using strings ints bools
      by (simp add: getCLFlags_def flags set_flag_bits Let_def del: One_nat_def)
  qed
qed

text \<open>
  C20: A deployed contract without methods (one that has a fallback function only, or whose methods are all ignored by the configuration) stops
  the fuzzer at its first transaction: the fallback call chooses a random method although it does not need one,
  and dividing by their number panics.
\<close>

theorem fallback_no_methods_panics:
  fixes b :: "('h, 's, 'z) fuzzst_scheme"
  assumes "fuzz_ok env b" and "DeployedContracts b c = Some k" and "Methods k = []" and "c \<noteq> []" and "c \<noteq> ''Migrations''"
  shows "tryContract env mode c b = Some (Inl DivideByZero)"
proof -
  obtain hdr b1 where g: "GetDefaultHeader b = (hdr, b1)" by (cases "GetDefaultHeader b")
  obtain hd cl where "b1 = b\<lparr>defaultHeader := hd, clock := cl\<rparr>" using GetDefaultHeader_frame [OF g] by blast
  then have b1: "fuzz_ok env b1" "DeployedContracts b1 c = Some k" using assms(1,2) by simp_all
  obtain ts b2 where b2: "GenTimestamp b1 = Inr (ts, b2)" "same_targets b1 b2" using GenTimestamp_ok [OF b1(1)] by blast
  let ?b = "b2\<lparr>defaultHeader := Some (hdr\<lparr>hdTime := ts\<rparr>)\<rparr>"
  have "DeployedContracts ?b c = Some k" using b1(2) b2(2) by (simp add: same_targets_def)
  from GenTransaction_no_methods [OF this assms(3,4)]
  have "GenTransaction env (Some (fallbackHint c)) ?b = Some (Inl DivideByZero)" .
  then have "attempt env fuzz_options mode (fallbackHint c) b = Some (Inl DivideByZero)"
    by (simp add: attempt_def g b2(1) Let_def)
  then have "Rec env fuzz_options mode 0 (fallbackHint c) b = Some (Inl DivideByZero)" by (subst Rec.simps) simp
  then show ?thesis using assms(5) by (simp add: tryContract_def)
qed

section \<open>Witnesses\<close>

lemma range_ok_chainenv: "range_ok example_chainenv"
proof -
  have "rangeOrder example_chainenv = rangeOrder example_env"
    by (simp add: example_chainenv_def example_procenv_def example_txenv_def env.defs txenv.defs procenv.defs genenv.defs
        chainenv.defs example_env_def)
  then show ?thesis using range_ok_example by (simp add: range_ok_def)
qed

text \<open>A chain on which every balance is 40.\<close>

abbreviation rich_env :: "(nat \<Rightarrow> nat, nat) chainenv" where
  "rich_env \<equiv> example_chainenv\<lparr>GetBalance := \<lambda>_ _. 40\<rparr>"

theorem limit_respected_witness:
  "\<exists>b'. fuzzLoop rich_env all_modes 10 [0..9] example_loop = Some (Inr b') \<and> TxCount b' \<le> 137"
proof -
  have "acc_inv rich_env b = acc_inv example_chainenv b" for b :: "(nat \<Rightarrow> nat, nat) fuzzst" by (simp add: acc_inv_def)
  then have ok: "fuzz_ok rich_env example_loop" using example_loop_ok(1) by (simp add: fuzz_ok_def chain_ok_def)
  have "eth_ok rich_env" using example_loop_ok(2)
    by (simp add: eth_ok_def sign_ok_def pack_ok_def unpack_ok_def traces_ok_def balances_ok_def)
  moreover have "\<not> underflows rich_env" using example_chainenv_ok(7) by (simp add: underflows_def)
  ultimately show ?thesis using limit_respected [OF ok, of 6 all_modes 10] by (auto simp: all_modes_def)
qed

text \<open>A command line that names the project and all optimisations.\<close>

definition example_args :: cliArgs where
  "example_args = \<lparr>intArgs = [''o'' \<mapsto> 15], stringArgs = [''metadata'' \<mapsto> ''m''], boolArgs = Map.empty\<rparr>"

definition example_context :: cliContext where
  "example_context = \<lparr>GlobalString = \<lambda>n. stringValue example_args n (appFlags 3), GlobalInt = \<lambda>n. intValue example_args n (appFlags 3),
     GlobalBool = \<lambda>n. boolValue example_args n (appFlags 3), ContextInt = \<lambda>n. intValue example_args n (appFlags 3)\<rparr>"

lemma example_context_ok: "cli_ok 3 example_args example_context"
  by (simp add: cli_ok_def example_context_def)

theorem flags_from_command_line_witness:
  "\<exists>flags. getCLFlags example_context = Returned flags \<and> flLimit flags = 10000 \<and> GenStatistics (flOptMode flags) \<and> flAccounts flags = 0"
  using flags_from_command_line [OF example_context_ok] by (simp add: example_args_def Let_def)

lemma example_flags: "\<exists>flags. getCLFlags example_context = Returned flags \<and> flMetadata flags = ''m''"
  by (simp add: getCLFlags_def example_context_def example_args_def appFlags_def metadataFileFlag_def Let_def)

theorem fuzz_returns_witness:
  "\<exists>flags b b'. getCLFlags example_context = Returned flags \<and> NewBackend deploy_env ''m'' example_start = Inr (Returned b) \<and>
     dom (DeployedContracts b) = {''Token''} \<and> fuzz_ok deploy_env b' \<and>
     fuzz deploy_env (\<lambda>_. []) example_context example_start = Some (bindR (reportCoverage deploy_env (\<lambda>_. []) ''m'' b') (\<lambda>b. Inr (Returned b)))"
proof -
  obtain flags where flags: "getCLFlags example_context = Returned flags" "flMetadata flags = ''m''" using example_flags by blast
  obtain b a where b: "NewBackend deploy_env ''m'' example_start = Inr (Returned b)"
    "DeployedContracts b = [''Token'' \<mapsto> \<lparr>Addresses = [a], Methods = [''mint'']\<rparr>]" using example_startup by blast
  have "\<forall>u c k. NewBackend deploy_env (flMetadata flags) example_start = Inr (Returned u) \<longrightarrow> DeployedContracts u c = Some k \<longrightarrow>
      c \<noteq> ''Migrations'' \<longrightarrow> Methods k \<noteq> []" using b flags(2) by simp
  from fuzz_returns [OF flags(1) deploy_env_ok(1,3,2) example_start_fresh this, of "\<lambda>_. []"] obtain b' where
    "fuzz_ok deploy_env b'" "fuzz deploy_env (\<lambda>_. []) example_context example_start = Some (bindR (reportCoverage deploy_env (\<lambda>_. []) ''m'' b') (\<lambda>b. Inr (Returned b)))"
    using b(1) flags(2) deploy_env_ok(4) by auto
  then show ?thesis using flags(1) b by (intro exI [of _ flags] exI [of _ b] exI [of _ b']) simp
qed

lemma chain_ok_deployed:
  fixes b :: "('h, 's, 'z) fuzzst_scheme"
  assumes "chain_ok env b" and "\<forall>c \<in> set (ContractsList b). contract_ready (b\<lparr>DeployedContracts := d\<rparr>) c"
  shows "chain_ok env (b\<lparr>DeployedContracts := d\<rparr>)"
proof -
  have "pools_ok env (b\<lparr>DeployedContracts := d\<rparr>) = pools_ok env b"
    by (simp add: pools_ok_def arg_inv_def b32_ok_def addresses_def bigptrs_def)
  moreover have "acc_inv env (b\<lparr>DeployedContracts := d\<rparr>) = acc_inv env b" by (simp add: acc_inv_def account_list_def)
  ultimately show ?thesis using assms by (simp add: chain_ok_split)
qed

lemma backst_extend_list: "ContractsList (backst.extend b f) = ContractsList b"
  by (cases b) (simp add: backst.defs)

theorem fallback_no_methods_panics_witness:
  "tryContract example_chainenv all_modes ''Sink'' (example_loop\<lparr>DeployedContracts :=
     [''Token'' \<mapsto> \<lparr>Addresses = [9], Methods = [''mint'']\<rparr>, ''Sink'' \<mapsto> \<lparr>Addresses = [10], Methods = []\<rparr>]\<rparr>) = Some (Inl DivideByZero)"
proof -
  let ?b = "example_loop\<lparr>DeployedContracts :=
     [''Token'' \<mapsto> \<lparr>Addresses = [9], Methods = [''mint'']\<rparr>, ''Sink'' \<mapsto> \<lparr>Addresses = [10], Methods = []\<rparr>]\<rparr>"
  have "contract_ready ?b ''Token''"
    by (simp add: contract_ready_def callable_def abi_at_def method_of_def token_abi_def)
  moreover have "ContractsList example_loop = [''Token'']" by (simp add: example_fuzz_def backst_extend_list)
  moreover have "chain_ok example_chainenv example_loop" using example_loop_ok(1) by (simp add: fuzz_ok_def)
  ultimately have "chain_ok example_chainenv ?b" by (intro chain_ok_deployed) simp_all
  then have "fuzz_ok example_chainenv ?b" using example_loop_ok(1) by (simp add: fuzz_ok_def)
  from fallback_no_methods_panics [OF this, of "''Sink''"] show ?thesis by simp
qed

end
