(* ===== verification/CoverageReport.thy ===== *)
theory CoverageReport
  imports Fuzzer StartupResults
begin

text \<open>
  The report of \<^verbatim>\<open>fuzzer.go\<close> at the end of a run: how the covered instructions of each contract are
  counted and printed.
\<close>

section \<open>Reading the byte codes again\<close>

lemma fuzzst_same: "b = b\<lparr>metadataJSONMap := metadataJSONMap b, result := result b\<rparr>"
  for b :: "('h, 's, 'z) fuzzst_scheme"
  by simp

lemma getMeta_again:
  assumes "getMeta env metadata b = Inr (m, b1)" and "metadataJSONMap u = metadataJSONMap b \<or> metadataJSONMap u = metadataJSONMap b1"
  shows "getMeta env metadata u = Inr (m, u\<lparr>metadataJSONMap := metadataJSONMap b1\<rparr>)"
proof (cases "metadataJSONMap b metadata")
  case None
  then have "readMeta env metadata = Some m" "metadataJSONMap b1 = (metadataJSONMap b)(metadata \<mapsto> m)"
    using assms(1) by (auto simp: getMeta_def split: option.splits)
  then show ?thesis using assms(2) None by (auto simp: getMeta_def)
next
  case (Some x)
  then have "x = m" "b1 = b" using assms(1) by (simp_all add: getMeta_def)
  then show ?thesis using assms(2) Some by (auto simp: getMeta_def)
qed

lemma ReadDeployedBytecodes_again:
  fixes u :: "'w utilst_scheme"
  assumes "ReadDeployedBytecodes env metadata b = Inr (codes, b1)" and "DeployedBytecodes b = None" and "DeployedBytecodes u = None"
    and "metadataJSONMap u = metadataJSONMap b \<or> metadataJSONMap u = metadataJSONMap b1"
  shows "ReadDeployedBytecodes env metadata u = Inr (codes, u\<lparr>metadataJSONMap := metadataJSONMap b1\<rparr>)"
proof -
  obtain m where m: "getMeta env metadata b = Inr (m, b1)"
    using assms(1,2) by (auto simp: ReadDeployedBytecodes_def getTruffleDir_def elim!: bindR_InrE)
  show ?thesis using assms(1-3) m getMeta_again [OF m assms(4)]
    by (auto simp: ReadDeployedBytecodes_def getTruffleDir_def elim!: bindR_InrE)
qed

section \<open>The report of a contract\<close>

text \<open>The text: covered instructions, all instructions, and the percentage rounded down.\<close>

definition coverage_text :: "nat \<Rightarrow> nat \<Rightarrow> string" where
  "coverage_text n k = dec_nat n @ ''/'' @ dec_nat k @ '', '' @ dec_nat (100 * n div k) @ ''%''"

text \<open>The number of program counters recorded for the first address of a contract.\<close>

definition covered_count :: "('db, 'z) backst_scheme \<Rightarrow> string \<Rightarrow> nat" where
  "covered_count b c =
     (case DeployedContracts b c of None \<Rightarrow> 0 | Some k \<Rightarrow>
      case OpcodeIndices b (hd (Addresses k)) of None \<Rightarrow> 0 | Some pcset \<Rightarrow> card pcset)"

definition reported ::
  "('db, 'z) backst_scheme \<Rightarrow> (string \<Rightarrow> nat) \<Rightarrow> string set \<Rightarrow> (string \<rightharpoonup> (string \<rightharpoonup> string)) \<Rightarrow> (string \<rightharpoonup> (string \<rightharpoonup> string))" where
  "reported b instrs cs r = (\<lambda>c. case r c of None \<Rightarrow> None
     | Some q \<Rightarrow> Some (if c \<in> cs then q(''covered'' \<mapsto> coverage_text (covered_count b c) (instrs c)) else q))"

text \<open>A contract whose code is read and has an instruction; \<open>instrs\<close> counts them.\<close>

definition counted ::
  "(bytes \<Rightarrow> 64 word list) \<Rightarrow> (string \<rightharpoonup> string) \<Rightarrow> (string \<Rightarrow> nat) \<Rightarrow> string \<Rightarrow> bool" where
  "counted decode codes instrs c \<longleftrightarrow>
     (\<exists>is. opcodeIndices decode (case codes c of None \<Rightarrow> [] | Some code \<Rightarrow> code) = Inr is \<and> length is = instrs c \<and> is \<noteq> [])"

lemma reportContract_counted:
  fixes b :: "('h, 's, 'z) fuzzst_scheme"
  assumes read: "ReadDeployedBytecodes env metadata b = Inr (codes, b1)" "DeployedBytecodes b = None"
    and k: "DeployedContracts b c = Some k" "Addresses k \<noteq> []" and q: "r c = Some q" and "counted decode codes instrs c"
    and f: "f = metadataJSONMap b \<or> f = metadataJSONMap b1"
  shows "reportContract env decode metadata c (b\<lparr>metadataJSONMap := f, result := r\<rparr>) =
    Inr (b\<lparr>metadataJSONMap := metadataJSONMap b1, result := r(c \<mapsto> q(''covered'' \<mapsto> coverage_text (covered_count b c) (instrs c)))\<rparr>)"
proof -
  let ?u = "b\<lparr>metadataJSONMap := f, result := r\<rparr>" and ?g = "metadataJSONMap b1"
  obtain "is" where ind: "opcodeIndices decode (case codes c of None \<Rightarrow> [] | Some code \<Rightarrow> code) = Inr is" "length is = instrs c" "is \<noteq> []"
    using assms(6) by (auto simp: counted_def)
  have "ReadDeployedBytecodes env metadata ?u = Inr (codes, ?u\<lparr>metadataJSONMap := ?g\<rparr>)"
    by (rule ReadDeployedBytecodes_again [OF read]) (use read(2) f in simp_all)
  then have "getCoverage env decode metadata c ?u = Inr ((covered_count b c, instrs c), b\<lparr>metadataJSONMap := ?g, result := r\<rparr>)"
    using ind(1,2) k by (cases "Addresses k")
      (simp_all add: getCoverage_def GetOpcodeIndices_def contractAddr_def covered_count_def index_def split: option.split)
  moreover have "instrs c \<noteq> 0" using ind(2,3) by (cases "is") simp_all
  ultimately show ?thesis using q by (simp add: reportContract_def setResult_def coverage_text_def)
qed

lemma reported_none: "reported b instrs {} r = r"
  by (simp add: reported_def fun_eq_iff split: option.split)

lemma reported_skip: "r c = None \<Longrightarrow> reported b instrs (insert c cs) r = reported b instrs cs r"
  by (auto simp: reported_def fun_eq_iff split: option.split)

lemma reported_step:
  "r c = Some q \<Longrightarrow> c \<notin> cs \<Longrightarrow>
   reported b instrs cs (r(c \<mapsto> q(''covered'' \<mapsto> coverage_text (covered_count b c) (instrs c)))) = reported b instrs (insert c cs) r"
  by (auto simp: reported_def fun_eq_iff split: option.split)

lemma report_loop:
  fixes b :: "('h, 's, 'z) fuzzst_scheme"
  assumes read: "ReadDeployedBytecodes env metadata b = Inr (codes, b1)" "DeployedBytecodes b = None"
    and "distinct cs" and "\<forall>c \<in> set cs. \<exists>k. DeployedContracts b c = Some k \<and> Addresses k \<noteq> []"
    and "\<forall>c \<in> set cs. r c \<noteq> None \<longrightarrow> counted decode codes instrs c"
    and "f = metadataJSONMap b \<or> f = metadataJSONMap b1"
  shows "\<exists>g. foldR (reportContract env decode metadata) cs (b\<lparr>metadataJSONMap := f, result := r\<rparr>) =
    Inr (b\<lparr>metadataJSONMap := g, result := reported b instrs (set cs) r\<rparr>)"
  using assms(3-6)
proof (induction cs arbitrary: f r)
  case Nil
  then show ?case by (intro exI [of _ f]) (simp add: reported_none)
next
  case (Cons c cs)
  have tail: "distinct cs" "\<forall>c \<in> set cs. \<exists>k. DeployedContracts b c = Some k \<and> Addresses k \<noteq> []" "c \<notin> set cs" using Cons.prems(1,2) by simp_all
  show ?case
  proof (cases "r c")
    case None
    have "\<forall>c \<in> set cs. r c \<noteq> None \<longrightarrow> counted decode codes instrs c" using Cons.prems(3) by simp
    from Cons.IH [OF tail(1,2) this Cons.prems(4)] show ?thesis using None by (simp add: reportContract_def reported_skip)
  next
    case (Some q)
    obtain k where k: "DeployedContracts b c = Some k" "Addresses k \<noteq> []" using Cons.prems(2) by auto
    let ?r = "r(c \<mapsto> q(''covered'' \<mapsto> coverage_text (covered_count b c) (instrs c)))"
    have "counted decode codes instrs c" using Cons.prems(3) Some by simp
    note step = reportContract_counted [where b = b and f = f and r = r and c = c, OF read k Some this Cons.prems(4)]
    have "\<forall>d \<in> set cs. ?r d \<noteq> None \<longrightarrow> counted decode codes instrs d" using Cons.prems(3) tail(3) by auto
    from Cons.IH [OF tail(1,2) this disjI2 [OF refl]] show ?thesis
      using reported_step [of r c q "set cs" b instrs, OF Some tail(3)] by (simp add: step del: fun_upd_apply)
  qed
qed

lemma reportCoverage_loop:
  fixes b :: "('h, 's, 'z) fuzzst_scheme"
  assumes "range_ok env" and "finite (dom (DeployedContracts b))" and "\<forall>k \<in> ran (DeployedContracts b). Addresses k \<noteq> []"
    and "ReadDeployedBytecodes env metadata b = Inr (codes, b1)" and "DeployedBytecodes b = None"
    and "\<forall>c \<in> dom (DeployedContracts b). result b c \<noteq> None \<longrightarrow> counted decode codes instrs c"
  shows "\<exists>g. reportCoverage env decode metadata b =
    Inr (b\<lparr>metadataJSONMap := g, result := reported b instrs (dom (DeployedContracts b)) (result b)\<rparr>)"
proof -
  let ?cs = "rangeOrder env (dom (DeployedContracts b))"
  have cs: "distinct ?cs" "set ?cs = dom (DeployedContracts b)" using range_okD [OF assms(1,2)] by simp_all
  have addr: "\<forall>c \<in> set ?cs. \<exists>k. DeployedContracts b c = Some k \<and> Addresses k \<noteq> []"
    using assms(3) cs(2) by (auto simp: ran_def)
  have "\<exists>g. foldR (reportContract env decode metadata) ?cs (b\<lparr>metadataJSONMap := metadataJSONMap b, result := result b\<rparr>) =
      Inr (b\<lparr>metadataJSONMap := g, result := reported b instrs (set ?cs) (result b)\<rparr>)"
    by (rule report_loop [where b = b, OF assms(4,5) cs(1) addr]) (use assms(6) cs(2) in simp_all)
  then show ?thesis unfolding reportCoverage_def fuzzst_same [symmetric] cs(2) .
qed

lemma report_result:
  fixes b :: "('h, 's, 'z) fuzzst_scheme"
  assumes "e = Inr (b\<lparr>metadataJSONMap := g, result := r\<rparr>)" and "\<And>c. r c = f c"
  shows "\<exists>b' g. e = Inr b' \<and> b' = b\<lparr>metadataJSONMap := g, result := result b'\<rparr> \<and> (\<forall>c. result b' c = f c)"
  using assms by (intro exI [of _ "b\<lparr>metadataJSONMap := g, result := r\<rparr>"] exI [of _ g]) simp

section \<open>Property\<close>

text \<open>
  C11: The report: every deployed contract with results gets the entry \<open>covered\<close> with the number of program counters
  recorded for its first address, the number of instructions of its code, and the percentage rounded down, in whatever order the
  contracts are visited; no other entry and nothing else of the backend changes. It is enough that the build can be read, that every
  deployed contract has an address, and that the code of those with results has an instruction.
\<close>

theorem coverage_reported:
  fixes b :: "('h, 's, 'z) fuzzst_scheme"
  assumes "range_ok env" and "finite (dom (DeployedContracts b))" and "\<forall>k \<in> ran (DeployedContracts b). Addresses k \<noteq> []"
    and "ReadDeployedBytecodes env metadata b = Inr (codes, b1)" and "DeployedBytecodes b = None"
    and "\<forall>c \<in> dom (DeployedContracts b). result b c \<noteq> None \<longrightarrow> counted decode codes instrs c"
  shows "\<exists>b' g. reportCoverage env decode metadata b = Inr b' \<and> b' = b\<lparr>metadataJSONMap := g, result := result b'\<rparr> \<and>
    (\<forall>c. result b' c = (case result b c of None \<Rightarrow> None | Some q \<Rightarrow> Some
       (case DeployedContracts b c of None \<Rightarrow> q | Some k \<Rightarrow>
          let n = (case OpcodeIndices b (hd (Addresses k)) of None \<Rightarrow> 0 | Some pcset \<Rightarrow> card pcset) in
          q(''covered'' \<mapsto> dec_nat n @ ''/'' @ dec_nat (instrs c) @ '', '' @ dec_nat (100 * n div instrs c) @ ''%''))))"
proof -
  obtain g where
    g: "reportCoverage env decode metadata b = Inr (b\<lparr>metadataJSONMap := g, result := reported b instrs (dom (DeployedContracts b)) (result b)\<rparr>)"
    using reportCoverage_loop [where b = b and decode = decode and instrs = instrs, OF assms] by blast
  have "reported b instrs (dom (DeployedContracts b)) (result b) c = (case result b c of None \<Rightarrow> None | Some q \<Rightarrow> Some
       (case DeployedContracts b c of None \<Rightarrow> q | Some k \<Rightarrow>
          let n = (case OpcodeIndices b (hd (Addresses k)) of None \<Rightarrow> 0 | Some pcset \<Rightarrow> card pcset) in
          q(''covered'' \<mapsto> dec_nat n @ ''/'' @ dec_nat (instrs c) @ '', '' @ dec_nat (100 * n div instrs c) @ ''%'')))" for c
    unfolding reported_def coverage_text_def covered_count_def Let_def
    by (cases "result b c"; cases "DeployedContracts b c") (simp_all add: domIff)
  then show ?thesis by (rule report_result [OF g])
qed

section \<open>Witness\<close>

lemma token_indices: "opcodeIndices (\<lambda>bs. map (\<lambda>i. of_nat i) [0..<length bs]) token_code = Inr [0, 1]"
proof -
  have code: "token_code = ''600100'' @ bzzr0 @ replicate 64 CHR ''1''" by (simp add: token_code_def)
  have "occurs_at token_code bzzr0 (length ''600100'')" unfolding code by (rule occurs_at_append)
  then have occ: "occurs_at token_code bzzr0 6" by (simp add: eval_nat_numeral)
  have none: "\<not> occurs_at token_code bzzr0 j" if "6 < j" for j
    unfolding code by (rule marker_once) (use that in simp_all)
  have idx: "lastIndex token_code bzzr0 = 6" using lastIndex_last [OF occ none] by simp
  have cut: "slice 0 5 token_code = Inr ''60010''" unfolding code by (simp add: slice_def bzzr0_eq)
  have "fst (hex_decode (ReplacePlaceHolders ''60010'')) = [0x60, 1]" by code_simp
  then show ?thesis unfolding opcodeIndices_def Let_def idx by (simp add: cut)
qed

text \<open>One of the two instructions of \<open>Token\<close> is covered.\<close>

definition report_start :: "(nat \<Rightarrow> nat, nat) fuzzst" where
  "report_start = example_start\<lparr>DeployedContracts := [''Token'' \<mapsto> \<lparr>Addresses = [9], Methods = [''mint'']\<rparr>],
     OpcodeIndices := [9 \<mapsto> {0}], result := [''Token'' \<mapsto> Map.empty]\<rparr>"

lemma report_start_codes:
  "ReadDeployedBytecodes deploy_env ''m'' report_start =
     Inr ([''Token'' \<mapsto> token_code, ''SafeMath'' \<mapsto> ''6002''], report_start\<lparr>metadataJSONMap := [''m'' \<mapsto> example_meta]\<rparr>)"
  by (simp add: report_start_def ReadDeployedBytecodes_def getTruffleDir_def getMeta_def buildFiles_def contractFile_def
      token_artifact_def safemath_artifact_def slice_def getFilename_examples example_meta_def)

lemma report_digits: "dec_nat 1 = ''1''" "dec_nat 2 = ''2''" "dec_nat 50 = ''50''"
  by code_simp+

theorem coverage_reported_witness:
  "\<exists>b'. reportCoverage deploy_env (\<lambda>bs. map (\<lambda>i. of_nat i) [0..<length bs]) ''m'' report_start = Inr b' \<and>
     result b' ''Token'' = Some [''covered'' \<mapsto> ''1/2, 50%'']"
proof -
  let ?decode = "\<lambda>bs::bytes. map (\<lambda>i. of_nat i :: 64 word) [0..<length bs]"
  let ?codes = "[''Token'' \<mapsto> token_code, ''SafeMath'' \<mapsto> ''6002'']"
  have "finite (dom (DeployedContracts report_start))" "\<forall>k \<in> ran (DeployedContracts report_start). Addresses k \<noteq> []"
    "DeployedBytecodes report_start = None"
    "\<forall>c \<in> dom (DeployedContracts report_start). result report_start c \<noteq> None \<longrightarrow> counted ?decode ?codes (\<lambda>c. 2) c"
    by (simp_all add: report_start_def counted_def token_indices del: upt_Suc)
  from coverage_reported [where b = report_start, OF deploy_env_ok(1) this(1,2) report_start_codes this(3,4)] obtain b' where
    "reportCoverage deploy_env ?decode ''m'' report_start = Inr b'" and res: "result b' ''Token'' =
      (case result report_start ''Token'' of None \<Rightarrow> None | Some q \<Rightarrow> Some
       (case DeployedContracts report_start ''Token'' of None \<Rightarrow> q | Some k \<Rightarrow>
          let n = (case OpcodeIndices report_start (hd (Addresses k)) of None \<Rightarrow> 0 | Some pcset \<Rightarrow> card pcset) in
          q(''covered'' \<mapsto> dec_nat n @ ''/'' @ dec_nat 2 @ '', '' @ dec_nat (100 * n div 2) @ ''%'')))" by auto
  moreover have "result b' ''Token'' = Some [''covered'' \<mapsto> ''1/2, 50%'']" unfolding res
    by (simp add: report_start_def Let_def report_digits report_digits(1) [simplified])
  ultimately show ?thesis by blast
qed

end
