(* ===== verification/Process.thy ===== *)
theory Process
  imports FuzzerResults CoverageReport
begin

text \<open>
  \<^verbatim>\<open>run\<close> and \<^verbatim>\<open>main\<close> of \<^verbatim>\<open>fuzzer.go\<close>: what the process does around the fuzzer, as the list of its
  events in their order, and how it ends.
\<close>

section \<open>Data\<close>

text \<open>
  The events: calls of the operating system and of the profiler, with the file they are given (\<open>None\<close> for a nil pointer), the
  level of the logger, and the texts of errors.
\<close>

datatype event =
    OsCreate string
  | StartCPUProfile "string option"
  | StopCPUProfile
  | SetHandler "64 word"
  | CollectGarbage
  | WriteHeapProfile "string option"
  | CloseFile "string option"
  | LogError string
  | PrintErr string

text \<open>
  The errors that these calls return, each the name of its type and its text: of creating a file, of starting the CPU
  profile, of writing the heap profile. And what \<^verbatim>\<open>app.Run\<close> makes of the arguments: an error, nothing more to do (the help text
  was printed), or a call of \<^verbatim>\<open>run\<close> with the values of the flags.
\<close>

type_synonym goError = "string \<times> string"

record osenv =
  createError :: "string \<Rightarrow> goError option"
  startError :: "string option \<Rightarrow> goError option"
  writeError :: "string option \<Rightarrow> goError option"
  parseArgs :: "string list \<Rightarrow> string + cliContext option"

text \<open>How a process ends.\<close>

datatype ending = Exited int | Panicked go_panic

section \<open>Operations\<close>

text \<open>
  \<^verbatim>\<open>fmt.Sprintf(text, err)\<close> with a text that has no verb: the argument is appended as an extra one.
\<close>

definition sprintfExtra :: "string \<Rightarrow> goError \<Rightarrow> string" where
  "sprintfExtra s err = s @ ''%!(EXTRA '' @ fst err @ ''='' @ snd err @ '')''"

definition logIf :: "string \<Rightarrow> goError option \<Rightarrow> event list" where
  "logIf s err = (case err of None \<Rightarrow> [] | Some e \<Rightarrow> [LogError (sprintfExtra s e)])"

text \<open>The file that \<^verbatim>\<open>os.Create\<close> returns: a nil pointer beside an error.\<close>

definition createdFile :: "osenv \<Rightarrow> string \<Rightarrow> string option" where
  "createdFile os name = (if createError os name = None then Some name else None)"

text \<open>The profiles are started and written also when their file could not be created.\<close>

definition startProfile :: "osenv \<Rightarrow> string \<Rightarrow> event list" where
  "startProfile os cpuprofile =
     (if cpuprofile \<noteq> [] then
        let f = createdFile os cpuprofile in
        [OsCreate cpuprofile] @ logIf ''could not create CPU profile: '' (createError os cpuprofile) @
        [StartCPUProfile f] @ logIf ''could not start CPU profile: '' (startError os f)
      else [])"

definition heapProfile :: "osenv \<Rightarrow> string \<Rightarrow> event list" where
  "heapProfile os memprofile =
     (if memprofile \<noteq> [] then
        let f = createdFile os memprofile in
        [OsCreate memprofile] @ logIf ''could not create memory profile: '' (createError os memprofile) @
        [CollectGarbage, WriteHeapProfile f] @ logIf ''could not write memory profile: '' (writeError os f) @ [CloseFile f]
      else [])"

text \<open>
  The deferred call runs when \<^verbatim>\<open>run\<close> returns and when it panics, not when the process exits within \<^verbatim>\<open>fuzz\<close>. Without
  an exit or a panic \<^verbatim>\<open>run\<close> returns nil, and so does \<^verbatim>\<open>app.Run\<close>.
\<close>

definition run ::
  "osenv \<Rightarrow> ('h, 's, 'e) chainenv_scheme \<Rightarrow> (bytes \<Rightarrow> 64 word list) \<Rightarrow> cliContext \<Rightarrow> ('h, 's, 'z) fuzzst_scheme \<Rightarrow>
   (event list \<times> ending) option" where
  "run os env decode ctx b =
     (let cpuprofile = GlobalString ctx (flagName cpuProfileFlag);
          memprofile = GlobalString ctx (flagName memProfileFlag);
          before = startProfile os cpuprofile @ [SetHandler (ContextInt ctx (flagName (logLevelFlag 0)))];
          deferred = (if cpuprofile \<noteq> [] then [StopCPUProfile] else []) in
      case fuzz env decode ctx b of
        None \<Rightarrow> None
      | Some (Inl p) \<Rightarrow> Some (before @ deferred, Panicked p)
      | Some (Inr (Exit n)) \<Rightarrow> Some (before, Exited n)
      | Some (Inr (Returned b)) \<Rightarrow> Some (before @ heapProfile os memprofile @ deferred, Exited 0))"

definition main ::
  "osenv \<Rightarrow> ('h, 's, 'e) chainenv_scheme \<Rightarrow> (bytes \<Rightarrow> 64 word list) \<Rightarrow> string list \<Rightarrow> ('h, 's, 'z) fuzzst_scheme \<Rightarrow>
   (event list \<times> ending) option" where
  "main os env decode args b =
     (case parseArgs os args of
        Inl err \<Rightarrow> Some ([PrintErr err], Exited 1)
      | Inr None \<Rightarrow> Some ([], Exited 0)
      | Inr (Some ctx) \<Rightarrow> run os env decode ctx b)"

section \<open>Lemmas\<close>

lemma logIf_events [simp]:
  "StopCPUProfile \<notin> set (logIf s e)" "StartCPUProfile f \<notin> set (logIf s e)" "WriteHeapProfile f \<notin> set (logIf s e)"
  by (cases e; simp add: logIf_def)+

lemma startProfile_events [simp]:
  "StopCPUProfile \<notin> set (startProfile os c)" "WriteHeapProfile f \<notin> set (startProfile os c)"
  "StartCPUProfile f \<in> set (startProfile os c) \<longleftrightarrow> c \<noteq> [] \<and> f = createdFile os c"
  by (auto simp: startProfile_def Let_def)

lemma heapProfile_events [simp]:
  "StopCPUProfile \<notin> set (heapProfile os c)" "StartCPUProfile f \<notin> set (heapProfile os c)"
  "WriteHeapProfile f \<in> set (heapProfile os c) \<longleftrightarrow> c \<noteq> [] \<and> f = createdFile os c"
  by (auto simp: heapProfile_def Let_def)

text \<open>A deferred call is the last event.\<close>

definition endingOf :: "'a outcome res \<Rightarrow> ending" where
  "endingOf out = (case out of Inl p \<Rightarrow> Panicked p | Inr (Exit n) \<Rightarrow> Exited n | Inr (Returned b) \<Rightarrow> Exited 0)"

definition exits :: "'a outcome res \<Rightarrow> bool" where
  "exits out \<longleftrightarrow> (case out of Inr (Exit n) \<Rightarrow> True | _ \<Rightarrow> False)"

definition finishes :: "'a outcome res \<Rightarrow> bool" where
  "finishes out \<longleftrightarrow> (case out of Inr (Returned b) \<Rightarrow> True | _ \<Rightarrow> False)"

lemma run_events:
  assumes "fuzz env decode ctx b = Some out"
  shows "run os env decode ctx b = Some
    (startProfile os (GlobalString ctx ''cpuprofile'') @ [SetHandler (ContextInt ctx ''loglevel'')] @
     (if finishes out then heapProfile os (GlobalString ctx ''memprofile'') else []) @
     (if GlobalString ctx ''cpuprofile'' \<noteq> [] \<and> \<not> exits out then [StopCPUProfile] else []), endingOf out)"
proof -
  have names: "flagName cpuProfileFlag = ''cpuprofile''" "flagName memProfileFlag = ''memprofile''" "flagName (logLevelFlag 0) = ''loglevel''"
    by (simp_all add: cpuProfileFlag_def memProfileFlag_def logLevelFlag_def)
  show ?thesis unfolding run_def names assms Let_def endingOf_def exits_def finishes_def
    by (simp split: sum.split outcome.split)
qed

text \<open>The fuzzer ends, whatever the flags are.\<close>

lemma fuzz_some:
  fixes b0 :: "('h, 's, 'z) fuzzst_scheme"
  assumes "range_ok env" and "project_ok env" and "eth_ok env" and "fresh_start env b0"
    and "\<forall>flags b c k. getCLFlags ctx = Returned flags \<longrightarrow> NewBackend env (flMetadata flags) b0 = Inr (Returned b) \<longrightarrow>
      DeployedContracts b c = Some k \<longrightarrow> c \<noteq> ''Migrations'' \<longrightarrow> Methods k \<noteq> []"
  shows "\<exists>out. fuzz env decode ctx b0 = Some out"
proof (cases "getCLFlags ctx")
  case (Exit n)
  then show ?thesis by (simp add: fuzz_def)
next
  case (Returned flags)
  have "\<forall>b c k. NewBackend env (flMetadata flags) b0 = Inr (Returned b) \<longrightarrow> DeployedContracts b c = Some k \<longrightarrow>
      c \<noteq> ''Migrations'' \<longrightarrow> Methods k \<noteq> []" using assms(5) Returned by blast
  from fuzz_ends [OF Returned assms(1-4) this, of decode] show ?thesis
    by (cases "NewBackend env (flMetadata flags) b0") (auto split: outcome.splits)
qed

section \<open>Property\<close>

text \<open>
  C24: The process ends, for every command line that \<^verbatim>\<open>app.Run\<close> accepts, whatever the contracts do: with the fuzzer's exit code,
  its panic (also that of a trace that makes the scan panic), or 0.
  A profile asked for is started and, when the fuzzer finishes, written, with a nil file when the file could not be
  created. The CPU profile is stopped, as the last event, when the fuzzer finishes or panics; when it exits (without metadata, or without a contract to
  fuzz) the deferred call is skipped and the profile never completed. The heap profile is written only when the fuzzer finishes.
\<close>

theorem process_ends:
  fixes b0 :: "('h, 's, 'z) fuzzst_scheme"
  assumes "range_ok env" and "project_ok env" and "eth_ok env" and "fresh_start env b0"
    and "\<forall>flags b c k. getCLFlags ctx = Returned flags \<longrightarrow> NewBackend env (flMetadata flags) b0 = Inr (Returned b) \<longrightarrow>
      DeployedContracts b c = Some k \<longrightarrow> c \<noteq> ''Migrations'' \<longrightarrow> Methods k \<noteq> []"
    and "parseArgs os args = Inr (Some ctx)"
  shows "\<exists>out es. fuzz env decode ctx b0 = Some out \<and>
    main os env decode args b0 = Some (es, case out of Inl p \<Rightarrow> Panicked p | Inr (Exit n) \<Rightarrow> Exited n | Inr (Returned b) \<Rightarrow> Exited 0) \<and>
    (let cpu = GlobalString ctx ''cpuprofile''; mem = GlobalString ctx ''memprofile'';
         file = (\<lambda>name. if createError os name = None then Some name else None) in
     (\<forall>f. StartCPUProfile f \<in> set es \<longleftrightarrow> cpu \<noteq> [] \<and> f = file cpu) \<and>
     (StopCPUProfile \<in> set es \<longleftrightarrow> cpu \<noteq> [] \<and> (\<forall>n. out \<noteq> Inr (Exit n))) \<and>
     (StopCPUProfile \<in> set es \<longrightarrow> last es = StopCPUProfile) \<and>
     (\<forall>f. WriteHeapProfile f \<in> set es \<longleftrightarrow> mem \<noteq> [] \<and> (\<exists>b. out = Inr (Returned b)) \<and> f = file mem))"
proof -
  obtain out where out: "fuzz env decode ctx b0 = Some out" using fuzz_some [OF assms(1-5)] by blast
  have "main os env decode args b0 = run os env decode ctx b0" by (simp add: main_def assms(6))
  moreover have "exits out \<longleftrightarrow> (\<exists>n. out = Inr (Exit n))" "finishes out \<longleftrightarrow> (\<exists>b. out = Inr (Returned b))"
    by (auto simp: exits_def finishes_def split: sum.splits outcome.splits)
  ultimately show ?thesis
    unfolding Let_def createdFile_def [symmetric] endingOf_def [symmetric] using out run_events [OF out, of os]
    by (intro exI conjI) (assumption | simp | auto)+
qed

section \<open>Witness\<close>

text \<open>The example project, with a CPU profile and a heap profile: the process starts up, fuzzes and finishes.\<close>

definition profile_args :: cliArgs where
  "profile_args = \<lparr>intArgs = Map.empty,
     stringArgs = [''metadata'' \<mapsto> ''m'', ''cpuprofile'' \<mapsto> ''cpu.prof'', ''memprofile'' \<mapsto> ''mem.prof''], boolArgs = Map.empty\<rparr>"

definition profile_context :: cliContext where
  "profile_context = \<lparr>GlobalString = \<lambda>n. stringValue profile_args n (appFlags 3), GlobalInt = \<lambda>n. intValue profile_args n (appFlags 3),
     GlobalBool = \<lambda>n. boolValue profile_args n (appFlags 3), ContextInt = \<lambda>n. intValue profile_args n (appFlags 3)\<rparr>"

definition profile_os :: osenv where
  "profile_os = \<lparr>createError = \<lambda>_. None, startError = \<lambda>_. None, writeError = \<lambda>_. None, parseArgs = \<lambda>_. Inr (Some profile_context)\<rparr>"

lemma profile_flags: "\<exists>flags. getCLFlags profile_context = Returned flags \<and> flMetadata flags = ''m''"
  "GlobalString profile_context ''cpuprofile'' = ''cpu.prof''" "GlobalString profile_context ''memprofile'' = ''mem.prof''"
  by (simp_all add: getCLFlags_def profile_context_def profile_args_def appFlags_def metadataFileFlag_def contractFlag_def limitFlag_def
      optimizationsFlag_def interactiveModeFlag_def logLevelFlag_def cpuProfileFlag_def memProfileFlag_def Let_def)

lemma profile_report:
  fixes b :: "(nat \<Rightarrow> nat, nat) fuzzst"
  assumes "DeployedContracts b = [''Token'' \<mapsto> \<lparr>Addresses = [a], Methods = [''mint'']\<rparr>]"
    and "metadataJSONMap b = [''m'' \<mapsto> example_meta]" and "DeployedBytecodes b = None"
  shows "\<exists>b'. reportCoverage deploy_env (\<lambda>bs. map (\<lambda>i. of_nat i) [0..<length bs]) ''m'' b = Inr b'"
proof -
  let ?decode = "\<lambda>bs::bytes. map (\<lambda>i. of_nat i :: 64 word) [0..<length bs]"
  let ?codes = "[''Token'' \<mapsto> token_code, ''SafeMath'' \<mapsto> ''6002'']"
  have codes: "ReadDeployedBytecodes deploy_env ''m'' b = Inr (?codes, b)" using assms
    by (simp add: ReadDeployedBytecodes_def getTruffleDir_def getMeta_def buildFiles_def contractFile_def example_meta_def
        token_artifact_def safemath_artifact_def slice_def getFilename_examples)
  have "finite (dom (DeployedContracts b))" "\<forall>k \<in> ran (DeployedContracts b). Addresses k \<noteq> []"
    "\<forall>c \<in> dom (DeployedContracts b). result b c \<noteq> None \<longrightarrow> counted ?decode ?codes (\<lambda>c. 2) c"
    by (simp_all add: assms(1) counted_def token_indices del: upt_Suc)
  from reportCoverage_loop [where b = b, OF deploy_env_ok(1) this(1,2) codes assms(3) this(3)] show ?thesis by blast
qed

lemma profile_fuzz:
  "\<exists>b. fuzz deploy_env (\<lambda>bs. map (\<lambda>i. of_nat i) [0..<length bs]) profile_context example_start = Some (Inr (Returned b))"
proof -
  obtain flags where flags: "getCLFlags profile_context = Returned flags" "flMetadata flags = ''m''" using profile_flags(1) by blast
  obtain b a where b: "NewBackend deploy_env ''m'' example_start = Inr (Returned b)"
    "DeployedContracts b = [''Token'' \<mapsto> \<lparr>Addresses = [a], Methods = [''mint'']\<rparr>]" "metadataJSONMap b = [''m'' \<mapsto> example_meta]"
    "DeployedBytecodes b = None" using example_startup by blast
  have "\<forall>u c k. NewBackend deploy_env (flMetadata flags) example_start = Inr (Returned u) \<longrightarrow> DeployedContracts u c = Some k \<longrightarrow>
      c \<noteq> ''Migrations'' \<longrightarrow> Methods k \<noteq> []" using b flags(2) by simp
  from fuzz_ends [OF flags(1) deploy_env_ok(1,3,2) example_start_fresh this, of "\<lambda>bs. map (\<lambda>i. of_nat i) [0..<length bs]"] obtain b' where
    b': "DeployedContracts b' = DeployedContracts b" "metadataJSONMap b' = metadataJSONMap b" "DeployedBytecodes b' = DeployedBytecodes b"
      "fuzz deploy_env (\<lambda>bs. map (\<lambda>i. of_nat i) [0..<length bs]) profile_context example_start =
        Some (bindR (reportCoverage deploy_env (\<lambda>bs. map (\<lambda>i. of_nat i) [0..<length bs]) ''m'' b') (\<lambda>b. Inr (Returned b)))"
    using b(1) flags(2) deploy_env_ok(4) by auto
  from profile_report [of b'] obtain c where "reportCoverage deploy_env (\<lambda>bs. map (\<lambda>i. of_nat i) [0..<length bs]) ''m'' b' = Inr c"
    using b(2-4) b'(1-3) by auto
  then show ?thesis using b'(4) by simp
qed

theorem process_ends_witness:
  "\<exists>es. main profile_os deploy_env (\<lambda>bs. map (\<lambda>i. of_nat i) [0..<length bs]) [''--metadata'', ''m''] example_start = Some (es, Exited 0) \<and>
     StartCPUProfile (Some ''cpu.prof'') \<in> set es \<and> last es = StopCPUProfile \<and> WriteHeapProfile (Some ''mem.prof'') \<in> set es"
proof -
  let ?decode = "\<lambda>bs::bytes. map (\<lambda>i. of_nat i :: 64 word) [0..<length bs]"
  obtain b where out: "fuzz deploy_env ?decode profile_context example_start = Some (Inr (Returned b))" using profile_fuzz by blast
  obtain u a where u: "NewBackend deploy_env ''m'' example_start = Inr (Returned u)"
    "DeployedContracts u = [''Token'' \<mapsto> \<lparr>Addresses = [a], Methods = [''mint'']\<rparr>]" using example_startup by blast
  have "\<forall>flags b c k. getCLFlags profile_context = Returned flags \<longrightarrow>
      NewBackend deploy_env (flMetadata flags) example_start = Inr (Returned b) \<longrightarrow> DeployedContracts b c = Some k \<longrightarrow>
      c \<noteq> ''Migrations'' \<longrightarrow> Methods k \<noteq> []" using profile_flags(1) u by (auto split: if_splits)
  moreover have "parseArgs profile_os [''--metadata'', ''m''] = Inr (Some profile_context)" by (simp add: profile_os_def)
  ultimately obtain es where
    "main profile_os deploy_env ?decode [''--metadata'', ''m''] example_start = Some (es, Exited 0)"
    "StartCPUProfile (Some ''cpu.prof'') \<in> set es" "StopCPUProfile \<in> set es" "last es = StopCPUProfile"
    "WriteHeapProfile (Some ''mem.prof'') \<in> set es"
    using process_ends [OF deploy_env_ok(1,3,2) example_start_fresh, of profile_context profile_os "[''--metadata'', ''m'']" ?decode]
    by (auto simp: out profile_flags(2,3) Let_def profile_os_def)
  then show ?thesis by blast
qed

end
