(* ===== verification/InitContent.thy ===== *)
theory InitContent
  imports InitPools
begin

text \<open>
  The content of the pools after \<^verbatim>\<open>InitArgPool\<close>, exactly: the random words as the random source gives
  them, the values behind the pointers of the big-integer pool, and the addresses.
\<close>

section \<open>The random words\<close>

text \<open>The \<open>n\<close>-th word takes 32 numbers of the random source, each modulo 256.\<close>

definition random_word :: "rng \<Rightarrow> nat \<Rightarrow> 8 word list" where
  "random_word r n = map (\<lambda>i. word_of_nat (r (32 * n + i) mod 2 ^ 63 mod 256)) [0..<32]"

lemma rand_bytes:
  "repeatR n rand_byte st =
     Inr (map (\<lambda>i. word_of_nat (rnd st i mod 2 ^ 63 mod 256)) [0..<n], st\<lparr>rnd := \<lambda>k. rnd st (k + n)\<rparr>)"
proof (induction n arbitrary: st)
  case 0
  then show ?case by simp
next
  case (Suc n)
  have byte: "rand_byte st = Inr (word_of_nat (rnd st 0 mod 2 ^ 63 mod 256), st\<lparr>rnd := \<lambda>k. rnd st (Suc k)\<rparr>)"
    by (simp add: rand_byte_def draw_Int_def rand_Int_def)
  have "map f [0..<Suc n] = f 0 # map (\<lambda>i. f (Suc i)) [0..<n]" for f :: "nat \<Rightarrow> 8 word"
    by (simp add: upt_conv_Cons map_Suc_upt [symmetric] del: map_Suc_upt upt_Suc)
  then show ?case unfolding repeatR.simps byte bindR_simps prod.case Suc.IH by (simp del: upt_Suc)
qed

lemma initBytes_exact:
  "initBytes st = Inr (st\<lparr>rnd := \<lambda>k. rnd st (k + 320),
     Bytes32Pool := fold ring_offer (map (random_word (rnd st)) [0..<10]) (Bytes32Pool st)\<rparr>)"
proof -
  let ?body = "\<lambda>(_ :: nat) st. bindR (repeatR 32 rand_byte st) (\<lambda>(b, st'). Inr (ArgPool_AddBytes32 b st'))"
  have "foldR ?body [0..<n] st = Inr (st\<lparr>rnd := \<lambda>k. rnd st (k + 32 * n),
     Bytes32Pool := fold ring_offer (map (random_word (rnd st)) [0..<n]) (Bytes32Pool st)\<rparr>)" for n
  proof (induction n)
    case 0
    then show ?case by simp
  next
    case (Suc n)
    let ?u = "st\<lparr>rnd := \<lambda>k. rnd st (k + 32 * n),
      Bytes32Pool := fold ring_offer (map (random_word (rnd st)) [0..<n]) (Bytes32Pool st)\<rparr>"
    have "map (\<lambda>i. word_of_nat (rnd ?u i mod 2 ^ 63 mod 256)) [0..<32] = random_word (rnd st) n"
      by (simp add: random_word_def add.commute)
    then have "?body n ?u = Inr (ArgPool_AddBytes32 (random_word (rnd st) n) (?u\<lparr>rnd := \<lambda>k. rnd st (k + 32 * Suc n)\<rparr>))"
      unfolding rand_bytes [of 32 ?u] by (simp add: algebra_simps)
    then show ?case using Suc.IH by (simp add: foldR_append add_offer)
  qed
  from this [of 10] show ?thesis unfolding initBytes_def by simp
qed

section \<open>The big integers and addresses\<close>

text \<open>A number that has a pointer already, as the amount of an account.\<close>

lemma big_vals_offer:
  assumes "big_vals vs A" and "big_get (bigs A) n = Inr v"
  shows "\<exists>B. ArgPool_AddBigInt fa n A = Inr B \<and> big_vals (if v \<in> set vs then vs else vs @ [v]) B"
proof -
  obtain p ptrs where p: "pools A (BigIntPool A) = Some p" "p_storage p = map IBigInt ptrs"
      "map (big_get (bigs A)) ptrs = map Inr vs" "p_storageMap p = dec_int ` set vs"
    using assms(1) by (auto simp: big_vals_def)
  have key: "big_sprint (bigs A) n = dec_int v" using assms(2) by (simp add: big_sprint_def)
  have known: "dec_int v \<in> p_storageMap p \<longleftrightarrow> v \<in> set vs" unfolding p(4) by auto
  note add = ArgPool_AddBigInt_offer [OF p(1), of fa n]
  show ?thesis
  proof (cases "v \<in> set vs")
    case True
    then show ?thesis using assms(1) add known key p(1)
      by (simp add: offer_def ring_Contains_def set_pool_same)
  next
    case False
    let ?q = "p\<lparr>p_storage := map IBigInt (ptrs @ [n]), p_storageMap := insert (dec_int v) (p_storageMap p)\<rparr>"
    have B: "ArgPool_AddBigInt fa n A = Inr (set_pool (BigIntPool A) ?q A)"
      using add False known key p(2) by (simp add: offer_def ring_Contains_def ring_Add_def)
    have "big_vals (vs @ [v]) (set_pool (BigIntPool A) ?q A)"
      unfolding big_vals_def using p(3,4) assms(2)
      by (intro exI [of _ ?q] exI [of _ "ptrs @ [n]"]) (simp add: set_pool_def)
    with B False show ?thesis by simp
  qed
qed

lemma big_vals_AddAddress:
  assumes "arg_inv fa A" and "ArgPool_AddAddress fa a A = Inr B"
  shows "big_vals vs B = big_vals vs A"
proof -
  obtain p where p: "pools A (AddressPool A) = Some p" and ne: "AddressPool A \<noteq> BigIntPool A"
    using assms(1) by (auto simp: arg_inv_def)
  have "pools B (BigIntPool B) = pools A (BigIntPool A) \<and> bigs B = bigs A"
    using assms(2) ne ArgPool_AddAddress_offer [OF p, of fa a] by (auto simp: set_pool_def)
  then show ?thesis by (simp add: big_vals_def)
qed

lemma AddAddress_exact:
  assumes "arg_inv fa A" and "ArgPool_AddAddress fa a A = Inr B"
  shows "fa ` set (addresses B) = insert (fa a) (fa ` set (addresses A))"
proof -
  obtain p where p: "pools A (AddressPool A) = Some p" using assms(1) by (auto simp: arg_inv_def)
  have "set (addresses B) \<subseteq> insert a (set (addresses A))"
    using assms(2) p by (auto simp: ArgPool_AddAddress_def pool_at_def ring_Add_def addresses_def set_pool_def Let_def split: if_splits)
  with AddAddress_grows [OF assms] show ?thesis by blast
qed

text \<open>The values that the pointers of the pool reach.\<close>

definition pooled_values :: "'z argst_scheme \<Rightarrow> int set" where
  "pooled_values A = {v. \<exists>z \<in> set (bigptrs A). big_get (bigs A) z = Inr v}"

lemma big_vals_pooled:
  assumes "big_vals vs A"
  shows "pooled_values A = set vs"
proof -
  obtain p ptrs where p: "pools A (BigIntPool A) = Some p" "p_storage p = map IBigInt ptrs"
      "map (big_get (bigs A)) ptrs = map Inr vs" using assms by (auto simp: big_vals_def)
  have ptrs: "bigptrs A = ptrs" using p(1,2) by (simp add: bigptrs_def comp_def)
  have im: "big_get (bigs A) ` set ptrs = Inr ` set vs" using arg_cong [OF p(3), of set] by simp
  have "(\<exists>z \<in> set ptrs. big_get (bigs A) z = Inr v) \<longleftrightarrow> Inr v \<in> big_get (bigs A) ` set ptrs" for v
    unfolding image_iff by (simp add: eq_commute)
  then have "(\<exists>z \<in> set ptrs. big_get (bigs A) z = Inr v) \<longleftrightarrow> v \<in> set vs" for v
    unfolding im by auto
  then show ?thesis by (simp add: pooled_values_def ptrs)
qed

lemma initAccounts_exact:
  assumes "arg_inv fa A" and "big_vals vs A" and "\<forall>(a, p) \<in> set accs. \<exists>v. big_get (bigs A) p = Inr v"
    and "initAccounts fa accs A = Inr B"
  shows "(\<exists>ws. big_vals ws B \<and> set ws = set vs \<union> {v. \<exists>(a, p) \<in> set accs. big_get (bigs A) p = Inr v}) \<and>
    fa ` set (addresses B) = fa ` (set (addresses A) \<union> fst ` set accs) \<and> (\<exists>f. B = A\<lparr>pools := f\<rparr>)"
  using assms
proof (induction accs arbitrary: A vs)
  case Nil
  then have "B = A" by (simp add: initAccounts_def)
  then show ?case using Nil by (intro conjI exI [of _ vs] exI [of _ "pools A"]) simp_all
next
  case (Cons x accs)
  obtain a n where x: "x = (a, n)" by fastforce
  obtain U V where U: "ArgPool_AddAddress fa a A = Inr U" and V: "ArgPool_AddBigInt fa n U = Inr V"
    and B: "initAccounts fa accs V = Inr B" using Cons.prems(4) by (auto simp: initAccounts_def x elim!: bindR_InrE)
  obtain f g where fg: "U = A\<lparr>pools := f\<rparr>" "V = U\<lparr>pools := g\<rparr>"
    using AddAddress_pools [OF U] AddBigInt_pools [OF V] by blast
  have invU: "arg_inv fa U" using ArgPool_AddAddress_total [OF Cons.prems(1), of a] U by auto
  have invV: "arg_inv fa V" using ArgPool_AddBigInt_total [OF invU, of n] V by auto
  obtain v where v: "big_get (bigs A) n = Inr v" using Cons.prems(3) by (auto simp: x)
  let ?vs = "if v \<in> set vs then vs else vs @ [v]"
  have vals: "big_vals ?vs V" using big_vals_offer [of vs U n v fa] big_vals_AddAddress [OF Cons.prems(1) U] Cons.prems(2) v V fg(1) by auto
  have nums: "\<forall>(a, p) \<in> set accs. \<exists>v. big_get (bigs V) p = Inr v" using Cons.prems(3) by (simp add: fg)
  from Cons.IH [OF invV vals nums B] obtain ws h where ws: "big_vals ws B" "set ws = set ?vs \<union> {v. \<exists>(a, p) \<in> set accs. big_get (bigs V) p = Inr v}"
    "fa ` set (addresses B) = fa ` (set (addresses V) \<union> fst ` set accs)" "B = V\<lparr>pools := h\<rparr>"
    by (elim conjE exE) (rule that)
  have "set ws = set vs \<union> {v. \<exists>(a, p) \<in> set (x # accs). big_get (bigs A) p = Inr v}"
    using ws(2) v by (auto simp: x fg)
  moreover have "fa ` set (addresses B) = fa ` (set (addresses A) \<union> fst ` set (x # accs))"
    using ws(3) AddAddress_exact [OF Cons.prems(1) U] AddBigInt_grows [OF invU V] by (auto simp: x image_Un)
  ultimately show ?case using ws(1,4) by (auto simp: fg)
qed

section \<open>The whole content\<close>

lemma initPow_addresses:
  assumes "arg_inv fa b" and "initPow fa b = Inr b'"
  shows "arg_inv fa b' \<and> addresses b' = addresses b \<and> Bytes32Pool b' = Bytes32Pool b \<and> TimestampPool b' = TimestampPool b"
  using assms(2) unfolding initPow_foldR
proof (rule foldR_invariant [where P = "\<lambda>u. arg_inv fa u \<and> addresses u = addresses b \<and> Bytes32Pool u = Bytes32Pool b \<and>
    TimestampPool u = TimestampPool b"])
  fix i u u' assume u: "arg_inv fa u \<and> addresses u = addresses b \<and> Bytes32Pool u = Bytes32Pool b \<and> TimestampPool u = TimestampPool b"
    and step: "initPow_body fa i u = Inr u'"
  define v where "v = (if i \<le> 32767 then ArgPool_AddInt16 (word_of_int i) (if i \<le> 2147483647 then ArgPool_AddInt32 (word_of_int i) u else u)
    else (if i \<le> 2147483647 then ArgPool_AddInt32 (word_of_int i) u else u))"
  have v: "arg_inv fa v" "addresses v = addresses u" "Bytes32Pool v = Bytes32Pool u" "TimestampPool v = TimestampPool u"
    using u by (simp_all add: v_def arg_inv_adds) (simp_all add: add_offer addresses_def)
  obtain p h where p: "big_new i (bigs v) = (p, h)" by fastforce
  obtain w where w: "ArgPool_AddBigInt fa p (v\<lparr>bigs := h\<rparr>) = Inr w" "u' = ArgPool_AddInt64 (word_of_int i) w"
    using step unfolding initPow_body_def Let_def v_def [symmetric] p prod.case by (auto elim!: bindR_InrE)
  have inv: "arg_inv fa (v\<lparr>bigs := h\<rparr>)" using v(1) by simp
  obtain f where f: "w = v\<lparr>bigs := h, pools := f\<rparr>" using AddBigInt_pools [OF w(1)] by auto
  have "addresses w = addresses u" using AddBigInt_grows [OF inv w(1)] v(2) by (simp add: addresses_def)
  moreover have "arg_inv fa w" using ArgPool_AddBigInt_total [OF inv, of p] w(1) by auto
  moreover have "Bytes32Pool w = Bytes32Pool u" "TimestampPool w = TimestampPool u" using v(3,4) by (simp_all add: f)
  ultimately show "arg_inv fa u' \<and> addresses u' = addresses b \<and> Bytes32Pool u' = Bytes32Pool b \<and> TimestampPool u' = TimestampPool b"
    using u unfolding w(2) by (simp add: arg_inv_adds) (simp add: add_offer addresses_def)
qed (use assms(1) in simp)

text \<open>All stages, for a big-integer pool that is fresh and accounts whose amounts are numbers.\<close>

lemma InitArgPool_exact:
  fixes st :: "'z genst_scheme"
  assumes "arg_inv fa st" and "pools st (BigIntPool st) = Some ring_new" and "\<forall>(a, p) \<in> set accs. \<exists>v. big_get (bigs st) p = Inr v"
    and "InitArgPool fa accs st = Inr st'"
  shows "Bytes32Pool st' = fold ring_offer (map (random_word (rnd st)) [0..<10]) (Bytes32Pool st) \<and> TimestampPool st' = TimestampPool st \<and>
    pooled_values st' = insert 0 ((\<lambda>k. 2 ^ k) ` {0..<60}) \<union> {v. \<exists>(a, p) \<in> set accs. big_get (bigs st) p = Inr v} \<and>
    fa ` set (addresses st') = fa ` (set (addresses st) \<union> fst ` set accs)"
proof -
  obtain z h where z: "big_new 0 (bigs st) = (z, h)" by (cases "big_new 0 (bigs st)")
  obtain A B C where steps: "ArgPool_AddBigInt fa z (st\<lparr>bigs := h\<rparr>) = Inr A" "initPow fa (ArgPool_AddInt64 (- 1) A) = Inr B"
    "initBytes B = Inr C" "initAccounts fa accs (initSmall (ArgPool_AddString ''ChainSecurity'' C)) = Inr st'"
    using assms(4) z by (auto simp: InitArgPool_def elim!: bindR_InrE)
  let ?S = "initSmall (ArgPool_AddString ''ChainSecurity'' C)"
  have inv0: "arg_inv fa (st\<lparr>bigs := h\<rparr>)" using assms(1) by simp
  obtain f where f: "A = st\<lparr>bigs := h, pools := f\<rparr>" using AddBigInt_pools [OF steps(1)] by auto
  have invA: "arg_inv fa A" using ArgPool_AddBigInt_total [OF inv0, of z] steps(1) by auto
  have "big_vals [] st" unfolding big_vals_def using assms(2)
    by (intro exI [of _ ring_new] exI [of _ "[]"]) (simp add: ring_new_def)
  from big_vals_add [OF this, of fa 0] steps(1) z have valA: "big_vals [0] A" by auto
  have addrA: "addresses A = addresses st" using AddBigInt_grows [OF inv0 steps(1)] by (simp add: addresses_def)
  have inv64: "arg_inv fa (ArgPool_AddInt64 (- 1) A)" using invA by (rule arg_inv_adds(4))
  note B = initPow_addresses [OF inv64 steps(2)]
  have valB: "big_vals (0 # map (\<lambda>k. 2 ^ k) [0..<60]) B" using initPow_vals [OF _ steps(2)] valA by simp
  have growB: "argst.more B = argst.more (ArgPool_AddInt64 (- 1) A)" "\<exists>k. bigs B = bigs (ArgPool_AddInt64 (- 1) A) @ k"
    using initPow_grows [OF steps(2)] by (simp_all add: grows_def)
  have more: "rnd u = rnd w" if "argst.more u = argst.more w" for u w :: "'z genst_scheme"
    using that by (cases u; cases w) simp
  have rndB: "rnd B = rnd st" using more [OF growB(1)] by (simp add: add_offer f)
  have C: "C = B\<lparr>rnd := \<lambda>k. rnd B (k + 320), Bytes32Pool := fold ring_offer (map (random_word (rnd B)) [0..<10]) (Bytes32Pool B)\<rparr>"
    using steps(3) unfolding initBytes_exact by simp
  have invC: "arg_inv fa C" using initBytes_total [OF conjunct1 [OF B]] steps(3) by auto
  have small: "Bytes32Pool (initSmall u) = Bytes32Pool u \<and> TimestampPool (initSmall u) = TimestampPool u \<and>
      pools (initSmall u) = pools u \<and> BigIntPool (initSmall u) = BigIntPool u" for u :: "'z genst_scheme"
    unfolding initSmall_def by (rule fold_invariant [where P = "\<lambda>w. Bytes32Pool w = Bytes32Pool u \<and>
      TimestampPool w = TimestampPool u \<and> pools w = pools u \<and> BigIntPool w = BigIntPool u"]) (simp_all add: add_offer)
  have invS: "arg_inv fa ?S" using invC by (intro initSmall_inv arg_inv_adds(6))
  have bigsS: "bigs ?S = bigs B" unfolding initSmall_frame [THEN conjunct1] by (simp add: C)
  have poolsS: "pools ?S = pools B" "BigIntPool ?S = BigIntPool B" by (simp_all add: small C add_offer)
  have valS: "big_vals (0 # map (\<lambda>k. 2 ^ k) [0..<60]) ?S"
    by (rule big_vals_cong [THEN iffD1, OF poolsS(1) [symmetric] poolsS(2) [symmetric] bigsS [symmetric] valB])
  have h: "h = bigs st @ [0]" using z by (simp add: big_new_def)
  have "bigs (ArgPool_AddInt64 (- 1) A) = bigs st @ [0]" by (simp add: add_offer f h)
  then obtain k where k: "bigs ?S = bigs st @ ([0] @ k)" using growB(2) bigsS by auto
  have old: "big_get (bigs ?S) p = big_get (bigs st) p" if acc: "(a, p) \<in> set accs" for a p
  proof -
    obtain v where "big_get (bigs st) p = Inr v" using assms(3) acc by auto
    then show ?thesis unfolding k using big_get_append by auto
  qed
  then have "\<forall>(a, p) \<in> set accs. \<exists>v. big_get (bigs ?S) p = Inr v" using assms(3) by fastforce
  from initAccounts_exact [OF invS valS this steps(4)] obtain ws g where
    F: "big_vals ws st'" "set ws = set (0 # map (\<lambda>k. 2 ^ k) [0..<60]) \<union> {v. \<exists>(a, p) \<in> set accs. big_get (bigs ?S) p = Inr v}"
      "fa ` set (addresses st') = fa ` (set (addresses ?S) \<union> fst ` set accs)" "st' = ?S\<lparr>pools := g\<rparr>"
    by (elim conjE exE) (rule that)
  have "{v. \<exists>(a, p) \<in> set accs. big_get (bigs ?S) p = Inr v} = {v. \<exists>(a, p) \<in> set accs. big_get (bigs st) p = Inr v}"
    using old by fastforce
  then have "pooled_values st' = insert 0 ((\<lambda>k. 2 ^ k) ` {0..<60}) \<union> {v. \<exists>(a, p) \<in> set accs. big_get (bigs st) p = Inr v}"
    using big_vals_pooled [OF F(1)] F(2) by simp
  moreover have "addresses ?S = addresses st"
    using B addrA by (simp add: initSmall_frame add_offer C) (simp add: addresses_def add_offer)
  moreover have "Bytes32Pool st' = Bytes32Pool ?S" "TimestampPool st' = TimestampPool ?S" using arg_cong [OF F(4), of Bytes32Pool]
      arg_cong [OF F(4), of TimestampPool] by simp_all
  then have "Bytes32Pool st' = fold ring_offer (map (random_word (rnd st)) [0..<10]) (Bytes32Pool st)" "TimestampPool st' = TimestampPool st"
    using B by (simp_all add: small add_offer C rndB f del: fold_simps upt_Suc)
  ultimately show ?thesis using F(3) by simp
qed

section \<open>Property\<close>

text \<open>
  C25: Initialisation from pools whose big-integer pool is fresh succeeds and leaves exactly this content, besides what the pools held: all 256
  values in the 8-bit pool; in each wider pool every value from 0 to 255 and the powers of two that fit (up to \<open>2 ^ 59\<close>, the last below
  1E18), and \<open>-1\<close> in the 64-bit pool; ten words of 32 bytes, each from 32 numbers of the random source; the
  dummy string; pointers to big integers with the values 0, \<open>2 ^ 0\<close> to \<open>2 ^ 59\<close> and the amounts of the accounts, and no other; the accounts'
  addresses (as \<^verbatim>\<open>fmt\<close> tells addresses apart); and no timestamp.
\<close>

theorem init_arg_pool_content:
  fixes st :: "'z genst_scheme"
  assumes "arg_inv fa st" and "pools st (BigIntPool st) = Some ring_new"
    and "\<forall>(a, p) \<in> set accs. \<exists>v. big_get (bigs st) p = Inr v"
  shows "\<exists>st'. InitArgPool fa accs st = Inr st' \<and> arg_inv fa st' \<and>
    set (p_storage (Int8Pool st')) = UNIV \<and>
    set (p_storage (Int16Pool st')) =
      set (p_storage (Int16Pool st)) \<union> {w. unat w < 256} \<union> (\<lambda>k. 2 ^ k) ` {0..<15} \<and>
    set (p_storage (Int32Pool st')) =
      set (p_storage (Int32Pool st)) \<union> {w. unat w < 256} \<union> (\<lambda>k. 2 ^ k) ` {0..<31} \<and>
    set (p_storage (Int64Pool st')) =
      set (p_storage (Int64Pool st)) \<union> {- 1} \<union> {w. unat w < 256} \<union> (\<lambda>k. 2 ^ k) ` {0..<60} \<and>
    set (p_storage (Bytes32Pool st')) = set (p_storage (Bytes32Pool st)) \<union>
      (\<lambda>n. map (\<lambda>i. word_of_nat (rnd st (32 * n + i) mod 2 ^ 63 mod 256)) [0..<32]) ` {0..<10} \<and>
    set (p_storage (StringPool st')) = insert ''ChainSecurity'' (set (p_storage (StringPool st))) \<and>
    TimestampPool st' = TimestampPool st \<and>
    {v. \<exists>z \<in> set (bigptrs st'). big_get (bigs st') z = Inr v} =
      insert 0 ((\<lambda>k. 2 ^ k) ` {0..<60}) \<union> {v. \<exists>(a, p) \<in> set accs. big_get (bigs st) p = Inr v} \<and>
    fa ` set (addresses st') = fa ` (set (addresses st) \<union> fst ` set accs)"
proof -
  note ok = assms(1) [unfolded arg_inv_def]
  obtain st' where st': "InitArgPool fa accs st = Inr st'" "arg_inv fa st'"
    "Int8Pool st' = fold ring_offer (map word_of_nat [0..<256]) (Int8Pool st)"
    "Int16Pool st' = fold ring_offer (map (\<lambda>k. 2 ^ k) [0..<15] @ map word_of_nat [0..<256]) (Int16Pool st)"
    "Int32Pool st' = fold ring_offer (map (\<lambda>k. 2 ^ k) [0..<31] @ map word_of_nat [0..<256]) (Int32Pool st)"
    "Int64Pool st' = fold ring_offer ((- 1) # map (\<lambda>k. 2 ^ k) [0..<60] @ map word_of_nat [0..<256]) (Int64Pool st)"
    "StringPool st' = ring_offer ''ChainSecurity'' (StringPool st)"
    using InitArgPool_result [OF assms(1,2), of accs] by blast
  note exact = InitArgPool_exact [OF assms st'(1)]
  have 8: "set (p_storage (Int8Pool st')) = UNIV"
    unfolding st'(3) using ok word_small [where 'a = 8] by (subst typed_offers(2)) (auto simp: word8_small)
  have 16: "set (p_storage (Int16Pool st')) =
      set (p_storage (Int16Pool st)) \<union> {w. unat w < 256} \<union> (\<lambda>k. 2 ^ k) ` {0..<15}"
    unfolding st'(4) using ok word_small [where 'a = 16] by (subst typed_offers(2)) auto
  have 32: "set (p_storage (Int32Pool st')) =
      set (p_storage (Int32Pool st)) \<union> {w. unat w < 256} \<union> (\<lambda>k. 2 ^ k) ` {0..<31}"
    unfolding st'(5) using ok word_small [where 'a = 32] by (subst typed_offers(2)) auto
  have 64: "set (p_storage (Int64Pool st')) =
      set (p_storage (Int64Pool st)) \<union> {- 1} \<union> {w. unat w < 256} \<union> (\<lambda>k. 2 ^ k) ` {0..<60}"
    unfolding st'(6) using ok word_small [where 'a = 64] by (subst typed_offers(2)) auto
  have str: "set (p_storage (StringPool st')) = insert ''ChainSecurity'' (set (p_storage (StringPool st)))"
    unfolding st'(7) using ok typed_offers(2) [of "StringPool st" "[''ChainSecurity'']"] by simp
  have words: "set (p_storage (Bytes32Pool st')) = set (p_storage (Bytes32Pool st)) \<union>
      (\<lambda>n. map (\<lambda>i. word_of_nat (rnd st (32 * n + i) mod 2 ^ 63 mod 256)) [0..<32]) ` {0..<10}"
    unfolding random_word_def [symmetric] using ok typed_offers(2) [of "Bytes32Pool st" "map (random_word (rnd st)) [0..<10]"] exact
    by (simp del: fold_simps upt_Suc)
  have vals: "{v. \<exists>z \<in> set (bigptrs st'). big_get (bigs st') z = Inr v} =
      insert 0 ((\<lambda>k. 2 ^ k) ` {0..<60}) \<union> {v. \<exists>(a, p) \<in> set accs. big_get (bigs st) p = Inr v}"
    using exact unfolding pooled_values_def by blast
  have addr: "fa ` set (addresses st') = fa ` (set (addresses st) \<union> fst ` set accs)" and time: "TimestampPool st' = TimestampPool st"
    using exact by blast+
  show ?thesis by (intro exI [of _ st'] conjI; fact st'(1) st'(2) 8 16 32 64 words str time vals addr)
qed

text \<open>From a new pool, with one account of 100 Wei.\<close>

theorem init_arg_pool_content_witness:
  "\<exists>st'. InitArgPool (\<lambda>a. dec_nat (unat a)) [(7, 1)] ((start_with (\<lambda>n. n))\<lparr>bigs := [100]\<rparr>) = Inr st' \<and>
     card (set (p_storage (Int8Pool st'))) = 256 \<and> map of_nat [32..<64] \<in> set (p_storage (Bytes32Pool st')) \<and>
     (\<exists>z \<in> set (bigptrs st'). big_get (bigs st') z = Inr 100) \<and> \<not> (\<exists>z \<in> set (bigptrs st'). big_get (bigs st') z = Inr 3)"
proof -
  let ?st = "(start_with (\<lambda>n. n))\<lparr>bigs := [100]\<rparr>"
  have fresh: "pools ?st (BigIntPool ?st) = Some ring_new" by (simp add: start_with_eq)
  have inv: "arg_inv (\<lambda>a. dec_nat (unat a)) ?st" using arg_inv_start_with by simp
  have amounts: "\<forall>(a, p) \<in> set [(7 :: address, 1)]. \<exists>v. big_get (bigs ?st) p = Inr v" by simp
  from init_arg_pool_content [OF inv fresh amounts] obtain st' where
    st': "InitArgPool (\<lambda>a. dec_nat (unat a)) [(7, 1)] ?st = Inr st'" "set (p_storage (Int8Pool st')) = UNIV"
    and words: "set (p_storage (Bytes32Pool st')) = set (p_storage (Bytes32Pool ?st)) \<union>
      (\<lambda>n. map (\<lambda>i. word_of_nat (rnd ?st (32 * n + i) mod 2 ^ 63 mod 256)) [0..<32]) ` {0..<10}"
    and vals: "{v. \<exists>z \<in> set (bigptrs st'). big_get (bigs st') z = Inr v} =
      insert 0 ((\<lambda>k. 2 ^ k) ` {0..<60}) \<union> {v. \<exists>(a, p) \<in> set [(7 :: address, 1)]. big_get (bigs ?st) p = Inr v}"
    by (elim exE conjE)
  have card: "card (UNIV :: 8 word set) = 256" by (simp add: card_word)
  have "card (set (p_storage (Int8Pool st'))) = 256" using st'(2) card by (rule ssubst)
  moreover have "map of_nat [32..<64] \<in> set (p_storage (Bytes32Pool st'))"
  proof -
    have "map (\<lambda>i. word_of_nat (rnd ?st (32 * 1 + i) mod 2 ^ 63 mod 256)) [0..<32] = (map of_nat [32..<64] :: 8 word list)"
      by (simp add: start_with_eq upt_rec)
    then show ?thesis unfolding words by (intro UnI2 image_eqI [of _ _ 1]) simp_all
  qed
  moreover have "\<exists>z \<in> set (bigptrs st'). big_get (bigs st') z = Inr 100"
  proof -
    have "100 \<in> {v. \<exists>(a, p) \<in> set [(7 :: address, 1)]. big_get (bigs ?st) p = Inr v}" by simp
    then show ?thesis using vals by blast
  qed
  moreover have "\<not> (\<exists>z \<in> set (bigptrs st'). big_get (bigs st') z = Inr 3)"
  proof -
    have "(2 :: int) ^ k \<noteq> 3" for k by (cases k) (auto, presburger)
    then have "3 \<notin> insert 0 ((\<lambda>k. 2 ^ k) ` {0..<60}) \<union> {v. \<exists>(a, p) \<in> set [(7 :: address, 1)]. big_get (bigs ?st) p = Inr v}"
      by (simp add: image_iff)
    then show ?thesis using vals by blast
  qed
  ultimately show ?thesis using st'(1) by blast
qed

end
