(* ===== verification/Spec2Isabelle.thy ===== *)
theory Spec2Isabelle
  imports Process InitContent
begin

text \<open>
  ChainFuzz (\<^verbatim>\<open>src/\<close>) fuzzes Ethereum smart contracts: it replays the deployment of a truffle
  project on an in-memory chain of go-ethereum, then sends it random transactions, learns arguments
  from the results, and reports overflows, failed assertions, violated properties and coverage.
  This development models its Go code, package by package, and proves what makes it correct.

  \<^bold>\<open>How the program is modelled.\<close> A Go struct is a \<open>record\<close>, the package variables and the pointers that
  all code shares are fields of one growing record: \<open>ArgPool\<close> (the pools), \<open>argst\<close> and \<open>genst\<close> (the
  pools of interface values, the heap of big integers, the random source), \<open>utilst\<close> (the caches of package \<^verbatim>\<open>utils\<close>), \<open>backst\<close>
  (the \<^verbatim>\<open>Backend\<close>), \<open>fuzzst\<close> (snapshot, default header, clock, results, dumped traces). An operation takes the
  state and returns it; operations are polymorphic in the extension, so that each works on every later state.
  A panic is a value: \<open>'a res = go_panic + 'a\<close> with \<open>bindR\<close>. What may run forever (the loop over amounts,
  the retries) is a \<open>partial_function (option)\<close> with result \<open>'a run\<close>, where \<open>None\<close> is a run that does not end; that it
  ends is proved, not assumed. An \<^verbatim>\<open>int\<close> is a \<open>64 word\<close> where its width matters; big integers are
  \<open>int\<close>s behind pointers, because the source updates them in place. Strings are byte strings.

  \<^bold>\<open>What is a parameter.\<close> Go maps are visited in an unknown order: \<open>rangeOrder\<close>, with \<open>range_ok\<close>. Files and
  JSON decoding, cryptography, ABI packing and unpacking, the instruction iterator, the
  command line, and all of go-ethereum's chain are fields of the records \<open>env\<close>, \<open>txenv\<close>, \<open>procenv\<close>, \<open>genenv\<close>,
  \<open>chainenv\<close> and \<open>cliContext\<close>. The random source is a stream of numbers. Hypotheses on
  parameters are named: \<open>sign_ok\<close> (signing succeeds and the sender is recovered), \<open>pack_ok\<close> (arguments of
  the right types are packed), \<open>balances_ok\<close> (no negative balance), \<open>unpack_ok\<close> (decoded values are well
  formed), \<open>traces_ok\<close> (\<open>evm_calls\<close>: a trace enters calls one level at a time; nothing is assumed of the stacks, since
  steps that fail are logged too, whether they lack operands, run out of gas or execute an invalid opcode) and \<open>revert_ok\<close>
  (snapshots inside go-ethereum). Each has a witness. On a trace with an arithmetic step that lacks its operands the scan panics; \<open>underflows\<close>
  says that some transaction has such a trace, and the theorems about whole runs give this panic as one of the outcomes.

  \<^bold>\<open>The theories.\<close>
  \<^item> \<open>Prelude\<close>, \<open>GoLib\<close>, \<open>Runs\<close>: panics, loops that stop at a panic, the Go functions on numerals, hexadecimal
    texts and slices, big integers behind pointers, computations that may not end.
  \<^item> \<open>Pools\<close> (locale of a circular, duplicate-free pool and its clients), \<open>TypedPools\<close>, \<open>Timestamps\<close>, \<open>ArgPools\<close>,
    \<open>ArgPoolSafety\<close>: \<^verbatim>\<open>argpool/*.go\<close>. Every reachable pool satisfies \<open>arg_inv\<close>; reads go around
    the pool; timestamps are sorted.
  \<^item> \<open>Args\<close>, \<open>InitArgs\<close>, \<open>InitContent\<close>: \<^verbatim>\<open>utils/args.go\<close>. Arguments have the Go types of the ABI; learning keeps the old
    values of every pool and adds those of the result (\<open>learned\<close>; for a big integer the table of the pool decides, which halved
    amounts falsify); the content that the pools have at first, value by value (60 powers of two, the bound of the source's loop).
  \<^item> \<open>Statistics\<close>, \<open>Bytecode\<close>, \<open>Metadata\<close>, \<open>Contracts\<close>, \<open>Accounts\<close>, \<open>TxInput\<close>: \<^verbatim>\<open>utils/statistics.go\<close>, \<^verbatim>\<open>utils.go\<close>,
    \<^verbatim>\<open>contracts.go\<close>, \<^verbatim>\<open>accounts.go\<close>, \<^verbatim>\<open>transactions.go\<close>. Exact counts, code texts, caches (locale \<open>memo\<close>),
    lookups, decoding and signing of the recorded deployment transactions.
  \<^item> \<open>Backend\<close>: the \<^verbatim>\<open>Backend\<close> struct and the selection, removal and configuration of contracts.
  \<^item> \<open>Processor\<close>, \<open>ProcessorParts\<close>, \<open>ProcessorResults\<close>, \<open>CoverageTrace\<close>, \<open>ProcessorFrame\<close>: \<^verbatim>\<open>utils/processor.go\<close>, the scan of an
    EVM trace. Which step is reported as an overflow, compared with the exact results on integers, for steps that were executed and for steps
    that failed; the code that a step is counted for (the call stack refines the frames of the trace), and what goes wrong for creations; and
    the traces on which the scan panics.
  \<^item> \<open>Generator\<close>, \<open>GeneratorResults\<close>: \<^verbatim>\<open>utils/generator.go\<close>. \<open>chain_ok\<close> is the invariant of a chain that is
    ready for fuzzing, \<open>hint_ok\<close> that of a hint; then a valid transaction is always generated.
  \<^item> \<open>Chain\<close>: \<^verbatim>\<open>utils/snapshots.go\<close>, the transactions of \<^verbatim>\<open>utils/backend.go\<close>, header and
    timestamp of \<^verbatim>\<open>utils/heuristics.go\<close>. A world is a struct over shared memory, so that what copying the
    struct does can be told.
  \<^item> \<open>Heuristics\<close>, \<open>HeuristicsResults\<close>: \<^verbatim>\<open>Rec\<close>. The retries end, because the amount behind the hint's
    pointer is halved or the depth grows to 4, after a number of transactions that \<open>most_txs\<close> bounds; what an attempt records and
    which traces it dumps to files.
  \<^item> \<open>Startup\<close>, \<open>InitPools\<close>, \<open>StartupStages\<close>, \<open>StartupResults\<close>: \<^verbatim>\<open>NewBackend\<close>. The contracts listed; the invariant
    \<open>boot_inv\<close> of the recorded deployments, \<open>ready_inv\<close> from the filled pools to the configuration, and that a backend that is returned
    satisfies \<open>chain_ok\<close>. The hypotheses are \<open>project_ok\<close> (the artifacts have usable ABIs, the accounts amounts) and \<open>fresh_start\<close> (the
    package variables of a new process).
  \<^item> \<open>Fuzzer\<close>, \<open>FuzzerResults\<close>, \<open>CoverageReport\<close>: \<^verbatim>\<open>fuzzer/fuzzer.go\<close>. The flags (\<open>cli_ok\<close> says what the library
    of the command line returns for them), that the whole run returns with the chain intact, how far it goes beyond the limit, and what the
    report of the coverage contains.
  \<^item> \<open>Process\<close>: \<^verbatim>\<open>run\<close> and \<^verbatim>\<open>main\<close> as the list of their events: profiles, the level of the logger, the exit
    code, and what an exit inside the fuzzer skips. The answers of the file system and of the command line's parser are parameters (\<open>osenv\<close>).

  A property stands after a text with its number; a theorem named \<open>..._witness\<close> applies it to a concrete state. The
  examples of all theories are one project: the contract \<open>Token\<close> with its payable method \<open>mint\<close>.

  \<^bold>\<open>Not modelled.\<close> \<^verbatim>\<open>PrettyPrint\<close> and the log texts, of \<^verbatim>\<open>init\<close> the names and texts of the help, the JSON
  encoding of dumped traces and errors while they are written, the printed progress and timing: output only. The configuration of
  the chain and the parent hash of the header are only handed to go-ethereum. The world takes the value of an account's amount when its
  balance is set, although go-ethereum keeps the pointer, so that halving an amount in place would change a balance that no transaction
  touched. The order of a map's visits is the same each time it has the same keys. The number of committed transactions is an
  unbounded integer, which no run brings near \<open>2 ^ 63\<close>. The
  world state after an error inside go-ethereum is what its documentation says. Memory is unbounded, although the power that the
  overflow check computes for an EXP of two words can exhaust it.
\<close>

end
